(* ===== verification/Go_Prelude.thy ===== *)
theory Go_Prelude
  imports Main "HOL-Library.Sublist"
begin

text \<open>
  Shared vocabulary of the development: the pieces of the Go language and of its
  \<^verbatim>\<open>strings\<close> package that the program under \<^verbatim>\<open>src/\<close> uses, and the generic lemmas about
  them that every component shares.

  A Go \<^verbatim>\<open>string\<close> is a sequence of bytes; here it is a HOL \<^typ>\<open>string\<close>, whose characters are
  the 256 byte values. Positions and lengths therefore count bytes, as Go's \<^verbatim>\<open>len\<close> does.
  The functions keep the names and the argument order of the Go package
  (\<^verbatim>\<open>HasPrefix(s, prefix)\<close>, \<^verbatim>\<open>Split(s, sep)\<close>, \<dots>).
\<close>

named_theorems go_string \<open>equations of the modelled strings package\<close>

type_synonym bytes = string

section \<open>Results\<close>

text \<open>A Go function returning \<^verbatim>\<open>(T, error)\<close> is a sum: \<open>Inl\<close> the error, \<open>Inr\<close> the value.\<close>

definition bind_sum :: "'e + 'a \<Rightarrow> ('a \<Rightarrow> 'e + 'b) \<Rightarrow> 'e + 'b" where
  "bind_sum m k = (case m of Inl e \<Rightarrow> Inl e | Inr x \<Rightarrow> k x)"

lemma bind_sum_simps [simp]:
  "bind_sum (Inl e) k = Inl e"
  "bind_sum (Inr x) k = k x"
  by (simp_all add: bind_sum_def)

lemma bind_sum_eq_Inr [simp]:
  "bind_sum m k = Inr y \<longleftrightarrow> (\<exists>x. m = Inr x \<and> k x = Inr y)"
  by (cases m) simp_all

lemma bind_sum_eq_Inl:
  "bind_sum m k = Inl e \<longleftrightarrow> m = Inl e \<or> (\<exists>x. m = Inr x \<and> k x = Inl e)"
  by (cases m) simp_all

text \<open>A loop whose body may return early with an error visits the elements in order.\<close>

fun map_sum_list :: "('a \<Rightarrow> 'e + 'b) \<Rightarrow> 'a list \<Rightarrow> 'e + 'b list" where
  "map_sum_list f [] = Inr []"
| "map_sum_list f (x # xs) =
     bind_sum (f x) (\<lambda>y. bind_sum (map_sum_list f xs) (\<lambda>ys. Inr (y # ys)))"

lemma map_sum_list_Inr:
  "map_sum_list f xs = Inr ys \<longleftrightarrow> list_all2 (\<lambda>x y. f x = Inr y) xs ys"
  by (induction xs arbitrary: ys) (auto simp: list_all2_Cons1)

lemma map_sum_list_length: "map_sum_list f xs = Inr ys \<Longrightarrow> length ys = length xs"
  by (simp add: map_sum_list_Inr list_all2_lengthD)

section \<open>The strings package\<close>

fun HasPrefix :: "'a list \<Rightarrow> 'a list \<Rightarrow> bool" where
  "HasPrefix s [] = True"
| "HasPrefix [] (p # ps) = False"
| "HasPrefix (c # s) (p # ps) = (c = p \<and> HasPrefix s ps)"

lemma HasPrefix_iff [go_string]: "HasPrefix s p \<longleftrightarrow> (\<exists>t. s = p @ t)"
  by (induction s p rule: HasPrefix.induct) auto

lemma HasPrefix_append [simp]: "HasPrefix (p @ t) p"
  by (auto simp: HasPrefix_iff)

lemma HasPrefix_prefix: "HasPrefix s p \<longleftrightarrow> prefix p s"
  by (auto simp: HasPrefix_iff prefix_def)

lemma HasPrefix_length: "HasPrefix s p \<Longrightarrow> length p \<le> length s"
  by (auto simp: HasPrefix_iff)

definition HasSuffix :: "'a list \<Rightarrow> 'a list \<Rightarrow> bool" where
  "HasSuffix s p = HasPrefix (rev s) (rev p)"

lemma HasSuffix_iff [go_string]: "HasSuffix s p \<longleftrightarrow> (\<exists>t. s = t @ p)"
proof -
  have "HasSuffix s p \<longleftrightarrow> (\<exists>t. rev s = rev p @ t)"
    by (simp add: HasSuffix_def HasPrefix_iff)
  also have "\<dots> \<longleftrightarrow> (\<exists>t. s = t @ p)"
    by (metis rev_append rev_rev_ident)
  finally show ?thesis .
qed

lemma HasSuffix_append [simp]: "HasSuffix (t @ p) p"
  by (auto simp: HasSuffix_iff)

definition TrimPrefix :: "'a list \<Rightarrow> 'a list \<Rightarrow> 'a list" where
  "TrimPrefix s p = (if HasPrefix s p then drop (length p) s else s)"

definition TrimSuffix :: "'a list \<Rightarrow> 'a list \<Rightarrow> 'a list" where
  "TrimSuffix s p = (if HasSuffix s p then take (length s - length p) s else s)"

lemma TrimPrefix_append [simp]: "TrimPrefix (p @ t) p = t"
  by (simp add: TrimPrefix_def)

lemma TrimSuffix_append [simp]: "TrimSuffix (t @ p) p = t"
  by (simp add: TrimSuffix_def)

fun Contains :: "'a list \<Rightarrow> 'a list \<Rightarrow> bool" where
  "Contains [] sub = (sub = [])"
| "Contains (c # s) sub = (HasPrefix (c # s) sub \<or> Contains s sub)"

lemma Contains_iff [go_string]: "Contains s sub \<longleftrightarrow> (\<exists>a b. s = a @ sub @ b)"
proof (induction s)
  case Nil
  then show ?case by auto
next
  case (Cons c s)
  have "(\<exists>a b. c # s = a @ sub @ b) \<longleftrightarrow> (\<exists>b. c # s = sub @ b) \<or> (\<exists>a b. s = a @ sub @ b)"
    by (metis append_Cons append_Nil list.exhaust list.inject)
  with Cons.IH show ?case by (simp add: HasPrefix_iff)
qed

lemma Contains_single [simp]: "Contains s [c] \<longleftrightarrow> c \<in> set s"
  by (induction s) auto

definition ContainsAny :: "'a list \<Rightarrow> 'a list \<Rightarrow> bool" where
  "ContainsAny s chars = list_ex (\<lambda>c. c \<in> set chars) s"

text \<open>
  \<^verbatim>\<open>strings.Split(s, sep)\<close> for a non-empty separator: the pieces between successive
  non-overlapping occurrences, scanned from the left. The accumulator holds the bytes of the
  current piece in reverse.
\<close>

function split_acc :: "'a list \<Rightarrow> 'a list \<Rightarrow> 'a list \<Rightarrow> 'a list list" where
  "split_acc sep acc s =
     (if s = [] then [rev acc]
      else if sep \<noteq> [] \<and> HasPrefix s sep then rev acc # split_acc sep [] (drop (length sep) s)
      else split_acc sep (hd s # acc) (tl s))"
  by pat_completeness auto
termination
  by (relation "measure (\<lambda>(sep, acc, s). length s)") auto

declare split_acc.simps [simp del]

lemma split_acc_code [code, simp]:
  "split_acc sep acc [] = [rev acc]"
  "split_acc sep acc (c # s) =
     (if sep \<noteq> [] \<and> HasPrefix (c # s) sep
      then rev acc # split_acc sep [] (drop (length sep) (c # s))
      else split_acc sep (c # acc) s)"
  by (simp_all add: split_acc.simps)

definition Split :: "'a list \<Rightarrow> 'a list \<Rightarrow> 'a list list" where
  "Split s sep = split_acc sep [] s"

fun Join :: "'a list list \<Rightarrow> 'a list \<Rightarrow> 'a list" where
  "Join [] sep = []"
| "Join [x] sep = x"
| "Join (x # y # ys) sep = x @ sep @ Join (y # ys) sep"

lemma split_acc_nonempty [simp]: "split_acc sep acc s \<noteq> []"
  by (induction sep acc s rule: split_acc.induct) (subst split_acc.simps, auto)

lemma Split_nonempty [simp]: "Split s sep \<noteq> []"
  by (simp add: Split_def)

lemma Join_Cons: "xs \<noteq> [] \<Longrightarrow> Join (x # xs) sep = x @ sep @ Join xs sep"
  by (cases xs) auto

lemma Join_split_acc: "Join (split_acc sep acc s) sep = rev acc @ s"
proof (induction sep acc s rule: split_acc.induct)
  case (1 sep acc s)
  show ?case
  proof (cases s)
    case (Cons c t)
    show ?thesis
    proof (cases "sep \<noteq> [] \<and> HasPrefix s sep")
      case True
      then have "s = sep @ drop (length sep) s" by (auto simp: HasPrefix_iff)
      with True Cons 1(1) show ?thesis
        by (subst split_acc.simps) (simp add: Join_Cons)
    next
      case False
      with Cons 1(2) show ?thesis by (subst split_acc.simps) auto
    qed
  qed simp
qed

lemma Join_Split [simp]: "Join (Split s sep) sep = s"
  by (simp add: Split_def Join_split_acc)

text \<open>Splitting at a one-byte separator: the pieces do not contain it.\<close>

lemma split_acc_single_free:
  "c \<notin> set acc \<Longrightarrow> p \<in> set (split_acc [c] acc s) \<Longrightarrow> c \<notin> set p"
proof (induction s arbitrary: acc)
  case (Cons d s)
  then show ?case by (cases "d = c") force+
qed auto

lemma Split_single_free: "p \<in> set (Split s [c]) \<Longrightarrow> c \<notin> set p"
  unfolding Split_def by (rule split_acc_single_free) simp_all

lemma split_acc_free: "c \<notin> set s \<Longrightarrow> split_acc [c] acc s = [rev acc @ s]"
  by (induction s arbitrary: acc) auto

lemma split_acc_append:
  "c \<notin> set a \<Longrightarrow> split_acc [c] acc (a @ c # s) = (rev acc @ a) # split_acc [c] [] s"
  by (induction a arbitrary: acc) auto

lemma Split_free: "c \<notin> set s \<Longrightarrow> Split s [c] = [s]"
  by (simp add: Split_def split_acc_free)

lemma Split_Cons: "c \<notin> set a \<Longrightarrow> Split (a @ c # s) [c] = a # Split s [c]"
  by (simp add: Split_def split_acc_append)

lemma Split_Join_single:
  "xs \<noteq> [] \<Longrightarrow> (\<And>x. x \<in> set xs \<Longrightarrow> c \<notin> set x) \<Longrightarrow> Split (Join xs [c]) [c] = xs"
proof (induction xs rule: induct_list012)
  case (3 x y zs)
  then show ?case by (simp add: Split_Cons)
qed (simp_all add: Split_free)

text \<open>\<^verbatim>\<open>strings.ReplaceAll(s, old, new)\<close> for a non-empty \<open>old\<close>.\<close>

function ReplaceAll :: "'a list \<Rightarrow> 'a list \<Rightarrow> 'a list \<Rightarrow> 'a list" where
  "ReplaceAll s old new =
     (if s = [] then []
      else if old \<noteq> [] \<and> HasPrefix s old then new @ ReplaceAll (drop (length old) s) old new
      else hd s # ReplaceAll (tl s) old new)"
  by pat_completeness auto
termination
  by (relation "measure (\<lambda>(s, old, new). length s)") auto

declare ReplaceAll.simps [simp del]

lemma ReplaceAll_code [code, simp]:
  "ReplaceAll [] old new = []"
  "ReplaceAll (c # s) old new =
     (if old \<noteq> [] \<and> HasPrefix (c # s) old
      then new @ ReplaceAll (drop (length old) (c # s)) old new
      else c # ReplaceAll s old new)"
  by (simp_all add: ReplaceAll.simps)

text \<open>\<^verbatim>\<open>strings.Cut(s, sep)\<close> for a one-byte separator: before, after, found.\<close>

fun Cut :: "'a list \<Rightarrow> 'a \<Rightarrow> 'a list \<times> 'a list \<times> bool" where
  "Cut [] sep = ([], [], False)"
| "Cut (c # s) sep =
     (if c = sep then ([], s, True)
      else (case Cut s sep of (a, b, f) \<Rightarrow> (c # a, b, f)))"

lemma Cut_found: "sep \<notin> set a \<Longrightarrow> Cut (a @ sep # b) sep = (a, b, True)"
  by (induction a) auto

lemma Cut_absent: "sep \<notin> set s \<Longrightarrow> Cut s sep = (s, [], False)"
  by (induction s) auto

section \<open>White space, case\<close>

text \<open>
  \<^verbatim>\<open>unicode.IsSpace\<close> as byte sequences: the UTF-8 encodings of the white-space code points.
  None of the multi-byte ones can start inside the encoding of another rune, so matching the
  encodings at the ends of a byte string is what decoding runes there does.
\<close>

definition space_runes :: "bytes list" where
  "space_runes =
    [[CHR 0x09], [CHR 0x0A], [CHR 0x0B], [CHR 0x0C], [CHR 0x0D], [CHR 0x20],
     [CHR 0xC2, CHR 0x85], [CHR 0xC2, CHR 0xA0], [CHR 0xE1, CHR 0x9A, CHR 0x80],
     [CHR 0xE2, CHR 0x80, CHR 0x80], [CHR 0xE2, CHR 0x80, CHR 0x81], [CHR 0xE2, CHR 0x80, CHR 0x82],
     [CHR 0xE2, CHR 0x80, CHR 0x83], [CHR 0xE2, CHR 0x80, CHR 0x84], [CHR 0xE2, CHR 0x80, CHR 0x85],
     [CHR 0xE2, CHR 0x80, CHR 0x86], [CHR 0xE2, CHR 0x80, CHR 0x87], [CHR 0xE2, CHR 0x80, CHR 0x88],
     [CHR 0xE2, CHR 0x80, CHR 0x89], [CHR 0xE2, CHR 0x80, CHR 0x8A], [CHR 0xE2, CHR 0x80, CHR 0xA8],
     [CHR 0xE2, CHR 0x80, CHR 0xA9], [CHR 0xE2, CHR 0x80, CHR 0xAF], [CHR 0xE2, CHR 0x81, CHR 0x9F],
     [CHR 0xE3, CHR 0x80, CHR 0x80]]"

text \<open>The length of the space rune at the head of \<open>s\<close>, 0 when there is none.\<close>

definition space_at :: "bytes list \<Rightarrow> bytes \<Rightarrow> nat" where
  "space_at rs s = (case find (HasPrefix s) rs of None \<Rightarrow> 0 | Some r \<Rightarrow> length r)"

function trim_left :: "bytes list \<Rightarrow> bytes \<Rightarrow> bytes" where
  "trim_left rs s =
     (if s = [] \<or> space_at rs s = 0 then s else trim_left rs (drop (space_at rs s) s))"
  by pat_completeness auto
termination
  by (relation "measure (\<lambda>(rs, s). length s)") auto

declare trim_left.simps [simp del]

definition TrimSpace :: "bytes \<Rightarrow> bytes" where
  "TrimSpace s = rev (trim_left (map rev space_runes) (rev (trim_left space_runes s)))"

text \<open>\<^verbatim>\<open>strings.Fields\<close>: the maximal runs of non-space runes.\<close>

function fields_acc :: "bytes \<Rightarrow> bytes \<Rightarrow> bytes list" where
  "fields_acc acc s =
     (if s = [] then (if acc = [] then [] else [rev acc])
      else if space_at space_runes s = 0 then fields_acc (hd s # acc) (tl s)
      else (if acc = [] then [] else [rev acc])
           @ fields_acc [] (drop (space_at space_runes s) s))"
  by pat_completeness auto
termination
  by (relation "measure (\<lambda>(acc, s). length s)") auto

declare fields_acc.simps [simp del]

definition Fields :: "bytes \<Rightarrow> bytes list" where
  "Fields s = fields_acc [] s"

definition is_ascii :: "char \<Rightarrow> bool" where
  "is_ascii c = (of_char c < (128 :: nat))"

definition is_upper :: "char \<Rightarrow> bool" where
  "is_upper c = (65 \<le> (of_char c :: nat) \<and> of_char c \<le> (90 :: nat))"

definition is_lower :: "char \<Rightarrow> bool" where
  "is_lower c = (97 \<le> (of_char c :: nat) \<and> of_char c \<le> (122 :: nat))"

definition is_digit :: "char \<Rightarrow> bool" where
  "is_digit c = (48 \<le> (of_char c :: nat) \<and> of_char c \<le> (57 :: nat))"

definition digit_val :: "char \<Rightarrow> int" where
  "digit_val c = int (of_char c) - 48"

definition lower_char :: "char \<Rightarrow> char" where
  "lower_char c = (if is_upper c then char_of (of_char c + 32 :: nat) else c)"

definition upper_char :: "char \<Rightarrow> char" where
  "upper_char c = (if is_lower c then char_of (of_char c - 32 :: nat) else c)"

text \<open>
  \<^verbatim>\<open>strings.ToLower\<close> maps bytes when the string is ASCII and otherwise runes through the Unicode
  tables. The tables are data of the Go distribution: \<open>uni\<close> stands for
  \<^verbatim>\<open>strings.Map(unicode.ToLower, s)\<close>.
\<close>

definition ToLower :: "(bytes \<Rightarrow> bytes) \<Rightarrow> bytes \<Rightarrow> bytes" where
  "ToLower uni s = (if list_all is_ascii s then map lower_char s else uni s)"

text \<open>
  \<^verbatim>\<open>strings.EqualFold(s, t)\<close> for an ASCII \<open>t\<close> without the letters k and s, whose fold orbits
  are the only ones that leave ASCII.
\<close>

definition EqualFold :: "bytes \<Rightarrow> bytes \<Rightarrow> bool" where
  "EqualFold s t = (map lower_char s = map lower_char t)"

section \<open>Numbers as text\<close>

text \<open>\<^verbatim>\<open>strconv.Itoa\<close> and the \<^verbatim>\<open>%d\<close> verb.\<close>

fun nat_digits :: "nat \<Rightarrow> bytes" where
  "nat_digits n =
     (if n < 10 then [char_of (48 + n)] else nat_digits (n div 10) @ [char_of (48 + n mod 10)])"

declare nat_digits.simps [simp del]

definition Itoa :: "int \<Rightarrow> bytes" where
  "Itoa i = (if i < 0 then CHR ''-'' # nat_digits (nat (- i)) else nat_digits (nat i))"

fun digits_val :: "int \<Rightarrow> bytes \<Rightarrow> int" where
  "digits_val acc [] = acc"
| "digits_val acc (c # cs) = digits_val (10 * acc + digit_val c) cs"

text \<open>
  \<^verbatim>\<open>strconv.ParseInt(s, 10, bits)\<close>: an optional sign, at least one digit, nothing but digits
  (underscores are rejected in base 10), and the value within the signed range; \<open>None\<close> is an
  error. \<^verbatim>\<open>strconv.Atoi\<close> is the 64-bit instance.
\<close>

fun split_sign :: "bytes \<Rightarrow> bool \<times> bytes" where
  "split_sign [] = (False, [])"
| "split_sign (c # t) =
     (if c = CHR ''-'' then (True, t) else if c = CHR ''+'' then (False, t) else (False, c # t))"

definition ParseInt :: "nat \<Rightarrow> bytes \<Rightarrow> int option" where
  "ParseInt bits s =
     (case split_sign s of (neg, ds) \<Rightarrow>
        if ds = [] \<or> \<not> list_all is_digit ds then None
        else if \<not> neg \<and> digits_val 0 ds < 2 ^ (bits - 1) then Some (digits_val 0 ds)
        else if neg \<and> digits_val 0 ds \<le> 2 ^ (bits - 1) then Some (- digits_val 0 ds)
        else None)"

definition Atoi :: "bytes \<Rightarrow> int option" where
  "Atoi s = ParseInt 64 s"

lemma digit_val_bounds: "is_digit c \<Longrightarrow> 0 \<le> digit_val c \<and> digit_val c \<le> 9"
proof -
  assume "is_digit c"
  then have "(48 :: int) \<le> int (of_char c) \<and> int (of_char c) \<le> 57"
    by (simp add: is_digit_def)
  then show ?thesis by (simp add: digit_val_def)
qed

lemma digits_val_nonneg: "0 \<le> acc \<Longrightarrow> list_all is_digit ds \<Longrightarrow> 0 \<le> digits_val acc ds"
proof (induction ds arbitrary: acc)
  case (Cons c cs)
  then show ?case using digit_val_bounds [of c] by simp
qed simp

lemma ParseInt_range:
  assumes "ParseInt bits s = Some v"
  shows "- (2 ^ (bits - 1)) \<le> v \<and> v < 2 ^ (bits - 1)"
proof -
  obtain neg ds where sp: "split_sign s = (neg, ds)" by fastforce
  have "list_all is_digit ds" using assms sp by (simp add: ParseInt_def split: if_splits)
  then have "0 \<le> digits_val 0 ds" by (intro digits_val_nonneg) simp
  moreover have "0 < (2 :: int) ^ (bits - 1)" by simp
  ultimately have "- digits_val 0 ds < 2 ^ (bits - 1) \<and> - (2 ^ (bits - 1)) \<le> digits_val 0 ds"
    by linarith
  then show ?thesis using assms sp by (auto simp: ParseInt_def split: if_splits)
qed

subsection \<open>Printing and parsing a number\<close>

lemma digits_val_snoc: "digits_val acc (ds @ [c]) = 10 * digits_val acc ds + digit_val c"
  by (induction ds arbitrary: acc) simp_all

lemma digit_of_nat: "n < 10 \<Longrightarrow> digit_val (char_of (48 + n)) = int n \<and> is_digit (char_of (48 + n))"
  by (simp add: digit_val_def is_digit_def)

lemma nat_digits_val:
  "digits_val 0 (nat_digits n) = int n \<and> list_all is_digit (nat_digits n) \<and> nat_digits n \<noteq> []"
proof (induction n rule: nat_digits.induct)
  case (1 n)
  show ?case
  proof (cases "n < 10")
    case True
    then show ?thesis by (subst (1 2 3) nat_digits.simps) (simp add: digit_of_nat)
  next
    case False
    have "digits_val 0 (nat_digits n) = 10 * int (n div 10) + int (n mod 10)"
      using 1 [OF False] False digit_of_nat [of "n mod 10"]
      by (subst nat_digits.simps) (simp add: digits_val_snoc)
    also have "\<dots> = int n" using mult_div_mod_eq [of 10 n] by linarith
    finally show ?thesis
      using 1 [OF False] False digit_of_nat [of "n mod 10"] by (subst (2 3) nat_digits.simps) simp
  qed
qed

lemma split_sign_digit: "ds \<noteq> [] \<Longrightarrow> list_all is_digit ds \<Longrightarrow> split_sign ds = (False, ds)"
  by (cases ds) (auto simp: is_digit_def)

lemma ParseInt_Itoa:
  assumes "0 \<le> i" "i < 2 ^ (bits - 1)" shows "ParseInt bits (Itoa i) = Some i"
proof -
  have "split_sign (nat_digits (nat i)) = (False, nat_digits (nat i))"
    using nat_digits_val [of "nat i"] by (intro split_sign_digit) auto
  then show ?thesis
    using assms nat_digits_val [of "nat i"] by (simp add: ParseInt_def Itoa_def)
qed

lemma Itoa_nonempty [simp]: "Itoa i \<noteq> []"
  using nat_digits_val by (simp add: Itoa_def)

end
