(* ===== verification/Apperror.thy ===== *)
theory Apperror
  imports Go_Prelude
begin

text \<open>
  Error values and the package \<^verbatim>\<open>src/internal/platform/apperror\<close>.

  A Go \<^verbatim>\<open>error\<close> is an interface value; the program only builds and inspects the dynamic types
  below, so the interface is a \<^theory_text>\<open>datatype\<close> with one constructor per dynamic type. A nil
  interface is \<open>None\<close> of \<^typ>\<open>'a option\<close>; the typed nil pointers \<^verbatim>\<open>(*AppError)(nil)\<close> and
  \<^verbatim>\<open>(*ValidationError)(nil)\<close>, which are non-nil interfaces, have constructors of their own. The
  group also models \<^verbatim>\<open>errors.Is\<close>, \<^verbatim>\<open>errors.As\<close> and \<^verbatim>\<open>errors.Join\<close>.
\<close>

section \<open>Error values\<close>

text \<open>\<^verbatim>\<open>FieldViolation\<close>.\<close>

record field_violation =
  Field :: string
  Message :: string

text \<open>
  \<^item> \<open>CodeErr\<close>: \<^verbatim>\<open>apperror.Code\<close>, \<open>RequestErr\<close>: \<^verbatim>\<open>httpserver.requestError\<close>, both string kinds,
    compared by value;
  \<^item> \<open>Sentinel\<close>: a package-level \<^verbatim>\<open>errors.New\<close> variable, compared by identity, named by the
    variable; \<open>NewErr\<close>: an error created at the point of use, with its text;
  \<^item> \<open>WrapErr\<close>: \<^verbatim>\<open>fmt.Errorf\<close> with \<^verbatim>\<open>%w\<close>, the whole text and the wrapped error;
  \<^item> \<open>JoinErr\<close>: the result of \<^verbatim>\<open>errors.Join\<close>;
  \<^item> \<open>ForeignErr\<close>: an error of a library outside the repository, with what the program can
    observe of it: its text, its \<^verbatim>\<open>SQLState()\<close> if it has that method, and, if it is a
    \<^verbatim>\<open>*goose.PartialError\<close>, the version of its failed migration (if any), and what it unwraps to;
  \<^item> \<open>MaxBytesErr\<close> and \<open>InvalidUnmarshalErr\<close>: \<^verbatim>\<open>*http.MaxBytesError\<close> and
    \<^verbatim>\<open>*json.InvalidUnmarshalError\<close>.
\<close>

datatype gerror =
    CodeErr string
  | AppErr string "gerror option"
  | AppErrNil
  | ValidationErr "field_violation list"
  | ValidationErrNil
  | RequestErr string
  | Sentinel string
  | NewErr string
  | WrapErr string gerror
  | JoinErr "gerror list"
  | ForeignErr string "string option" "int option option" "gerror list"
  | MaxBytesErr
  | InvalidUnmarshalErr

abbreviation ErrAddressNotFound :: string where "ErrAddressNotFound \<equiv> ''ADDRESS_NOT_FOUND''"
abbreviation ErrInvalidAddress :: string where "ErrInvalidAddress \<equiv> ''INVALID_ADDRESS''"
abbreviation ErrInvalidCoordinates :: string where "ErrInvalidCoordinates \<equiv> ''INVALID_COORDINATES''"
abbreviation ErrProviderUnavailable :: string where "ErrProviderUnavailable \<equiv> ''PROVIDER_UNAVAILABLE''"
abbreviation ErrRateLimitExceeded :: string where "ErrRateLimitExceeded \<equiv> ''RATE_LIMIT_EXCEEDED''"
abbreviation ErrInternal :: string where "ErrInternal \<equiv> ''INTERNAL_ERROR''"
abbreviation ErrInvalidInput :: string where "ErrInvalidInput \<equiv> ''INVALID_INPUT''"
abbreviation ErrUnauthorized :: string where "ErrUnauthorized \<equiv> ''UNAUTHORIZED''"
abbreviation ErrForbidden :: string where "ErrForbidden \<equiv> ''FORBIDDEN''"

section \<open>The methods of the error types\<close>

text \<open>
  \<^verbatim>\<open>Unwrap\<close>, both the single and the multiple form: the list of non-nil errors below.
\<close>

fun Unwrap :: "gerror \<Rightarrow> gerror list" where
  "Unwrap (AppErr c cause) = (case cause of None \<Rightarrow> [] | Some e \<Rightarrow> [e])"
| "Unwrap (WrapErr msg e) = [e]"
| "Unwrap (JoinErr es) = es"
| "Unwrap (ForeignErr msg st pv es) = es"
| "Unwrap _ = []"

lemma Unwrap_size: "x \<in> set (Unwrap e) \<Longrightarrow> size x < size e"
  by (cases e) (auto split: option.splits dest: size_list_estimation' [OF _ order_refl, of _ _ size])

text \<open>The texts of the package-level error variables, of the repository and of the standard library.\<close>

definition sentinel_texts :: "(string \<times> string) list" where
  "sentinel_texts =
     [(''errLegacyDetected'', ''legacy database detected; verify backup and use adopt-legacy''),
      (''errLegacyRequired'', ''adopt-legacy requires an existing legacy schema''),
      (''errLegacyLedger'', ''legacy version ledger is not the expected baseline''),
      (''errLegacyDrift'', ''legacy schema drift detected; adoption refused''),
      (''context.Canceled'', ''context canceled''), (''context.DeadlineExceeded'', ''context deadline exceeded''),
      (''net.ErrClosed'', ''use of closed network connection''), (''http.ErrServerClosed'', ''http: Server closed''),
      (''http.ErrHandlerTimeout'', ''http: Handler timeout''), (''http.ErrHijacked'', ''http: connection has been hijacked''),
      (''http.ErrBodyNotAllowed'', ''http: request method or response status code does not allow body''),
      (''http.ErrContentLength'', ''http: wrote more than the declared Content-Length''),
      (''errors.ErrUnsupported'', ''unsupported operation''), (''bufio.ErrTooLong'', ''bufio.Scanner: token too long''),
      (''strconv.ErrSyntax'', ''invalid syntax'')]"

definition sentinel_text :: "string \<Rightarrow> string" where
  "sentinel_text name = (case map_of sentinel_texts name of Some t \<Rightarrow> t | None \<Rightarrow> name)"

text \<open>\<^verbatim>\<open>Error() string\<close>.\<close>

function Error :: "gerror \<Rightarrow> string" where
  "Error e =
     (case e of
        CodeErr c \<Rightarrow> c
      | AppErr c None \<Rightarrow> c
      | AppErr c (Some cause) \<Rightarrow> c @ '': '' @ Error cause
      | AppErrNil \<Rightarrow> ErrInternal
      | ValidationErr ds \<Rightarrow> ErrInvalidInput
      | ValidationErrNil \<Rightarrow> ErrInvalidInput
      | RequestErr c \<Rightarrow> c
      | Sentinel name \<Rightarrow> sentinel_text name
      | NewErr msg \<Rightarrow> msg
      | WrapErr msg inner \<Rightarrow> msg
      | JoinErr es \<Rightarrow> Join (map Error es) [CHR 0x0A]
      | ForeignErr msg st pv es \<Rightarrow> msg
      | MaxBytesErr \<Rightarrow> ''http: request body too large''
      | InvalidUnmarshalErr \<Rightarrow> ''json: Unmarshal'')"
  by pat_completeness auto
termination
  by (relation "measure size") (auto dest: size_list_estimation' [OF _ order_refl, of _ _ size])

text \<open>
  \<^verbatim>\<open>ErrorCode() Code\<close>: \<open>None\<close> for a dynamic type without that method, which then does not
  satisfy the interface \<^verbatim>\<open>CodeOf\<close> asks for.
\<close>

fun ErrorCode :: "gerror \<Rightarrow> string option" where
  "ErrorCode (CodeErr c) = Some c"
| "ErrorCode (AppErr c cause) = Some c"
| "ErrorCode AppErrNil = Some ErrInternal"
| "ErrorCode (ValidationErr ds) = Some ErrInvalidInput"
| "ErrorCode ValidationErrNil = Some ErrInternal"
| "ErrorCode (RequestErr c) = Some c"
| "ErrorCode _ = None"

text \<open>The \<^verbatim>\<open>Is(target error) bool\<close> methods; a type without one never matches through it.\<close>

fun Is_method :: "gerror \<Rightarrow> gerror \<Rightarrow> bool" where
  "Is_method (AppErr c cause) target = (target = CodeErr c)"
| "Is_method (ValidationErr ds) target = (target = CodeErr ErrInvalidInput)"
| "Is_method _ target = False"

section \<open>errors.As, errors.Is, errors.Join\<close>

text \<open>
  Interface equality \<^verbatim>\<open>err == target\<close>: by value for the string kinds, by identity for the
  package-level variables; distinct pointers are never equal.
\<close>

fun same_error :: "gerror \<Rightarrow> gerror \<Rightarrow> bool" where
  "same_error (CodeErr c) target = (target = CodeErr c)"
| "same_error (RequestErr c) target = (target = RequestErr c)"
| "same_error (Sentinel v) target = (target = Sentinel v)"
| "same_error _ target = False"

lemma Unwrap_size_list: "size_list size (Unwrap e) \<le> size e"
  by (cases e) (auto split: option.splits)

text \<open>
  \<^verbatim>\<open>errors.As\<close>: the error itself if it has the wanted type, else the errors below it from left
  to right, each completely before the next.
\<close>

function (sequential) errors_As :: "(gerror \<Rightarrow> bool) \<Rightarrow> gerror \<Rightarrow> gerror option"
  and errors_As_list :: "(gerror \<Rightarrow> bool) \<Rightarrow> gerror list \<Rightarrow> gerror option" where
  "errors_As p e = (if p e then Some e else errors_As_list p (Unwrap e))"
| "errors_As_list p [] = None"
| "errors_As_list p (e # es) =
     (case errors_As p e of Some x \<Rightarrow> Some x | None \<Rightarrow> errors_As_list p es)"
  by pat_completeness auto
termination
  by (relation "measure (case_sum (\<lambda>(p, e). Suc (2 * size e)) (\<lambda>(p, es). 2 * size_list size es))")
    (auto simp: Unwrap_size_list less_Suc_eq_le)

declare errors_As.simps [simp del]

definition errors_Is :: "gerror \<Rightarrow> gerror \<Rightarrow> bool" where
  "errors_Is e target = (errors_As (\<lambda>x. same_error x target \<or> Is_method x target) e \<noteq> None)"

text \<open>\<^verbatim>\<open>errors.Join\<close> drops nil arguments and is nil when nothing is left.\<close>

definition errors_Join :: "gerror option list \<Rightarrow> gerror option" where
  "errors_Join errs =
     (let es = map the (filter (\<lambda>e. e \<noteq> None) errs) in if es = [] then None else Some (JoinErr es))"

section \<open>CodeOf\<close>

definition CodeOf :: "gerror option \<Rightarrow> string" where
  "CodeOf err =
     (case err of
        None \<Rightarrow> ''''
      | Some e \<Rightarrow>
          (case errors_As (\<lambda>x. ErrorCode x \<noteq> None) e of
             Some classified \<Rightarrow> the (ErrorCode classified)
           | None \<Rightarrow> ErrInternal))"

section \<open>What the traversals mean\<close>

text \<open>
  Reference definition: the errors of the tree in depth-first order, outermost first. The
  recursive search of \<^verbatim>\<open>errors.As\<close> finds the first match of this list.
\<close>

function chain :: "gerror \<Rightarrow> gerror list" where
  "chain e = e # concat (map chain (Unwrap e))"
  by pat_completeness auto
termination
  by (relation "measure size") (auto dest: Unwrap_size)

declare chain.simps [simp del]

lemma find_append: "find p (xs @ ys) = (case find p xs of Some x \<Rightarrow> Some x | None \<Rightarrow> find p ys)"
  by (induction xs) auto

lemma errors_As_find_aux:
  "errors_As p e = find p (chain e)"
  "errors_As_list p es = find p (concat (map chain es))"
proof (induction p e and p es rule: errors_As_errors_As_list.induct)
  case (1 p e)
  then show ?case by (subst errors_As.simps, subst chain.simps) simp
next
  case (3 p e es)
  then show ?case by (simp add: find_append split: option.split)
qed simp

lemmas errors_As_find = errors_As_find_aux(1)

lemma errors_As_Some: "errors_As p e = Some x \<Longrightarrow> p x \<and> x \<in> set (chain e)"
  by (auto simp: errors_As_find find_Some_iff)

lemma errors_As_None: "errors_As p e = None \<longleftrightarrow> (\<forall>x \<in> set (chain e). \<not> p x)"
  by (auto simp: errors_As_find find_None_iff)

lemma self_in_chain [simp]: "e \<in> set (chain e)"
  by (subst chain.simps) simp

lemma errors_Is_iff:
  "errors_Is e target \<longleftrightarrow> (\<exists>x \<in> set (chain e). same_error x target \<or> Is_method x target)"
  by (auto simp: errors_Is_def errors_As_None)

lemma CodeOf_classified: "ErrorCode e = Some c \<Longrightarrow> CodeOf (Some e) = c"
  by (simp add: CodeOf_def errors_As.simps)

lemma CodeOf_unclassified:
  "ErrorCode e = None \<Longrightarrow> Unwrap e = [] \<Longrightarrow> CodeOf (Some e) = ErrInternal"
  by (simp add: CodeOf_def errors_As.simps)

lemma CodeOf_WrapErr: "CodeOf (Some (WrapErr msg e)) = CodeOf (Some e)"
proof -
  have "errors_As p (WrapErr msg e) = errors_As p e" if "\<not> p (WrapErr msg e)" for p
    using that by (simp add: errors_As.simps [of p "WrapErr msg e"] split: option.splits)
  then show ?thesis by (simp add: CodeOf_def)
qed

lemma find_filter: "find p xs = (case filter p xs of [] \<Rightarrow> None | x # _ \<Rightarrow> Some x)"
  by (induction xs) auto

text \<open>
  \<^verbatim>\<open>CodeOf\<close> returns the code of the outermost classification: the first error, in
  depth-first order over wrapping and \<^verbatim>\<open>errors.Join\<close>, that has a code decides, whatever is
  classified below or after it; an error tree without any classification is internal, and so is
  a typed nil pointer, while a nil error has the empty code.
\<close>

theorem CodeOf_outermost:
  "CodeOf None = '''' \<and>
   CodeOf (Some e) =
     (case filter (\<lambda>x. ErrorCode x \<noteq> None) (chain e) of
        [] \<Rightarrow> ErrInternal
      | x # _ \<Rightarrow> the (ErrorCode x)) \<and>
   CodeOf (Some AppErrNil) = ErrInternal \<and> CodeOf (Some ValidationErrNil) = ErrInternal"
  by (simp add: CodeOf_classified)
    (simp add: CodeOf_def errors_As_find find_filter split: list.splits)

end
