(* ===== verification/Go_Regex.thy ===== *)
theory Go_Regex
  imports Go_Prelude
begin

text \<open>
  The part of Go's \<^verbatim>\<open>regexp\<close> package the program uses: leftmost-first matching with capture
  groups, \<^verbatim>\<open>FindStringSubmatch\<close> and \<^verbatim>\<open>ReplaceAllStringFunc\<close>.

  The patterns of the program consist of ASCII literals and of classes that are sets of ASCII
  bytes or complements of such sets, so matching bytes and matching runes select the same spans.
  A pattern is a term of \<open>regex\<close>; matching enumerates the ways to match in the order of
  preference of the package (left alternative first, longest repetition first) and takes the
  first.
\<close>

datatype regex =
    Eps
  | OneOf "char list"
  | NoneOf "char list"
  | Cat regex regex
  | Alt regex regex
  | Star regex
  | Group nat regex
  | BeginText
  | EndText

text \<open>Derived forms: \<^verbatim>\<open>r?\<close>, \<^verbatim>\<open>r+\<close>, a literal string, and a sequence.\<close>

definition Opt :: "regex \<Rightarrow> regex" where
  "Opt r = Alt r Eps"

definition Plus :: "regex \<Rightarrow> regex" where
  "Plus r = Cat r (Star r)"

fun Lit :: "string \<Rightarrow> regex" where
  "Lit [] = Eps"
| "Lit (c # cs) = Cat (OneOf [c]) (Lit cs)"

fun Seq :: "regex list \<Rightarrow> regex" where
  "Seq [] = Eps"
| "Seq (r # rs) = Cat r (Seq rs)"

type_synonym groups = "(nat \<times> bytes) list"
type_synonym mstate = "groups \<times> bytes"

text \<open>
  Repetition: every continuation after one more iteration comes before stopping. An iteration
  that consumes nothing is not repeated.
\<close>

function star_iter :: "(mstate \<Rightarrow> mstate list) \<Rightarrow> mstate \<Rightarrow> mstate list" where
  "star_iter f st =
     concat (map (star_iter f) (filter (\<lambda>st'. length (snd st') < length (snd st)) (f st))) @ [st]"
  by pat_completeness auto
termination
  by (relation "measure (\<lambda>(f, st). length (snd st))") auto

declare star_iter.simps [simp del]

text \<open>
  All matches from a state, in order of preference. A state holds the groups captured so far,
  the latest first, and the rest of the text; \<open>n\<close> is the length of the whole text.
\<close>

primrec all_matches :: "nat \<Rightarrow> regex \<Rightarrow> mstate \<Rightarrow> mstate list" where
  "all_matches n Eps = (\<lambda>st. [st])"
| "all_matches n (OneOf cs) =
     (\<lambda>(g, s). case s of c # t \<Rightarrow> if c \<in> set cs then [(g, t)] else [] | [] \<Rightarrow> [])"
| "all_matches n (NoneOf cs) =
     (\<lambda>(g, s). case s of c # t \<Rightarrow> if c \<in> set cs then [] else [(g, t)] | [] \<Rightarrow> [])"
| "all_matches n (Cat r1 r2) = (\<lambda>st. concat (map (all_matches n r2) (all_matches n r1 st)))"
| "all_matches n (Alt r1 r2) = (\<lambda>st. all_matches n r1 st @ all_matches n r2 st)"
| "all_matches n (Star r) = star_iter (all_matches n r)"
| "all_matches n (Group i r) =
     (\<lambda>(g, s). map (\<lambda>(g', s'). ((i, take (length s - length s') s) # g', s'))
                   (all_matches n r (g, s)))"
| "all_matches n BeginText = (\<lambda>(g, s). if length s = n then [(g, s)] else [])"
| "all_matches n EndText = (\<lambda>(g, s). if s = [] then [(g, s)] else [])"

text \<open>
  The leftmost match: the text before it, the text after it and the captured groups.
\<close>

fun find_from :: "nat \<Rightarrow> regex \<Rightarrow> bytes \<Rightarrow> (bytes \<times> bytes \<times> groups) option" where
  "find_from n r [] =
     (case all_matches n r ([], []) of (g, t) # _ \<Rightarrow> Some ([], t, g) | [] \<Rightarrow> None)"
| "find_from n r (c # s) =
     (case all_matches n r ([], c # s) of
        (g, t) # _ \<Rightarrow> Some ([], t, g)
      | [] \<Rightarrow> (case find_from n r s of None \<Rightarrow> None | Some (a, t, g) \<Rightarrow> Some (c # a, t, g)))"

text \<open>\<^verbatim>\<open>FindStringSubmatch(s)[i]\<close>: the text of a group, empty when the group took no part.\<close>

definition submatch :: "groups \<Rightarrow> nat \<Rightarrow> bytes" where
  "submatch g i = (case map_of g i of None \<Rightarrow> [] | Some t \<Rightarrow> t)"

definition FindStringSubmatch :: "regex \<Rightarrow> bytes \<Rightarrow> groups option" where
  "FindStringSubmatch r s = map_option (snd \<circ> snd) (find_from (length s) r s)"

text \<open>
  \<^verbatim>\<open>ReplaceAllStringFunc(s, f)\<close> for a pattern that does not match the empty string: successive
  leftmost matches, each replaced by \<open>f\<close> of its text. The bound \<open>length s\<close> on the number of
  matches is enough because every match takes at least one byte.
\<close>

fun replace_all :: "nat \<Rightarrow> nat \<Rightarrow> regex \<Rightarrow> (bytes \<Rightarrow> bytes) \<Rightarrow> bytes \<Rightarrow> bytes" where
  "replace_all 0 n r f s = s"
| "replace_all (Suc k) n r f s =
     (case find_from n r s of
        None \<Rightarrow> s
      | Some (a, t, g) \<Rightarrow>
          a @ f (take (length s - length a - length t) (drop (length a) s)) @ replace_all k n r f t)"

definition ReplaceAllStringFunc :: "regex \<Rightarrow> (bytes \<Rightarrow> bytes) \<Rightarrow> bytes \<Rightarrow> bytes" where
  "ReplaceAllStringFunc r f s = replace_all (length s) (length s) r f s"

section \<open>Lemmas on matching\<close>

lemma all_matches_Lit:
  "all_matches n (Lit l) (g, s) = (if HasPrefix s l then [(g, drop (length l) s)] else [])"
proof (induction l arbitrary: s)
  case (Cons c l)
  then show ?case by (cases s) auto
qed simp

lemma all_matches_Seq_Cons [simp]:
  "all_matches n (Seq (r # rs)) st = concat (map (all_matches n (Seq rs)) (all_matches n r st))"
  by simp

text \<open>A match consumes a prefix of the rest of the text.\<close>

lemma star_iter_suffix:
  assumes "\<And>st st'. st' \<in> set (f st) \<Longrightarrow> suffix (snd st') (snd st)"
    and "st' \<in> set (star_iter f st)"
  shows "suffix (snd st') (snd st)"
  using assms
proof (induction f st rule: star_iter.induct)
  case (1 f st)
  from "1.prems"(2) consider "st' = st" |
    st1 where "st1 \<in> set (f st)" "length (snd st1) < length (snd st)" "st' \<in> set (star_iter f st1)"
    by (subst (asm) star_iter.simps) auto
  then show ?case
  proof cases
    case 2
    with 1 have "suffix (snd st') (snd st1)" by simp
    with "1.prems"(1) [OF 2(1)] show ?thesis by (rule suffix_order.trans [rotated])
  qed simp
qed

lemma all_matches_suffix: "st' \<in> set (all_matches n r st) \<Longrightarrow> suffix (snd st') (snd st)"
proof (induction r arbitrary: st st')
  case (Cat r1 r2)
  from Cat.prems obtain st1 where "st1 \<in> set (all_matches n r1 st)" "st' \<in> set (all_matches n r2 st1)"
    by auto
  with Cat.IH show ?case by (blast intro: suffix_order.trans)
next
  case (Star r)
  from Star.prems have "st' \<in> set (star_iter (all_matches n r) st)" by simp
  with Star.IH show ?case by (rule star_iter_suffix)
next
  case (Group i r)
  then show ?case by (cases st) fastforce
qed (auto split: prod.splits list.splits if_splits simp: suffix_Cons)

lemma find_from_anchored:
  "length s \<noteq> n \<Longrightarrow> length s < n \<Longrightarrow> find_from n (Cat BeginText r) s = None"
  by (induction s) auto

lemma find_from_BeginText:
  "find_from (length s) (Cat BeginText r) s =
     (case all_matches (length s) r ([], s) of (g, t) # _ \<Rightarrow> Some ([], t, g) | [] \<Rightarrow> None)"
proof (cases s)
  case (Cons c s')
  then show ?thesis by (auto simp: find_from_anchored split: list.splits)
qed simp

section \<open>Membership in the set of matches\<close>

named_theorems match_sets \<open>which states a pattern can reach\<close>

lemma in_Eps [match_sets]: "st' \<in> set (all_matches n Eps st) \<longleftrightarrow> st' = st"
  by simp

lemma in_Lit [match_sets]: "st' \<in> set (all_matches n (Lit l) (g, s)) \<longleftrightarrow> (\<exists>t. st' = (g, t) \<and> s = l @ t)"
  by (auto simp: all_matches_Lit HasPrefix_iff)

lemma in_OneOf [match_sets]:
  "st' \<in> set (all_matches n (OneOf cs) (g, s)) \<longleftrightarrow> (\<exists>c t. st' = (g, t) \<and> s = c # t \<and> c \<in> set cs)"
  by (auto split: list.splits)

lemma in_NoneOf [match_sets]:
  "st' \<in> set (all_matches n (NoneOf cs) (g, s)) \<longleftrightarrow> (\<exists>c t. st' = (g, t) \<and> s = c # t \<and> c \<notin> set cs)"
  by (auto split: list.splits)

lemma in_Cat [match_sets]:
  "st' \<in> set (all_matches n (Cat r1 r2) st) \<longleftrightarrow>
     (\<exists>st1. st1 \<in> set (all_matches n r1 st) \<and> st' \<in> set (all_matches n r2 st1))"
  by auto

lemma in_Seq_Nil [match_sets]: "st' \<in> set (all_matches n (Seq []) st) \<longleftrightarrow> st' = st"
  by simp

lemma in_Seq_Cons [match_sets]:
  "st' \<in> set (all_matches n (Seq (r # rs)) st) \<longleftrightarrow>
     (\<exists>st1. st1 \<in> set (all_matches n r st) \<and> st' \<in> set (all_matches n (Seq rs) st1))"
  by auto

lemma in_Alt [match_sets]:
  "st' \<in> set (all_matches n (Alt r1 r2) st) \<longleftrightarrow>
     st' \<in> set (all_matches n r1 st) \<or> st' \<in> set (all_matches n r2 st)"
  by simp

lemma in_Opt [match_sets]:
  "st' \<in> set (all_matches n (Opt r) st) \<longleftrightarrow> st' \<in> set (all_matches n r st) \<or> st' = st"
  by (auto simp: Opt_def)

lemma in_EndText [match_sets]:
  "st' \<in> set (all_matches n EndText (g, s)) \<longleftrightarrow> st' = (g, []) \<and> s = []"
  by auto

lemma in_Group:
  "st' \<in> set (all_matches n (Group i r) (g, s)) \<longleftrightarrow>
     (\<exists>g1 t. (g1, t) \<in> set (all_matches n r (g, s)) \<and> st' = ((i, take (length s - length t) s) # g1, t))"
  by (force simp: image_iff)

text \<open>
  A pattern without groups, described by a set of words: it leaves the groups alone and consumes
  exactly a word of the set.
\<close>

definition consumes :: "regex \<Rightarrow> (bytes \<Rightarrow> bool) \<Rightarrow> bool" where
  "consumes r W =
     (\<forall>n g s g' t. (g', t) \<in> set (all_matches n r (g, s)) \<longleftrightarrow> g' = g \<and> (\<exists>w. s = w @ t \<and> W w))"

lemma consumesI:
  "(\<And>n g s g' t. (g', t) \<in> set (all_matches n r (g, s)) \<longleftrightarrow> g' = g \<and> (\<exists>w. s = w @ t \<and> W w)) \<Longrightarrow>
   consumes r W"
  unfolding consumes_def by (intro allI)

lemma consumesD:
  "consumes r W \<Longrightarrow> (g', t) \<in> set (all_matches n r (g, s)) \<longleftrightarrow> g' = g \<and> (\<exists>w. s = w @ t \<and> W w)"
  unfolding consumes_def by (elim allE)

lemma consumes_state:
  "consumes r W \<Longrightarrow>
   st' \<in> set (all_matches n r (g, s)) \<longleftrightarrow> (\<exists>w t. st' = (g, t) \<and> s = w @ t \<and> W w)"
  by (cases st') (auto simp: consumesD)

lemma in_Group_consumes:
  assumes "consumes r W"
  shows "st' \<in> set (all_matches n (Group i r) (g, s)) \<longleftrightarrow>
           (\<exists>w t. st' = ((i, w) # g, t) \<and> s = w @ t \<and> W w)"
  unfolding in_Group consumesD [OF assms] by auto

text \<open>Words of a repetition: concatenations of non-empty words of the body.\<close>

inductive repeats :: "(bytes \<Rightarrow> bool) \<Rightarrow> bytes \<Rightarrow> bool" for W where
  repeats_Nil: "repeats W []"
| repeats_append: "W u \<Longrightarrow> u \<noteq> [] \<Longrightarrow> repeats W v \<Longrightarrow> repeats W (u @ v)"

lemma star_iter_sound:
  assumes "consumes r W"
  shows "st' \<in> set (star_iter (all_matches n r) st) \<Longrightarrow>
           \<exists>w. fst st' = fst st \<and> snd st = w @ snd st' \<and> repeats W w"
proof (induction "all_matches n r" st rule: star_iter.induct)
  case (1 st)
  from "1.prems" consider "st' = st" |
    st1 where "st1 \<in> set (all_matches n r st)" "length (snd st1) < length (snd st)"
      "st' \<in> set (star_iter (all_matches n r) st1)"
    by (subst (asm) star_iter.simps) auto
  then show ?case
  proof cases
    case 1
    then show ?thesis by (auto intro: repeats_Nil)
  next
    case 2
    obtain g s where st: "st = (g, s)" by fastforce
    from 2(1) obtain u where u: "fst st1 = g" "s = u @ snd st1" "W u"
      unfolding st consumes_state [OF assms] by auto
    obtain v where v: "fst st' = fst st1" "snd st1 = v @ snd st'" "repeats W v"
      using "1.hyps" [of st1] 2 by auto
    from 2(2) u st have "u \<noteq> []" by auto
    with u v st show ?thesis by (intro exI [of _ "u @ v"]) (auto intro: repeats_append)
  qed
qed

lemma star_iter_complete:
  assumes "consumes r W"
  shows "repeats W w \<Longrightarrow> (g, t) \<in> set (star_iter (all_matches n r) (g, w @ t))"
proof (induction rule: repeats.induct)
  case repeats_Nil
  then show ?case by (subst star_iter.simps) simp
next
  case (repeats_append u v)
  have "(g, v @ t) \<in> set (all_matches n r (g, (u @ v) @ t))"
    using repeats_append(1) by (auto simp: consumesD [OF assms])
  with repeats_append show ?case
    by (subst star_iter.simps) (auto intro!: exI [of _ g] exI [of _ "v @ t"])
qed

lemma consumes_Star: "consumes r W \<Longrightarrow> consumes (Star r) (repeats W)"
  by (rule consumesI) (auto dest: star_iter_sound intro: star_iter_complete)

lemma consumes_NoneOf: "consumes (NoneOf cs) (\<lambda>w. \<exists>c. w = [c] \<and> c \<notin> set cs)"
  by (rule consumesI) (auto simp: in_NoneOf simp del: all_matches.simps)

lemma consumes_OneOf: "consumes (OneOf cs) (\<lambda>w. \<exists>c. w = [c] \<and> c \<in> set cs)"
  by (rule consumesI) (auto simp: in_OneOf simp del: all_matches.simps)

lemma consumes_Lit: "consumes (Lit l) (\<lambda>w. w = l)"
  by (rule consumesI) (auto simp: in_Lit)

lemma consumes_Alt:
  "consumes r1 W1 \<Longrightarrow> consumes r2 W2 \<Longrightarrow> consumes (Alt r1 r2) (\<lambda>w. W1 w \<or> W2 w)"
  by (rule consumesI) (auto simp: consumesD)

lemma consumes_Cat:
  assumes "consumes r1 W1" "consumes r2 W2"
  shows "consumes (Cat r1 r2) (\<lambda>w. \<exists>u v. w = u @ v \<and> W1 u \<and> W2 v)"
proof (rule consumesI)
  fix n g s g' t
  have "(g', t) \<in> set (all_matches n (Cat r1 r2) (g, s)) \<longleftrightarrow>
          g' = g \<and> (\<exists>u v. s = u @ v @ t \<and> W1 u \<and> W2 v)"
    unfolding in_Cat consumes_state [OF assms(1)]
    by (auto simp: consumesD [OF assms(2)])
  then show "(g', t) \<in> set (all_matches n (Cat r1 r2) (g, s)) \<longleftrightarrow>
          g' = g \<and> (\<exists>w. s = w @ t \<and> (\<exists>u v. w = u @ v \<and> W1 u \<and> W2 v))"
    by (metis append_assoc)
qed

lemma consumes_cong: "consumes r W \<Longrightarrow> (\<And>w. W w \<longleftrightarrow> W' w) \<Longrightarrow> consumes r W'"
  by (rule consumesI) (simp add: consumesD)

lemma repeats_single: "repeats (\<lambda>w. \<exists>c. w = [c] \<and> P c) w \<longleftrightarrow> list_all P w"
proof
  show "list_all P w" if "repeats (\<lambda>w. \<exists>c. w = [c] \<and> P c) w"
    using that by induction auto
next
  assume "list_all P w"
  then show "repeats (\<lambda>w. \<exists>c. w = [c] \<and> P c) w"
  proof (induction w)
    case (Cons c w)
    then have "repeats (\<lambda>w. \<exists>c. w = [c] \<and> P c) ([c] @ w)"
      by (intro repeats_append) auto
    then show ?case by simp
  qed (simp add: repeats_Nil)
qed

text \<open>The search returns one of the matches from the leftmost position that has any.\<close>

lemma FindStringSubmatch_anchored:
  "FindStringSubmatch (Cat BeginText r) s =
     (case all_matches (length s) r ([], s) of (g, t) # _ \<Rightarrow> Some g | [] \<Rightarrow> None)"
  by (auto simp: FindStringSubmatch_def find_from_BeginText split: list.splits)

lemma FindStringSubmatch_anchored_None:
  "FindStringSubmatch (Cat BeginText r) s = None \<longleftrightarrow> set (all_matches (length s) r ([], s)) = {}"
  by (auto simp: FindStringSubmatch_anchored split: list.splits)

lemma FindStringSubmatch_anchored_Some:
  "FindStringSubmatch (Cat BeginText r) s = Some g \<Longrightarrow> \<exists>t. (g, t) \<in> set (all_matches (length s) r ([], s))"
  by (auto simp: FindStringSubmatch_anchored split: list.splits)

lemma FindStringSubmatch_anchored_unique:
  assumes "(g, t) \<in> set (all_matches (length s) r ([], s))"
    and "\<And>g' t'. (g', t') \<in> set (all_matches (length s) r ([], s)) \<Longrightarrow> g' = g"
  shows "FindStringSubmatch (Cat BeginText r) s = Some g"
  using assms by (fastforce simp: FindStringSubmatch_anchored split: list.splits)

end
