(* ===== verification/Import_Parse.thy ===== *)
theory Import_Parse
  imports Go_Regex Apperror "HOL-Library.Multiset"
begin

text \<open>
  The source side of the import job, \<^verbatim>\<open>src/internal/importjob/infrastructure/postgres/import.go\<close>:
  the six snapshots, \<^verbatim>\<open>parseLine\<close> with its regular expression, \<^verbatim>\<open>unitType\<close>, \<^verbatim>\<open>readInput\<close> with
  the line scanner, and \<^verbatim>\<open>validate\<close>. The lemmas characterise exactly which lines are accepted and
  which sets of inputs pass validation.
\<close>

section \<open>Data\<close>

record snapshot =
  s_code :: string
  s_file :: bytes
  s_count :: nat

text \<open>The six file names share their form: level count, then level.\<close>

definition supership_file :: "string \<Rightarrow> string \<Rightarrow> bytes" where
  "supership_file tiers lvl =
     ''SuperShip - D'' @ [CHR 0xE1, CHR 0xBB, CHR 0xAE] @ '' LI'' @ [CHR 0xE1, CHR 0xBB, CHR 0x86] @ ''U '' @ tiers @ '' C'' @ [CHR 0xE1, CHR 0xBA, CHR 0xA4] @ ''P - LEVEL_'' @ lvl @ ''.sql''"

definition snapshots :: "snapshot list" where
  "snapshots =
    [\<lparr>s_code = ''SUPERSHIP_2_L1'', s_file = supership_file ''2'' ''1'', s_count = 34\<rparr>,
     \<lparr>s_code = ''SUPERSHIP_2_L3'', s_file = supership_file ''2'' ''3'', s_count = 3321\<rparr>,
     \<lparr>s_code = ''SUPERSHIP_2_L4'', s_file = supership_file ''2'' ''4'', s_count = 171291\<rparr>,
     \<lparr>s_code = ''SUPERSHIP_3_L1'', s_file = supership_file ''3'' ''1'', s_count = 63\<rparr>,
     \<lparr>s_code = ''SUPERSHIP_3_L2'', s_file = supership_file ''3'' ''2'', s_count = 709\<rparr>,
     \<lparr>s_code = ''SUPERSHIP_3_L3'', s_file = supership_file ''3'' ''3'', s_count = 11163\<rparr>]"

record source_row =
  r_line :: int
  r_level :: int
  r_area :: int
  r_code :: bytes
  r_name :: bytes
  r_parent :: bytes
  r_kind :: string
  r_status :: string

record input =
  i_snapshot :: snapshot
  i_hash :: string
  i_rows :: "source_row list"

section \<open>parseLine\<close>

abbreviation quote :: char where "quote \<equiv> CHR 0x27"

text \<open>
  The body of a quoted SQL string, \<^verbatim>\<open>(?:''|[^'])*\<close>, and the whole pattern \<open>insert\<close>.
\<close>

definition quoted_body :: regex where
  "quoted_body = Star (Alt (Lit [quote, quote]) (NoneOf [quote]))"

abbreviation parent_value :: regex where
  "parent_value \<equiv> Seq [Lit ('', '' @ [quote]), Group 4 quoted_body, Lit [quote]]"

abbreviation on_conflict :: regex where
  "on_conflict \<equiv> Alt (Lit ''NOTHING'') (Seq [Lit ''UPDATE SET '', Plus (NoneOf [CHR 0x0A])])"

definition insert_body :: regex where
  "insert_body = Seq
     [Lit ''INSERT INTO admin_units (unit_code, unit_name, unit_level'',
      Opt (Lit '', parent_id''),
      Lit ('', area_type) VALUES ('' @ [quote]),
      Group 1 quoted_body,
      Lit ([quote] @ '', '' @ [quote]),
      Group 2 quoted_body,
      Lit ([quote] @ '', ''),
      Group 3 (OneOf ''1234''),
      Opt parent_value,
      Lit '', '',
      Group 5 (OneOf ''12''),
      Lit '') ON CONFLICT (unit_code) DO '',
      on_conflict,
      Lit '';'',
      EndText]"

definition insert_re :: regex where
  "insert_re = Cat BeginText insert_body"

definition unescape :: "bytes \<Rightarrow> bytes" where
  "unescape s = ReplaceAll s [quote, quote] [quote]"

text \<open>
  \<^verbatim>\<open>unitType\<close>: the kind of the first prefix that the trimmed name has, ignoring case. The
  literals are the UTF-8 bytes of the Vietnamese words of the source.
\<close>

definition unit_prefixes :: "(bytes \<times> string) list" where
  "unit_prefixes =
     [([CHR 0x54, CHR 0x68, CHR 0xC3, CHR 0xA0, CHR 0x6E, CHR 0x68, CHR 0x20, CHR 0x70, CHR 0x68, CHR 0xE1, CHR 0xBB, CHR 0x91, CHR 0x20], ''CITY''),
      ([CHR 0x54, CHR 0xE1, CHR 0xBB, CHR 0x89, CHR 0x6E, CHR 0x68, CHR 0x20], ''PROVINCE''),
      ([CHR 0x51, CHR 0x75, CHR 0xE1, CHR 0xBA, CHR 0xAD, CHR 0x6E, CHR 0x20], ''DISTRICT''),
      ([CHR 0x48, CHR 0x75, CHR 0x79, CHR 0xE1, CHR 0xBB, CHR 0x87, CHR 0x6E, CHR 0x20], ''DISTRICT''),
      ([CHR 0x54, CHR 0x68, CHR 0xE1, CHR 0xBB, CHR 0x8B, CHR 0x20, CHR 0x78, CHR 0xC3, CHR 0xA3, CHR 0x20], ''TOWN''),
      ([CHR 0x54, CHR 0x68, CHR 0xE1, CHR 0xBB, CHR 0x8B, CHR 0x20, CHR 0x74, CHR 0x72, CHR 0xE1, CHR 0xBA, CHR 0xA5, CHR 0x6E, CHR 0x20], ''TOWNSHIP''),
      ([CHR 0x50, CHR 0x68, CHR 0xC6, CHR 0xB0, CHR 0xE1, CHR 0xBB, CHR 0x9D, CHR 0x6E, CHR 0x67, CHR 0x20], ''WARD''),
      ([CHR 0x58, CHR 0xC3, CHR 0xA3, CHR 0x20], ''COMMUNE''),
      ([CHR 0xC4, CHR 0x90, CHR 0xE1, CHR 0xBA, CHR 0xB7, CHR 0x63, CHR 0x20, CHR 0x6B, CHR 0x68, CHR 0x75, CHR 0x20], ''SPECIAL_ZONE'')]"

definition unitType :: "(bytes \<Rightarrow> bytes) \<Rightarrow> bytes \<Rightarrow> string option" where
  "unitType uni nm =
     map_option snd
       (find (\<lambda>(pre, kind). HasPrefix (ToLower uni (TrimSpace nm)) (ToLower uni pre)) unit_prefixes)"

text \<open>The errors of the import job, with the data their texts carry.\<close>

datatype import_error =
    UnsupportedSQL int
  | InvalidHierarchy int
  | InvalidUnit int
  | UnknownUnitType int
  | WrongLevelOrArea bytes int
  | InFile bytes import_error
  | RowCount bytes nat nat
  | ScanError gerror
  | OpenError gerror
  | DuplicateCode bytes
  | BadParent bytes
  | BadConnectionConfig
  | ConnectionFailed
  | SchemaVersionRequired
  | SourceDiffers string
  | PartialImport
  | CodesOverlap nat
  | NoUnitsAtLevel int
  | StageError string gerror
  | PromoteError int gerror
  | DatabaseError gerror

definition parseLine :: "(bytes \<Rightarrow> bytes) \<Rightarrow> bytes \<Rightarrow> int \<Rightarrow> import_error + source_row" where
  "parseLine uni line number =
     (case FindStringSubmatch insert_re line of
        None \<Rightarrow> Inl (UnsupportedSQL number)
      | Some m \<Rightarrow>
          let r = \<lparr>r_line = number,
                   r_level = digit_val (hd (submatch m 3)),
                   r_area = digit_val (hd (submatch m 5)),
                   r_code = unescape (submatch m 1),
                   r_name = unescape (submatch m 2),
                   r_parent = unescape (submatch m 4),
                   r_kind = [], r_status = []\<rparr>
          in if (r_level r = 1) \<noteq> (r_parent r = []) then Inl (InvalidHierarchy number)
             else
               let blank = (r_code r = [] \<or> TrimSpace (r_name r) = [])
               in if blank \<and> r_level r < 4 then Inl (InvalidUnit number)
                  else
                    let r = r\<lparr>r_status := (if blank then ''INVALID'' else ''STAGED'')\<rparr>
                    in if r_level r < 4
                       then (case unitType uni (r_name r) of
                               None \<Rightarrow> Inl (UnknownUnitType number)
                             | Some kind \<Rightarrow> Inr (r\<lparr>r_kind := kind\<rparr>))
                       else Inr r)"

section \<open>Which lines are accepted\<close>

text \<open>Escaping doubles every quote; a body is well quoted when its quotes come in pairs.\<close>

fun escape :: "bytes \<Rightarrow> bytes" where
  "escape [] = []"
| "escape (c # s) = (if c = quote then [quote, quote] else [c]) @ escape s"

lemma unescape_escape [simp]: "unescape (escape s) = s"
  unfolding unescape_def by (induction s) auto

fun is_quoted :: "bytes \<Rightarrow> bool" where
  "is_quoted [] = True"
| "is_quoted [c] = (c \<noteq> quote)"
| "is_quoted (c # d # s) = (if c = quote then d = quote \<and> is_quoted s else is_quoted (d # s))"

lemma is_quoted_Cons: "c \<noteq> quote \<Longrightarrow> is_quoted (c # s) = is_quoted s"
  by (cases s) auto

lemma is_quoted_iff_escape: "is_quoted w \<longleftrightarrow> (\<exists>s. w = escape s)"
proof
  show "is_quoted w \<Longrightarrow> \<exists>s. w = escape s"
  proof (induction w rule: is_quoted.induct)
    case 1
    then show ?case by (intro exI [of _ "[]"]) simp
  next
    case (2 c)
    then show ?case by (intro exI [of _ "[c]"]) simp
  next
    case (3 c d s)
    show ?case
    proof (cases "c = quote")
      case True
      with 3 obtain s' where "d = quote" "s = escape s'" by auto
      with True show ?thesis by (intro exI [of _ "quote # s'"]) simp
    next
      case False
      with 3 obtain s' where "d # s = escape s'" by auto
      with False show ?thesis by (intro exI [of _ "c # s'"]) simp
    qed
  qed
next
  have "is_quoted (escape s)" for s
    by (induction s) (auto simp: is_quoted_Cons)
  then show "\<exists>s. w = escape s \<Longrightarrow> is_quoted w" by blast
qed

lemma escape_unescape: "is_quoted w \<Longrightarrow> escape (unescape w) = w"
  by (auto simp: is_quoted_iff_escape)

lemma escape_eq_Nil [simp]: "escape s = [] \<longleftrightarrow> s = []"
  by (cases s) auto

lemma unescape_eq_Nil: "is_quoted w \<Longrightarrow> unescape w = [] \<longleftrightarrow> w = []"
  by (metis escape.simps(1) escape_unescape unescape_escape)

lemma repeats_quoted:
  "repeats (\<lambda>w. w = [quote, quote] \<or> (\<exists>c. w = [c] \<and> c \<notin> set [quote])) w \<longleftrightarrow> is_quoted w"
  (is "repeats ?W w \<longleftrightarrow> _")
proof
  show "is_quoted w" if "repeats ?W w"
    using that by induction (auto simp: is_quoted_Cons)
next
  show "repeats ?W w" if "is_quoted w"
    using that
  proof (induction w rule: is_quoted.induct)
    case 1
    show ?case by (rule repeats_Nil)
  next
    case (2 c)
    then have "repeats ?W ([c] @ [])" by (intro repeats_append repeats_Nil) auto
    then show ?case by simp
  next
    case (3 c d s)
    show ?case
    proof (cases "c = quote")
      case True
      with 3 have "repeats ?W ([quote, quote] @ s)" by (intro repeats_append) auto
      with True 3 show ?thesis by simp
    next
      case False
      with 3 have "repeats ?W ([c] @ (d # s))" by (intro repeats_append) auto
      then show ?thesis by simp
    qed
  qed
qed

lemma consumes_quoted_body: "consumes quoted_body is_quoted"
  unfolding quoted_body_def
  by (rule consumes_cong [OF consumes_Star [OF consumes_Alt [OF consumes_Lit consumes_NoneOf]]])
    (rule repeats_quoted)

text \<open>A quoted body ends at the first quote that is not doubled.\<close>

lemma escape_unique:
  assumes "escape s1 @ quote # t1 = escape s2 @ quote # t2"
    and "\<not> HasPrefix t1 [quote]" "\<not> HasPrefix t2 [quote]"
  shows "s1 = s2 \<and> t1 = t2"
  using assms
proof (induction s1 arbitrary: s2)
  case Nil
  then show ?case by (cases s2) (auto split: if_splits)
next
  case (Cons c s1)
  then show ?case by (cases s2) (auto split: if_splits)
qed

lemma is_quoted_unique:
  assumes "w1 @ quote # t1 = w2 @ quote # t2" "is_quoted w1" "is_quoted w2"
    and "\<not> HasPrefix t1 [quote]" "\<not> HasPrefix t2 [quote]"
  shows "w1 = w2 \<and> t1 = t2"
proof -
  from assms(2,3) obtain s1 s2 where "w1 = escape s1" "w2 = escape s2"
    unfolding is_quoted_iff_escape by blast
  with escape_unique [of s1 t1 s2 t2] assms show ?thesis by simp
qed

text \<open>
  The grammar of an accepted line, from the raw bodies of its strings. \<open>cols\<close> says whether the
  column list names \<^verbatim>\<open>parent_id\<close>, \<open>par\<close> is the parent value if the line has one.
\<close>

definition insert_line :: "bool \<Rightarrow> bytes \<Rightarrow> bytes \<Rightarrow> char \<Rightarrow> bytes option \<Rightarrow> char \<Rightarrow> bytes \<Rightarrow> bytes" where
  "insert_line cols c nm lv par ar act =
     ''INSERT INTO admin_units (unit_code, unit_name, unit_level'' @
     (if cols then '', parent_id'' else []) @ ('', area_type) VALUES ('' @ [quote]) @ c @
     ([quote] @ '', '' @ [quote]) @ nm @ ([quote] @ '', '') @ [lv] @
     (case par of None \<Rightarrow> [] | Some p \<Rightarrow> '', '' @ [quote] @ p @ [quote]) @ '', '' @ [ar] @
     '') ON CONFLICT (unit_code) DO '' @ act @ '';''"

definition conflict_action :: "bytes \<Rightarrow> bool" where
  "conflict_action act \<longleftrightarrow>
     act = ''NOTHING'' \<or> (\<exists>u. act = ''UPDATE SET '' @ u \<and> u \<noteq> [] \<and> CHR 0x0A \<notin> set u)"

lemma consumes_dots: "consumes (Plus (NoneOf [CHR 0x0A])) (\<lambda>u. u \<noteq> [] \<and> CHR 0x0A \<notin> set u)"
  unfolding Plus_def
proof (rule consumes_cong [OF consumes_Cat [OF consumes_NoneOf consumes_Star [OF consumes_NoneOf]]])
  have word: "(\<exists>u v. w = u @ v \<and> (\<exists>c. u = [c] \<and> P c) \<and> list_all P v) \<longleftrightarrow> w \<noteq> [] \<and> list_all P w"
    for w :: bytes and P
  proof
    assume "w \<noteq> [] \<and> list_all P w"
    then obtain c v where "w = [c] @ v" "P c" "list_all P v" by (cases w) auto
    then show "\<exists>u v. w = u @ v \<and> (\<exists>c. u = [c] \<and> P c) \<and> list_all P v" by blast
  qed auto
  have "list_all (\<lambda>c. c \<notin> set [d]) w \<longleftrightarrow> d \<notin> set w" for w :: bytes and d
    by (induction w) auto
  then show "(\<exists>u v. w = u @ v \<and> (\<exists>c. u = [c] \<and> c \<notin> set [CHR 0x0A]) \<and>
              repeats (\<lambda>w. \<exists>c. w = [c] \<and> c \<notin> set [CHR 0x0A]) v) \<longleftrightarrow> w \<noteq> [] \<and> CHR 0x0A \<notin> set w"
    for w :: bytes
    unfolding repeats_single word by (simp only:)
qed

lemma consumes_on_conflict: "consumes on_conflict conflict_action"
proof -
  have "consumes (Cat (Plus (NoneOf [CHR 0x0A])) Eps) (\<lambda>u. u \<noteq> [] \<and> CHR 0x0A \<notin> set u)"
    using consumes_dots unfolding consumes_def by simp
  then have "consumes (Seq [Plus (NoneOf [CHR 0x0A])]) (\<lambda>u. u \<noteq> [] \<and> CHR 0x0A \<notin> set u)"
    by (simp only: Seq.simps)
  from consumes_Alt [OF consumes_Lit consumes_Cat [OF consumes_Lit this]]
  have "consumes (Alt (Lit ''NOTHING'') (Cat (Lit ''UPDATE SET '') (Seq [Plus (NoneOf [CHR 0x0A])])))
          conflict_action"
    by (rule consumes_cong) (auto simp: conflict_action_def)
  then show ?thesis by (simp only: Seq.simps)
qed

text \<open>The groups an accepted line captures, latest first.\<close>

definition line_groups :: "bytes \<Rightarrow> bytes \<Rightarrow> char \<Rightarrow> bytes option \<Rightarrow> char \<Rightarrow> groups" where
  "line_groups c nm lv par ar =
     (5, [ar]) # (case par of None \<Rightarrow> [] | Some p \<Rightarrow> [(4, p)]) @ [(3, [lv]), (2, nm), (1, c)]"

definition well_quoted :: "bytes \<Rightarrow> bytes \<Rightarrow> char \<Rightarrow> bytes option \<Rightarrow> char \<Rightarrow> bytes \<Rightarrow> bool" where
  "well_quoted c nm lv par ar act \<longleftrightarrow>
     is_quoted c \<and> is_quoted nm \<and> lv \<in> set ''1234'' \<and> (case par of None \<Rightarrow> True | Some p \<Rightarrow> is_quoted p) \<and>
     ar \<in> set ''12'' \<and> conflict_action act"

text \<open>One equation per kind of element of the pattern.\<close>

lemma ex_option_or: "(\<exists>x. P x) \<longleftrightarrow> P None \<or> (\<exists>y. P (Some y))"
  by (metis option.exhaust)

lemma Seq_Lit:
  "st \<in> set (all_matches n (Seq (Lit l # rs)) (g, s)) \<longleftrightarrow>
     (\<exists>t. s = l @ t \<and> st \<in> set (all_matches n (Seq rs) (g, t)))"
  unfolding in_Seq_Cons in_Lit by blast

lemma Seq_Opt_Lit:
  "st \<in> set (all_matches n (Seq (Opt (Lit l) # rs)) (g, s)) \<longleftrightarrow>
     (\<exists>b t. s = (if b then l else []) @ t \<and> st \<in> set (all_matches n (Seq rs) (g, t)))"
  (is "?L \<longleftrightarrow> ?R")
proof -
  have "?L \<longleftrightarrow> (\<exists>t. s = l @ t \<and> st \<in> set (all_matches n (Seq rs) (g, t))) \<or>
               st \<in> set (all_matches n (Seq rs) (g, s))"
    unfolding in_Seq_Cons in_Opt in_Lit by blast
  also have "\<dots> \<longleftrightarrow> ?R" by (auto split: if_splits)
  finally show ?thesis .
qed

lemma Seq_Group:
  assumes "consumes r W"
  shows "st \<in> set (all_matches n (Seq (Group i r # rs)) (g, s)) \<longleftrightarrow>
     (\<exists>w t. s = w @ t \<and> W w \<and> st \<in> set (all_matches n (Seq rs) ((i, w) # g, t)))"
  unfolding in_Seq_Cons in_Group_consumes [OF assms] by blast

lemma Seq_consumes:
  assumes "consumes r W"
  shows "st \<in> set (all_matches n (Seq (r # rs)) (g, s)) \<longleftrightarrow>
     (\<exists>w t. s = w @ t \<and> W w \<and> st \<in> set (all_matches n (Seq rs) (g, t)))"
  unfolding in_Seq_Cons consumes_state [OF assms] by blast

lemma Seq_EndText:
  "st \<in> set (all_matches n (Seq [EndText]) (g, s)) \<longleftrightarrow> st = (g, []) \<and> s = []"
  unfolding in_Seq_Cons in_Seq_Nil in_EndText by blast

lemma in_parent_value:
  "st \<in> set (all_matches n parent_value (g, s)) \<longleftrightarrow>
     (\<exists>p t. st = ((4, p) # g, t) \<and> s = '', '' @ [quote] @ p @ [quote] @ t \<and> is_quoted p)"
  unfolding Seq_Lit Seq_Group [OF consumes_quoted_body] in_Seq_Nil by auto

lemma Seq_parent_value:
  "st \<in> set (all_matches n (Seq (Opt parent_value # rs)) (g, s)) \<longleftrightarrow>
     (\<exists>par t. s = (case par of None \<Rightarrow> [] | Some p \<Rightarrow> '', '' @ [quote] @ p @ [quote]) @ t \<and>
        (case par of None \<Rightarrow> True | Some p \<Rightarrow> is_quoted p) \<and>
        st \<in> set (all_matches n (Seq rs) ((case par of None \<Rightarrow> [] | Some p \<Rightarrow> [(4, p)]) @ g, t)))"
  (is "?L \<longleftrightarrow> ?R")
proof -
  have "?L \<longleftrightarrow> (\<exists>p t. s = '', '' @ [quote] @ p @ [quote] @ t \<and> is_quoted p \<and>
                     st \<in> set (all_matches n (Seq rs) ((4, p) # g, t))) \<or>
               st \<in> set (all_matches n (Seq rs) (g, s))"
    unfolding in_Seq_Cons [of st n "Opt parent_value" rs] in_Opt in_parent_value by blast
  also have "\<dots> \<longleftrightarrow> ?R" by (subst ex_option_or) (simp add: disj_commute)
  finally show ?thesis .
qed

lemmas line_equations =
  Seq_Lit Seq_Opt_Lit Seq_Group [OF consumes_quoted_body] Seq_Group [OF consumes_OneOf]
  Seq_consumes [OF consumes_on_conflict] Seq_EndText Seq_parent_value

lemma line_end: "(g, []) \<in> set (all_matches n (Seq [Lit l, EndText]) (g, l))"
  unfolding Seq_Lit Seq_EndText by simp

lemma line_intros:
  "st \<in> set (all_matches n (Seq rs) (g, t)) \<Longrightarrow> st \<in> set (all_matches n (Seq (Lit l # rs)) (g, l @ t))"
  "st \<in> set (all_matches n (Seq rs) (g, t)) \<Longrightarrow>
     st \<in> set (all_matches n (Seq (Opt (Lit l) # rs)) (g, (if b then l else []) @ t))"
  "is_quoted w \<Longrightarrow> st \<in> set (all_matches n (Seq rs) ((i, w) # g, t)) \<Longrightarrow>
     st \<in> set (all_matches n (Seq (Group i quoted_body # rs)) (g, w @ t))"
  "x \<in> set cs \<Longrightarrow> st \<in> set (all_matches n (Seq rs) ((i, [x]) # g, t)) \<Longrightarrow>
     st \<in> set (all_matches n (Seq (Group i (OneOf cs) # rs)) (g, [x] @ t))"
  "conflict_action w \<Longrightarrow> st \<in> set (all_matches n (Seq rs) (g, t)) \<Longrightarrow>
     st \<in> set (all_matches n (Seq (on_conflict # rs)) (g, w @ t))"
  "(case par of None \<Rightarrow> True | Some p \<Rightarrow> is_quoted p) \<Longrightarrow>
     st \<in> set (all_matches n (Seq rs) ((case par of None \<Rightarrow> [] | Some p \<Rightarrow> [(4, p)]) @ g, t)) \<Longrightarrow>
     st \<in> set (all_matches n (Seq (Opt parent_value # rs))
       (g, (case par of None \<Rightarrow> [] | Some p \<Rightarrow> '', '' @ [quote] @ p @ [quote]) @ t))"
  unfolding line_equations by blast+

lemma line_shape:
  assumes "(g, t) \<in> set (all_matches n
     (Seq [Lit l1, Opt (Lit l2), Lit l3, Group 1 quoted_body, Lit l4, Group 2 quoted_body, Lit l5,
           Group 3 (OneOf ds), Opt parent_value, Lit l6, Group 5 (OneOf es), Lit l7, on_conflict,
           Lit l8, EndText]) ([], s))"
  obtains b c nm lv par ar act where "t = []"
    "s = l1 @ (if b then l2 else []) @ l3 @ c @ l4 @ nm @ l5 @ [lv] @
         (case par of None \<Rightarrow> [] | Some p \<Rightarrow> '', '' @ [quote] @ p @ [quote]) @ l6 @ [ar] @ l7 @ act @ l8"
    "is_quoted c" "is_quoted nm" "lv \<in> set ds" "case par of None \<Rightarrow> True | Some p \<Rightarrow> is_quoted p"
    "ar \<in> set es" "conflict_action act" "g = line_groups c nm lv par ar"
  using assms unfolding line_equations line_groups_def
  by (elim exE conjE) simp

lemma insert_body_matches:
  "(g, t) \<in> set (all_matches n insert_body ([], s)) \<longleftrightarrow>
     t = [] \<and> (\<exists>cols c nm lv par ar act.
        s = insert_line cols c nm lv par ar act \<and> well_quoted c nm lv par ar act \<and>
        g = line_groups c nm lv par ar)"
  (is "?L \<longleftrightarrow> ?R")
proof
  assume ?L
  then show ?R
    unfolding insert_body_def by (rule line_shape) (unfold insert_line_def well_quoted_def, blast)
next
  assume ?R
  then obtain b c nm lv par ar act where
    "t = []" "s = insert_line b c nm lv par ar act" "well_quoted c nm lv par ar act"
    "g = line_groups c nm lv par ar"
    by blast
  then show ?L
    unfolding insert_body_def insert_line_def well_quoted_def line_groups_def
    by (simp only:) (intro line_end line_intros; simp)
qed

lemma no_quote_prefix [simp]: "\<not> HasPrefix ('', '' @ t) [quote]"
  by simp

lemma insert_line_inj:
  assumes eq: "insert_line cols c nm lv par ar act = insert_line cols' c' nm' lv' par' ar' act'"
    and q: "well_quoted c nm lv par ar act" and q': "well_quoted c' nm' lv' par' ar' act'"
  shows "c = c' \<and> nm = nm' \<and> lv = lv' \<and> par = par' \<and> ar = ar'"
proof -
  define after_par where
    "after_par ar act = '', '' @ [ar] @ '') ON CONFLICT (unit_code) DO '' @ act @ '';''" for ar act
  define after_lv where
    "after_lv par ar act =
       (case par of None \<Rightarrow> [] | Some p \<Rightarrow> '', '' @ [quote] @ p @ [quote]) @ after_par ar act" for par ar act
  define after_nm where "after_nm lv par ar act = '', '' @ [lv] @ after_lv par ar act" for lv par ar act
  define after_c where
    "after_c nm lv par ar act = '', '' @ [quote] @ nm @ [quote] @ after_nm lv par ar act" for nm lv par ar act
  note defs = after_c_def after_nm_def after_lv_def after_par_def
  have "c @ quote # after_c nm lv par ar act = c' @ quote # after_c nm' lv' par' ar' act'"
    using eq unfolding insert_line_def defs by (cases cols; cases cols') simp_all
  then have c: "c = c' \<and> after_c nm lv par ar act = after_c nm' lv' par' ar' act'"
    by (rule is_quoted_unique) (use q q' in \<open>simp_all add: well_quoted_def after_c_def\<close>)
  then have "nm @ quote # after_nm lv par ar act = nm' @ quote # after_nm lv' par' ar' act'"
    unfolding after_c_def by simp
  then have nm: "nm = nm' \<and> after_nm lv par ar act = after_nm lv' par' ar' act'"
    by (rule is_quoted_unique) (use q q' in \<open>simp_all add: well_quoted_def after_nm_def\<close>)
  then have lv: "lv = lv'" "after_lv par ar act = after_lv par' ar' act'"
    by (simp_all add: after_nm_def)
  have "par = par' \<and> after_par ar act = after_par ar' act'"
  proof (cases par)
    case None
    with lv(2) q show ?thesis
      by (cases par') (auto simp: well_quoted_def after_lv_def after_par_def)
  next
    case par: (Some p)
    show ?thesis
    proof (cases par')
      case None
      with par lv(2) q' show ?thesis by (auto simp: well_quoted_def after_lv_def after_par_def)
    next
      case (Some p')
      with par lv(2) have "p @ quote # after_par ar act = p' @ quote # after_par ar' act'"
        by (simp add: after_lv_def)
      then have "p = p' \<and> after_par ar act = after_par ar' act'"
        by (rule is_quoted_unique) (use q q' par Some in \<open>simp_all add: well_quoted_def after_par_def\<close>)
      with par Some show ?thesis by simp
    qed
  qed
  with c nm lv show ?thesis by (simp add: after_par_def)
qed

lemma FindStringSubmatch_insert:
  assumes "well_quoted c nm lv par ar act"
  shows "FindStringSubmatch insert_re (insert_line cols c nm lv par ar act) =
           Some (line_groups c nm lv par ar)"
  unfolding insert_re_def
proof (rule FindStringSubmatch_anchored_unique)
  let ?s = "insert_line cols c nm lv par ar act"
  show "(line_groups c nm lv par ar, []) \<in> set (all_matches (length ?s) insert_body ([], ?s))"
    unfolding insert_body_matches using assms by blast
  fix g' t'
  assume "(g', t') \<in> set (all_matches (length ?s) insert_body ([], ?s))"
  then obtain cols' c' nm' lv' par' ar' act' where
    "?s = insert_line cols' c' nm' lv' par' ar' act'" "well_quoted c' nm' lv' par' ar' act'"
    "g' = line_groups c' nm' lv' par' ar'"
    unfolding insert_body_matches by blast
  with insert_line_inj [OF _ assms] show "g' = line_groups c nm lv par ar" by blast
qed

lemma FindStringSubmatch_insert_Some:
  assumes "FindStringSubmatch insert_re line = Some g"
  obtains cols c nm lv par ar act where
    "line = insert_line cols c nm lv par ar act" "well_quoted c nm lv par ar act"
    "g = line_groups c nm lv par ar"
  using FindStringSubmatch_anchored_Some [OF assms [unfolded insert_re_def]]
  unfolding insert_body_matches by blast

lemma submatch_line_groups [simp]:
  "submatch (line_groups c nm lv par ar) 1 = c"
  "submatch (line_groups c nm lv par ar) (Suc 0) = c"
  "submatch (line_groups c nm lv par ar) 2 = nm"
  "submatch (line_groups c nm lv par ar) 3 = [lv]"
  "submatch (line_groups c nm lv par ar) 4 = (case par of None \<Rightarrow> [] | Some p \<Rightarrow> p)"
  "submatch (line_groups c nm lv par ar) 5 = [ar]"
  by (simp_all add: submatch_def line_groups_def split: option.splits)

section \<open>Well-formed rows\<close>

text \<open>
  The invariant of every row the parser hands on: level and area in range, a parent exactly
  below level 1, and at the administrative levels 1 to 3 a code, a non-blank name and a known
  unit type; a level-4 row carries no unit type and is INVALID exactly when code or name is blank.
\<close>

definition blank_row :: "source_row \<Rightarrow> bool" where
  "blank_row r \<longleftrightarrow> r_code r = [] \<or> TrimSpace (r_name r) = []"

definition row_ok :: "(bytes \<Rightarrow> bytes) \<Rightarrow> source_row \<Rightarrow> bool" where
  "row_ok uni r \<longleftrightarrow>
     r_level r \<in> {1, 2, 3, 4} \<and> r_area r \<in> {1, 2} \<and>
     (r_level r = 1 \<longleftrightarrow> r_parent r = []) \<and>
     r_status r = (if blank_row r then ''INVALID'' else ''STAGED'') \<and>
     (if r_level r = 4 then r_kind r = []
      else \<not> blank_row r \<and> unitType uni (r_name r) = Some (r_kind r))"

definition digit_char :: "int \<Rightarrow> char" where
  "digit_char i = char_of (nat (48 + i))"

lemma char_of_digits [simp]:
  "char_of (49 :: nat) = CHR ''1''" "char_of (50 :: nat) = CHR ''2''"
  "char_of (51 :: nat) = CHR ''3''" "char_of (52 :: nat) = CHR ''4''"
  by code_simp+

lemma digit_val_level:
  "lv \<in> set ''1234'' \<Longrightarrow> digit_val lv \<in> {1, 2, 3, 4} \<and> digit_char (digit_val lv) = lv"
  by (auto simp: digit_val_def digit_char_def)

lemma digit_char_level:
  "i \<in> {1, 2, 3, 4} \<Longrightarrow> digit_char i \<in> set ''1234'' \<and> digit_val (digit_char i) = i"
  by (auto simp: digit_val_def digit_char_def)

lemma digit_val_area:
  "ar \<in> set ''12'' \<Longrightarrow> digit_val ar \<in> {1, 2} \<and> digit_char (digit_val ar) = ar"
  by (auto simp: digit_val_def digit_char_def)

lemma digit_char_area:
  "i \<in> {1, 2} \<Longrightarrow> digit_char i \<in> set ''12'' \<and> digit_val (digit_char i) = i"
  by (auto simp: digit_val_def digit_char_def)

text \<open>What \<^verbatim>\<open>parseLine\<close> does with the groups of a matched line.\<close>

lemma parseLine_insert_line:
  assumes "well_quoted c nm lv par ar act"
  shows "parseLine uni (insert_line cols c nm lv par ar act) n = Inr r \<longleftrightarrow>
           row_ok uni r \<and> r_line r = n \<and> r_level r = digit_val lv \<and> r_area r = digit_val ar \<and>
           r_code r = unescape c \<and> r_name r = unescape nm \<and>
           r_parent r = (case par of None \<Rightarrow> [] | Some p \<Rightarrow> unescape p)"
proof -
  let ?par = "unescape (case par of None \<Rightarrow> [] | Some p \<Rightarrow> p)"
  have lv: "digit_val lv \<in> {1, 2, 3, 4}" and ar: "digit_val ar \<in> {1, 2}"
    using assms digit_val_level [of lv] digit_val_area [of ar] by (auto simp: well_quoted_def)
  have par: "?par = (case par of None \<Rightarrow> [] | Some p \<Rightarrow> unescape p)"
    by (simp add: unescape_def split: option.split)
  note eq = parseLine_def FindStringSubmatch_insert [OF assms] option.case Let_def submatch_line_groups
    source_row.simps list.sel
  consider "(digit_val lv = 1) \<noteq> (?par = [])"
    | "(digit_val lv = 1) = (?par = [])" "unescape c = [] \<or> TrimSpace (unescape nm) = []" "digit_val lv < 4"
    | "(digit_val lv = 1) = (?par = [])" "\<not> (unescape c = [] \<or> TrimSpace (unescape nm) = [])" "digit_val lv < 4"
    | "(digit_val lv = 1) = (?par = [])" "digit_val lv = 4"
    using lv by fastforce
  then show ?thesis
  proof cases
    case 1
    then show ?thesis unfolding eq par [symmetric] by (auto simp: row_ok_def)
  next
    case 2
    then show ?thesis unfolding eq par [symmetric] by (auto simp: row_ok_def blank_row_def)
  next
    case 3
    then have "digit_val lv \<noteq> 4" by simp
    with 3 show ?thesis unfolding eq par [symmetric] using lv ar
      by (cases r; cases "unitType uni (unescape nm)")
        (auto simp: row_ok_def blank_row_def simp del: insert_iff)
  next
    case 4
    then show ?thesis unfolding eq par [symmetric] using lv ar
      by (cases r) (auto simp: row_ok_def blank_row_def simp del: insert_iff)
  qed
qed

lemma well_quoted_escape:
  "well_quoted (escape c) (escape nm) lv (map_option escape par) ar act \<longleftrightarrow>
     lv \<in> set ''1234'' \<and> ar \<in> set ''12'' \<and> conflict_action act"
  by (cases par) (auto simp: well_quoted_def is_quoted_iff_escape)

lemma well_quoted_cases:
  assumes "well_quoted c nm lv par ar act"
  obtains c' nm' par' where "c = escape c'" "nm = escape nm'" "par = map_option escape par'"
proof -
  from assms obtain c' nm' where "c = escape c'" "nm = escape nm'"
    by (auto simp: well_quoted_def is_quoted_iff_escape)
  moreover obtain par' where "par = map_option escape par'"
  proof (cases par)
    case None
    then show ?thesis using that [of None] by simp
  next
    case (Some p)
    with assms obtain p' where "p = escape p'" by (auto simp: well_quoted_def is_quoted_iff_escape)
    with Some show ?thesis using that [of "Some p'"] by simp
  qed
  ultimately show thesis by (rule that)
qed

text \<open>The value of the optional parent, empty when the line has none.\<close>

definition parent_or_empty :: "bytes option \<Rightarrow> bytes" where
  "parent_or_empty par = (case par of None \<Rightarrow> [] | Some p \<Rightarrow> p)"

lemma parseLine_InrD:
  assumes "parseLine uni line n = Inr r"
  obtains cols c nm lv par ar act where
    "line = insert_line cols c nm lv par ar act" "well_quoted c nm lv par ar act"
proof -
  from assms obtain m where "FindStringSubmatch insert_re line = Some m"
    by (auto simp: parseLine_def split: option.splits)
  then show thesis by (rule FindStringSubmatch_insert_Some) (rule that)
qed

lemma parseLine_iff:
  "parseLine uni line n = Inr r \<longleftrightarrow>
     row_ok uni r \<and> r_line r = n \<and>
     (\<exists>cols par act.
        line = insert_line cols (escape (r_code r)) (escape (r_name r)) (digit_char (r_level r))
                 (map_option escape par) (digit_char (r_area r)) act \<and>
        conflict_action act \<and> r_parent r = parent_or_empty par)"
  (is "?L \<longleftrightarrow> ?R")
proof
  assume ?L
  then obtain cols c nm lv par ar act where line: "line = insert_line cols c nm lv par ar act"
    and wq: "well_quoted c nm lv par ar act"
    by (rule parseLine_InrD)
  from wq obtain c' nm' par' where esc: "c = escape c'" "nm = escape nm'" "par = map_option escape par'"
    by (rule well_quoted_cases)
  from \<open>?L\<close> have r: "row_ok uni r" "r_line r = n" "r_level r = digit_val lv" "r_area r = digit_val ar"
    "r_code r = c'" "r_name r = nm'" "r_parent r = parent_or_empty par'"
    unfolding line parseLine_insert_line [OF wq]
    by (auto simp: esc parent_or_empty_def split: option.splits)
  from wq have "digit_char (r_level r) = lv" "digit_char (r_area r) = ar" "conflict_action act"
    using digit_val_level [of lv] digit_val_area [of ar] by (auto simp: r well_quoted_def)
  with r line esc show ?R by blast
next
  assume ?R
  then obtain cols par act where r: "row_ok uni r" "r_line r = n"
    and line: "line = insert_line cols (escape (r_code r)) (escape (r_name r)) (digit_char (r_level r))
                 (map_option escape par) (digit_char (r_area r)) act"
    and act: "conflict_action act" and par: "r_parent r = parent_or_empty par"
    by blast
  have lv: "digit_char (r_level r) \<in> set ''1234'' \<and> digit_val (digit_char (r_level r)) = r_level r"
    by (rule digit_char_level) (use r in \<open>unfold row_ok_def, blast\<close>)
  have ar: "digit_char (r_area r) \<in> set ''12'' \<and> digit_val (digit_char (r_area r)) = r_area r"
    by (rule digit_char_area) (use r in \<open>unfold row_ok_def, blast\<close>)
  have wq: "well_quoted (escape (r_code r)) (escape (r_name r)) (digit_char (r_level r))
              (map_option escape par) (digit_char (r_area r)) act"
    unfolding well_quoted_escape using lv ar act by blast
  show ?L
    unfolding line parseLine_insert_line [OF wq]
    using r lv ar par by (auto simp: parent_or_empty_def split: option.splits)
qed

text \<open>
  C3. \<^verbatim>\<open>parseLine\<close> accepts exactly the lines of the narrow INSERT form whose row is well formed,
  and returns that row: code, name and parent are the unescaped SQL strings, whatever bytes and
  quotes they contain, level and area are the digits. In particular printing a well-formed row
  with its quotes doubled and parsing the line gives the row back, and no other statement is
  accepted.
\<close>

theorem parseLine_accepts:
  "parseLine uni line n = Inr r \<longleftrightarrow>
     row_ok uni r \<and> r_line r = n \<and>
     (\<exists>cols par act.
        line = insert_line cols (escape (r_code r)) (escape (r_name r)) (digit_char (r_level r))
                 (map_option escape par) (digit_char (r_area r)) act \<and>
        conflict_action act \<and> r_parent r = parent_or_empty par)"
  by (rule parseLine_iff)

end
