(* ===== verification/Import_Validate.thy ===== *)
theory Import_Validate
  imports Import_Parse
begin

text \<open>
  \<^verbatim>\<open>readInput\<close> and \<^verbatim>\<open>validate\<close> of \<^verbatim>\<open>src/internal/importjob/infrastructure/postgres/import.go\<close>, with
  what they guarantee about the rows that reach the database.
\<close>

section \<open>readInput\<close>

text \<open>
  What reading a file yields: it cannot be opened, or it delivers its bytes and then ends,
  possibly with a read error instead of the end of the file.
\<close>

datatype file_read = CannotOpen gerror | Content bytes "gerror option"

text \<open>
  \<^verbatim>\<open>bufio.Scanner\<close> with \<^verbatim>\<open>ScanLines\<close>: the lines without their line feed and without one carriage
  return before it; no line after a final line feed.
\<close>

definition raw_lines :: "bytes \<Rightarrow> bytes list" where
  "raw_lines content =
     (let ps = Split content [CHR 0x0A] in if last ps = [] then butlast ps else ps)"

definition dropCR :: "bytes \<Rightarrow> bytes" where
  "dropCR l = TrimSuffix l [CHR 0x0D]"

text \<open>The buffer limit set with \<^verbatim>\<open>scanner.Buffer\<close>; a line that fills the buffer is an error.\<close>

definition max_token :: nat where
  "max_token = 1024 * 1024"

text \<open>The guard on a parsed row: its area and level are those the snapshot's code names.\<close>

definition wrong_level_or_area :: "snapshot \<Rightarrow> source_row \<Rightarrow> bool" where
  "wrong_level_or_area spec r \<longleftrightarrow>
     (s_code spec ! 10 = CHR ''2'' \<and> r_area r \<noteq> 2) \<or> (s_code spec ! 10 = CHR ''3'' \<and> r_area r \<noteq> 1) \<or>
     r_level r \<noteq> digit_val (last (s_code spec))"

fun scan_rows ::
  "(bytes \<Rightarrow> bytes) \<Rightarrow> snapshot \<Rightarrow> int \<Rightarrow> bytes list \<Rightarrow> import_error + source_row list" where
  "scan_rows uni spec line [] = Inr []"
| "scan_rows uni spec line (l # ls) =
     (if max_token \<le> length l then Inl (ScanError (Sentinel ''bufio.ErrTooLong''))
      else
        let line = line + 1; txt = TrimSpace (dropCR l)
        in if txt = [] \<or> HasPrefix txt ''--'' then scan_rows uni spec line ls
           else
             (case parseLine uni txt line of
                Inl e \<Rightarrow> Inl (InFile (s_file spec) e)
              | Inr r \<Rightarrow>
                  if wrong_level_or_area spec r then Inl (WrongLevelOrArea (s_file spec) line)
                  else bind_sum (scan_rows uni spec line ls) (\<lambda>rs. Inr (r # rs))))"

text \<open>
  \<open>files\<close> is the directory as the program sees it, \<open>sha\<close> the hexadecimal SHA-256 digest of a
  byte string.
\<close>

definition readInput ::
  "(bytes \<Rightarrow> bytes) \<Rightarrow> (bytes \<Rightarrow> string) \<Rightarrow> (bytes \<Rightarrow> file_read) \<Rightarrow> snapshot \<Rightarrow> import_error + input" where
  "readInput uni sha files spec =
     (case files (s_file spec) of
        CannotOpen e \<Rightarrow> Inl (OpenError e)
      | Content content read_err \<Rightarrow>
          bind_sum (scan_rows uni spec 0 (raw_lines content))
            (\<lambda>rows.
               case read_err of
                 Some e \<Rightarrow> Inl (ScanError e)
               | None \<Rightarrow>
                   if length rows \<noteq> s_count spec
                   then Inl (RowCount (s_file spec) (s_count spec) (length rows))
                   else Inr \<lparr>i_snapshot = spec, i_hash = sha content, i_rows = rows\<rparr>))"

section \<open>validate\<close>

text \<open>
  The Go map \<open>admins\<close> is an association list in insertion order. Ranging over a Go map visits
  its entries in an unspecified order: \<open>ranging\<close> is that order.
\<close>

type_synonym admin_map = "(bytes \<times> source_row) list"

fun collect_admins :: "admin_map \<Rightarrow> source_row list \<Rightarrow> import_error + admin_map" where
  "collect_admins admins [] = Inr admins"
| "collect_admins admins (r # rs) =
     (if r_level r = 4 then collect_admins admins rs
      else if map_of admins (r_code r) \<noteq> None then Inl (DuplicateCode (r_code r))
      else collect_admins (admins @ [(r_code r, r)]) rs)"

definition parent_ok :: "admin_map \<Rightarrow> source_row \<Rightarrow> bool" where
  "parent_ok admins r \<longleftrightarrow>
     r_parent r = [] \<or>
     (case map_of admins (r_parent r) of
        None \<Rightarrow> False
      | Some p \<Rightarrow> r_area p = r_area r \<and> r_level p < r_level r)"

fun check_parents :: "admin_map \<Rightarrow> admin_map \<Rightarrow> import_error + unit" where
  "check_parents admins [] = Inr ()"
| "check_parents admins ((c, r) # rest) =
     (if parent_ok admins r then check_parents admins rest else Inl (BadParent (r_code r)))"

definition validate :: "(admin_map \<Rightarrow> admin_map) \<Rightarrow> input list \<Rightarrow> import_error + unit" where
  "validate ranging inputs =
     bind_sum (collect_admins [] (concat (map i_rows inputs)))
       (\<lambda>admins. check_parents admins (ranging admins))"

definition map_order :: "(admin_map \<Rightarrow> admin_map) \<Rightarrow> bool" where
  "map_order ranging \<longleftrightarrow> (\<forall>m. mset (ranging m) = mset m)"

section \<open>What readInput guarantees\<close>

lemma scan_rows_ok:
  "scan_rows uni spec line ls = Inr rs \<Longrightarrow>
     (\<forall>r \<in> set rs. row_ok uni r \<and> \<not> wrong_level_or_area spec r \<and> line < r_line r) \<and>
     sorted_wrt (<) (map r_line rs)"
proof (induction ls arbitrary: line rs)
  case (Cons l ls)
  let ?txt = "TrimSpace (dropCR l)"
  show ?case
  proof (cases "?txt = [] \<or> HasPrefix ?txt ''--''")
    case True
    with Cons.prems have "scan_rows uni spec (line + 1) ls = Inr rs"
      by (auto simp: Let_def split: if_splits)
    from Cons.IH [OF this] show ?thesis by fastforce
  next
    case False
    with Cons.prems obtain r rs' where parse: "parseLine uni ?txt (line + 1) = Inr r"
      and "\<not> wrong_level_or_area spec r" "rs = r # rs'"
      and "scan_rows uni spec (line + 1) ls = Inr rs'"
      by (auto simp: Let_def split: if_splits sum.splits)
    moreover from parse have "row_ok uni r" "r_line r = line + 1"
      by (simp_all add: parseLine_iff)
    ultimately show ?thesis using Cons.IH [of "line + 1" rs'] by fastforce
  qed
qed simp

text \<open>The rows of one input as the database's constraints need them.\<close>

definition input_ok :: "(bytes \<Rightarrow> bytes) \<Rightarrow> input \<Rightarrow> bool" where
  "input_ok uni inp \<longleftrightarrow>
     length (i_rows inp) = s_count (i_snapshot inp) \<and>
     (\<forall>r \<in> set (i_rows inp). row_ok uni r \<and> \<not> wrong_level_or_area (i_snapshot inp) r \<and> 0 < r_line r) \<and>
     sorted_wrt (<) (map r_line (i_rows inp))"

lemma readInput_Inr:
  assumes "readInput uni sha files spec = Inr inp"
  shows "i_snapshot inp = spec \<and> input_ok uni inp \<and>
         (\<exists>content. files (s_file spec) = Content content None \<and> i_hash inp = sha content)"
  using assms scan_rows_ok [of uni spec 0]
  by (auto simp: readInput_def input_ok_def split: file_read.splits option.splits if_splits)

section \<open>What validate decides\<close>

definition admin_rows :: "input list \<Rightarrow> source_row list" where
  "admin_rows inputs = filter (\<lambda>r. r_level r \<noteq> 4) (concat (map i_rows inputs))"

lemma collect_admins_iff:
  "collect_admins admins rs = Inr m \<longleftrightarrow>
     m = admins @ map (\<lambda>r. (r_code r, r)) (filter (\<lambda>r. r_level r \<noteq> 4) rs) \<and>
     distinct (map r_code (filter (\<lambda>r. r_level r \<noteq> 4) rs)) \<and>
     (\<forall>r \<in> set rs. r_level r \<noteq> 4 \<longrightarrow> r_code r \<notin> fst ` set admins)"
proof (induction rs arbitrary: admins)
  case (Cons r rs)
  consider "r_level r = 4" | "r_level r \<noteq> 4" "r_code r \<in> fst ` set admins"
    | "r_level r \<noteq> 4" "r_code r \<notin> fst ` set admins"
    by blast
  then show ?case
  proof cases
    case 1
    then show ?thesis by (simp add: Cons.IH)
  next
    case 2
    then have "map_of admins (r_code r) \<noteq> None" by (simp add: map_of_eq_None_iff)
    with 2 show ?thesis by simp
  next
    case 3
    then have "collect_admins admins (r # rs) = collect_admins (admins @ [(r_code r, r)]) rs"
      by (simp add: map_of_eq_None_iff)
    moreover have "r_code r \<notin> r_code ` {x \<in> set rs. r_level x \<noteq> 4} \<longleftrightarrow>
        (\<forall>x \<in> set rs. r_level x \<noteq> 4 \<longrightarrow> r_code x \<noteq> r_code r)"
      by (auto simp: image_iff)
    ultimately show ?thesis using 3 by (simp only: Cons.IH) force
  qed
qed auto

lemma check_parents_iff: "check_parents admins m = Inr () \<longleftrightarrow> (\<forall>(c, r) \<in> set m. parent_ok admins r)"
proof (induction m)
  case (Cons a m)
  then show ?case by (cases a) auto
qed simp

lemma map_orderD: "map_order ranging \<Longrightarrow> set (ranging m) = set m"
  unfolding map_order_def by (metis set_mset_mset)

definition hierarchy_ok :: "source_row list \<Rightarrow> bool" where
  "hierarchy_ok rows \<longleftrightarrow>
     (\<forall>r \<in> set rows. r_parent r = [] \<or>
        (\<exists>p \<in> set rows. r_code p = r_parent r \<and> r_area p = r_area r \<and> r_level p < r_level r))"

lemma parent_ok_iff:
  assumes "distinct (map r_code rows)"
  shows "parent_ok (map (\<lambda>r. (r_code r, r)) rows) r \<longleftrightarrow>
           r_parent r = [] \<or>
           (\<exists>p \<in> set rows. r_code p = r_parent r \<and> r_area p = r_area r \<and> r_level p < r_level r)"
proof -
  let ?m = "map (\<lambda>r. (r_code r, r)) rows"
  have d: "distinct (map fst ?m)" using assms by (simp add: comp_def)
  have "map_of ?m c = Some p \<longleftrightarrow> p \<in> set rows \<and> r_code p = c" for c p
    using map_of_eq_Some_iff [OF d, of c p] by auto
  moreover have "(case x of None \<Rightarrow> False | Some p \<Rightarrow> P p) \<longleftrightarrow> (\<exists>p. x = Some p \<and> P p)" for x and P :: "source_row \<Rightarrow> bool"
    by (cases x) auto
  ultimately show ?thesis
    unfolding parent_ok_def by (simp only:) blast
qed

lemma validate_iff:
  assumes "map_order ranging"
  shows "validate ranging inputs = Inr () \<longleftrightarrow>
           distinct (map r_code (admin_rows inputs)) \<and> hierarchy_ok (admin_rows inputs)"
proof -
  let ?rows = "admin_rows inputs" and ?m = "map (\<lambda>r. (r_code r, r)) (admin_rows inputs)"
  have coll: "collect_admins [] (concat (map i_rows inputs)) = Inr m \<longleftrightarrow>
                m = ?m \<and> distinct (map r_code ?rows)" for m
    by (auto simp: collect_admins_iff admin_rows_def)
  have "validate ranging inputs = Inr () \<longleftrightarrow>
          distinct (map r_code ?rows) \<and> (\<forall>(c, r) \<in> set ?m. parent_ok ?m r)"
    unfolding validate_def bind_sum_eq_Inr coll check_parents_iff map_orderD [OF assms] by blast
  also have "\<dots> \<longleftrightarrow> distinct (map r_code ?rows) \<and> (\<forall>r \<in> set ?rows. parent_ok ?m r)"
    by simp
  also have "\<dots> \<longleftrightarrow> distinct (map r_code ?rows) \<and> hierarchy_ok ?rows"
    unfolding hierarchy_ok_def by (simp only: parent_ok_iff cong: conj_cong)
  finally show ?thesis .
qed

section \<open>The hierarchy of a validated import\<close>

text \<open>
  Following parent codes upwards from a row, at most \<open>k\<close> rows: the rows on the way, or \<open>None\<close>
  when a parent is missing or the walk is longer.
\<close>

fun ancestors :: "nat \<Rightarrow> admin_map \<Rightarrow> source_row \<Rightarrow> source_row list option" where
  "ancestors 0 admins r = None"
| "ancestors (Suc k) admins r =
     (if r_parent r = [] then Some [r]
      else (case map_of admins (r_parent r) of
              None \<Rightarrow> None
            | Some p \<Rightarrow> map_option (Cons r) (ancestors k admins p)))"

definition admin_map_of :: "input list \<Rightarrow> admin_map" where
  "admin_map_of inputs = map (\<lambda>r. (r_code r, r)) (admin_rows inputs)"

lemma map_of_admin_map:
  assumes "distinct (map r_code (admin_rows inputs))"
  shows "map_of (admin_map_of inputs) c = Some p \<longleftrightarrow> p \<in> set (admin_rows inputs) \<and> r_code p = c"
proof -
  have d: "distinct (map fst (admin_map_of inputs))"
    using assms by (simp add: admin_map_of_def comp_def)
  show ?thesis using map_of_eq_Some_iff [OF d, of c p] by (auto simp: admin_map_of_def)
qed

lemma admin_row_ok:
  "\<forall>inp \<in> set inputs. input_ok uni inp \<Longrightarrow> r \<in> set (admin_rows inputs) \<Longrightarrow>
   row_ok uni r \<and> 1 \<le> r_level r \<and> r_level r \<le> 3"
proof -
  assume "\<forall>inp \<in> set inputs. input_ok uni inp" "r \<in> set (admin_rows inputs)"
  then have "row_ok uni r" "r_level r \<noteq> 4" by (auto simp: admin_rows_def input_ok_def)
  then show ?thesis by (auto simp: row_ok_def)
qed

lemma ancestors_rooted:
  assumes d: "distinct (map r_code (admin_rows inputs))" and h: "hierarchy_ok (admin_rows inputs)"
    and ok: "\<forall>inp \<in> set inputs. input_ok uni inp"
  shows "r \<in> set (admin_rows inputs) \<Longrightarrow> r_level r \<le> int k \<Longrightarrow>
     \<exists>path. ancestors k (admin_map_of inputs) r = Some path \<and> path \<noteq> [] \<and> hd path = r \<and>
       sorted_wrt (\<lambda>a b. r_level b < r_level a) path \<and> r_level (last path) = 1 \<and>
       (\<forall>a \<in> set path. r_area a = r_area r)"
proof (induction k arbitrary: r)
  case 0
  with admin_row_ok [OF ok] show ?case by force
next
  case (Suc k)
  have r: "row_ok uni r" using admin_row_ok [OF ok Suc.prems(1)] by simp
  show ?case
  proof (cases "r_parent r = []")
    case True
    with r show ?thesis by (simp add: row_ok_def)
  next
    case False
    with h Suc.prems(1) obtain p where p: "p \<in> set (admin_rows inputs)" "r_code p = r_parent r"
      "r_area p = r_area r" "r_level p < r_level r"
      unfolding hierarchy_ok_def by blast
    with Suc.prems(2) have "r_level p \<le> int k" by simp
    from Suc.IH [OF p(1) this] obtain path where
      path: "ancestors k (admin_map_of inputs) p = Some path" "path \<noteq> []" "hd path = p"
        "sorted_wrt (\<lambda>a b. r_level b < r_level a) path" "r_level (last path) = 1"
        "\<forall>a \<in> set path. r_area a = r_area p"
      by blast
    from p have "map_of (admin_map_of inputs) (r_parent r) = Some p"
      by (simp add: map_of_admin_map [OF d])
    moreover from path(2-4) p(4) have "\<forall>a \<in> set path. r_level a < r_level r"
      by (cases path) force+
    ultimately show ?thesis using False path p(3) by (intro exI [of _ "r # path"]) simp
  qed
qed

text \<open>
  C6. \<^verbatim>\<open>validate\<close> accepts a set of inputs exactly when the codes of its level 1 to 3 rows are
  distinct and every such row that names a parent has one among them, of the same area type and
  a smaller level, whatever order the runtime visits the map in.
\<close>

theorem validate_decides:
  assumes "map_order ranging"
  shows "validate ranging inputs = Inr () \<longleftrightarrow>
           distinct (map r_code (admin_rows inputs)) \<and> hierarchy_ok (admin_rows inputs)"
  using assms by (rule validate_iff)

text \<open>
  C4. After a successful \<^verbatim>\<open>validate\<close> of inputs that \<^verbatim>\<open>readInput\<close> delivered, the administrative
  units form a forest: walking from any unit to its parents ends after at most three rows at a
  level-1 unit, the level falls at every step and the area type never changes. No cycle and no
  dangling parent can reach the database.
\<close>

theorem validate_rooted:
  assumes "map_order ranging" and "validate ranging inputs = Inr ()"
    and "\<forall>inp \<in> set inputs. input_ok uni inp" and "r \<in> set (admin_rows inputs)"
  shows "\<exists>path. ancestors 3 (admin_map_of inputs) r = Some path \<and> path \<noteq> [] \<and> hd path = r \<and>
       sorted_wrt (\<lambda>a b. r_level b < r_level a) path \<and> r_level (last path) = 1 \<and>
       (\<forall>a \<in> set path. r_area a = r_area r)"
proof -
  from assms(1,2) have "distinct (map r_code (admin_rows inputs))" "hierarchy_ok (admin_rows inputs)"
    by (simp_all add: validate_iff)
  then show ?thesis
    by (rule ancestors_rooted) (use assms(3,4) admin_row_ok [OF assms(3,4)] in simp_all)
qed

text \<open>
  Every row \<^verbatim>\<open>readInput\<close> returns is well formed, has the level and area type its snapshot
  names, and carries its own line number, increasing through the file; the number of rows is the
  snapshot's expected count and the hash is that of the complete file.
\<close>

theorem readInput_rows:
  assumes "readInput uni sha files spec = Inr inp"
  shows "i_snapshot inp = spec \<and> input_ok uni inp \<and>
         (\<exists>content. files (s_file spec) = Content content None \<and> i_hash inp = sha content)"
  using assms by (rule readInput_Inr)

section \<open>Witnesses\<close>

definition demo_root :: source_row where
  "demo_root = \<lparr>r_line = 1, r_level = 1, r_area = 2, r_code = ''P01'',
     r_name = fst (unit_prefixes ! 1) @ ''A'', r_parent = [], r_kind = ''PROVINCE'',
     r_status = ''STAGED''\<rparr>"

definition demo_ward :: source_row where
  "demo_ward = \<lparr>r_line = 3, r_level = 3, r_area = 2, r_code = ''W1'',
     r_name = fst (unit_prefixes ! 6) @ ''B'', r_parent = ''P01'', r_kind = ''WARD'',
     r_status = ''STAGED''\<rparr>"

definition demo_spec :: "string \<Rightarrow> snapshot" where
  "demo_spec c = \<lparr>s_code = c, s_file = c, s_count = 1\<rparr>"

definition demo_inputs :: "input list" where
  "demo_inputs =
     [\<lparr>i_snapshot = demo_spec ''SUPERSHIP_2_L1'', i_hash = ''h1'', i_rows = [demo_root]\<rparr>,
      \<lparr>i_snapshot = demo_spec ''SUPERSHIP_2_L3'', i_hash = ''h3'', i_rows = [demo_ward]\<rparr>]"

abbreviation ascii_lower :: "bytes \<Rightarrow> bytes" where
  "ascii_lower \<equiv> map lower_char"

lemma demo_map_order: "map_order rev"
  by (simp add: map_order_def)

lemma demo_rows_ok: "row_ok ascii_lower demo_root" "row_ok ascii_lower demo_ward"
  by code_simp+

lemma demo_input_ok: "\<forall>inp \<in> set demo_inputs. input_ok ascii_lower inp"
  by (simp add: demo_inputs_def input_ok_def demo_rows_ok)
    (simp add: demo_spec_def demo_root_def demo_ward_def wrong_level_or_area_def digit_val_def)

lemma demo_admin_rows: "admin_rows demo_inputs = [demo_root, demo_ward]"
  by (simp add: admin_rows_def demo_inputs_def demo_root_def demo_ward_def)

lemma demo_validate: "validate rev demo_inputs = Inr ()"
  unfolding validate_iff [OF demo_map_order] demo_admin_rows hierarchy_ok_def
  by (simp add: demo_root_def demo_ward_def)

theorem validate_decides_witness:
  "map_order rev \<and> validate rev demo_inputs = Inr () \<and> hierarchy_ok (admin_rows demo_inputs)"
  using validate_decides [OF demo_map_order, of demo_inputs] demo_map_order demo_validate by simp

theorem validate_rooted_witness:
  "\<exists>path. ancestors 3 (admin_map_of demo_inputs) demo_ward = Some path \<and> path \<noteq> [] \<and>
     hd path = demo_ward \<and> sorted_wrt (\<lambda>a b. r_level b < r_level a) path \<and>
     r_level (last path) = 1 \<and> (\<forall>a \<in> set path. r_area a = r_area demo_ward)"
  by (rule validate_rooted [OF demo_map_order demo_validate demo_input_ok])
    (simp add: demo_admin_rows)

text \<open>A file with a comment, a blank line and one level-1 row.\<close>

definition demo_line :: bytes where
  "demo_line = insert_line False ''P01'' (fst (unit_prefixes ! 1) @ ''A'') CHR ''1'' None CHR ''2'' ''NOTHING''"

definition demo_file :: bytes where
  "demo_file = ''-- L1'' @ [CHR 0x0A, CHR 0x0A] @ demo_line @ [CHR 0x0D, CHR 0x0A]"

lemma demo_parse: "parseLine ascii_lower demo_line 3 = Inr (demo_root\<lparr>r_line := 3\<rparr>)"
proof -
  have "row_ok ascii_lower (demo_root\<lparr>r_line := 3\<rparr>)" by code_simp
  moreover have "demo_line = insert_line False (escape (r_code demo_root)) (escape (r_name demo_root))
      (digit_char 1) (map_option escape None) (digit_char 2) ''NOTHING''"
    by (simp add: demo_line_def demo_root_def unit_prefixes_def digit_char_def)
  ultimately show ?thesis
    unfolding parseLine_iff
    by (intro conjI exI [of _ False] exI [of _ None] exI [of _ "''NOTHING''"])
      (simp_all add: demo_root_def conflict_action_def parent_or_empty_def)
qed

lemma demo_lines:
  "raw_lines demo_file = [''-- L1'', [], demo_line @ [CHR 0x0D]]"
  "map (TrimSpace \<circ> dropCR) [''-- L1'', [], demo_line @ [CHR 0x0D]] = [''-- L1'', [], demo_line]"
  "length demo_line < 200 \<and> demo_line \<noteq> [] \<and> \<not> HasPrefix demo_line ''--''"
  by code_simp+

lemma demo_read:
  "readInput ascii_lower (\<lambda>_. ''h1'') (\<lambda>_. Content demo_file None) (demo_spec ''SUPERSHIP_2_L1'') =
     Inr \<lparr>i_snapshot = demo_spec ''SUPERSHIP_2_L1'', i_hash = ''h1'', i_rows = [demo_root\<lparr>r_line := 3\<rparr>]\<rparr>"
  using demo_lines(2,3)
  by (simp add: readInput_def demo_lines(1) demo_parse max_token_def Let_def wrong_level_or_area_def
      demo_spec_def demo_root_def digit_val_def)

theorem readInput_rows_witness:
  "input_ok ascii_lower
     \<lparr>i_snapshot = demo_spec ''SUPERSHIP_2_L1'', i_hash = ''h1'', i_rows = [demo_root\<lparr>r_line := 3\<rparr>]\<rparr>"
  using readInput_rows [OF demo_read] by simp

end
