(* ===== verification/Schema_Version.thy ===== *)
theory Schema_Version
  imports Main
begin

text \<open>
  The constant \<^verbatim>\<open>SchemaVersion\<close> of \<^verbatim>\<open>src/internal/platform/database/pool.go\<close>, which the runtimes, the
  migrations and the import all rely on.
\<close>

definition SchemaVersion :: int where
  "SchemaVersion = 3"

end
