(* ===== verification/Import_Tx.thy ===== *)
theory Import_Tx
  imports Import_Validate Schema_Version
begin

text \<open>
  \<^verbatim>\<open>Import\<close> of \<^verbatim>\<open>src/internal/importjob/infrastructure/postgres/import.go\<close>: the transaction that
  stages every source row and promotes levels 1 to 3.

  The database is a record of the tables the transaction touches, each the list of its rows;
  every SQL statement of the source is a function on it, read off its text. PostgreSQL itself is
  outside the repository and is the environment \<open>env\<close>: which identities its sequences hand out,
  its text functions, the order it returns rows in, and whether it rejects a statement (a
  violated constraint, a lost connection, a serialization failure) or the commit.
\<close>

section \<open>Tables\<close>

record data_source =
  ds_id :: int
  ds_code :: string
  ds_name :: bytes
  ds_reference :: bytes
  ds_version :: string

record source_record =
  sr_id :: int
  sr_source :: int
  sr_line :: int
  sr_external :: bytes
  sr_name :: bytes
  sr_level :: int
  sr_parent :: "bytes option"
  sr_area :: int
  sr_unit_type :: "string option"
  sr_status :: string
  sr_canonical :: "int option"

record admin_unit =
  au_id :: int
  au_code :: bytes
  au_name :: bytes
  au_normalized :: bytes
  au_type :: "string option"
  au_level :: int
  au_parent :: "int option"
  au_status :: string
  au_source :: int

record external_reference =
  er_source :: int
  er_admin_unit :: "int option"
  er_type :: string
  er_external :: bytes
  er_version :: string

record outbox_event =
  ob_type :: string
  ob_aggregate :: string
  ob_aggregate_id :: "int option"
  ob_revision :: int
  ob_unit_code :: bytes

record db =
  goose_versions :: "(int \<times> bool) list" \<comment> \<open>version and is-applied, latest id first\<close>
  data_sources :: "data_source list"
  source_records :: "source_record list"
  administrative_units :: "admin_unit list"
  external_references :: "external_reference list"
  outbox_events :: "outbox_event list"

section \<open>The environment\<close>

datatype stmt =
    SelectVersion
  | SelectExisting string
  | SelectOverlap
  | InsertSource string
  | CopyRows string
  | Promote int
  | LinkRecords
  | HoldRecords
  | InsertReferences
  | InsertOutbox

record env =
  e_uni :: "bytes \<Rightarrow> bytes"
  e_sha :: "bytes \<Rightarrow> string"
  e_files :: "bytes \<Rightarrow> file_read"
  e_ranging :: "admin_map \<Rightarrow> admin_map"
  e_url_ok :: bool                             \<comment> \<open>\<^verbatim>\<open>pgx.ParseConfig\<close> accepts the URL\<close>
  e_connects :: bool
  e_begin :: "gerror option"
  e_reject :: "stmt \<Rightarrow> db \<Rightarrow> gerror option"        \<comment> \<open>by statement and the state it runs in\<close>
  e_commit :: "(gerror \<times> bool) option"           \<comment> \<open>commit error, and whether it took effect\<close>
  e_source_id :: "nat \<Rightarrow> int"                    \<comment> \<open>identity columns: the id of the n-th row\<close>
  e_record_id :: "nat \<Rightarrow> int"
  e_unit_id :: "nat \<Rightarrow> int"
  e_trim :: "bytes \<Rightarrow> bytes"                     \<comment> \<open>SQL \<^verbatim>\<open>trim\<close>\<close>
  e_normalize :: "bytes \<Rightarrow> bytes"                \<comment> \<open>SQL \<^verbatim>\<open>lower(regexp_replace(trim(x), ...))\<close>\<close>
  e_order :: "source_record list \<Rightarrow> source_record list" \<comment> \<open>\<^verbatim>\<open>ORDER BY r.external_id\<close>\<close>

section \<open>Statements\<close>

text \<open>\<^verbatim>\<open>SELECT version_id \<dots> WHERE is_applied ORDER BY id DESC LIMIT 1\<close>.\<close>

definition current_version :: "db \<Rightarrow> int option" where
  "current_version d = map_option fst (find snd (goose_versions d))"

text \<open>
  The summary of an existing source: its version, and how many of its records there are, are
  linked, and are held. \<open>None\<close> is \<^verbatim>\<open>pgx.ErrNoRows\<close>.
\<close>

definition existing_source :: "db \<Rightarrow> string \<Rightarrow> (string \<times> nat \<times> nat \<times> nat) option" where
  "existing_source d c =
     (case find (\<lambda>s. ds_code s = c) (data_sources d) of
        None \<Rightarrow> None
      | Some s \<Rightarrow>
          let rs = filter (\<lambda>r. sr_source r = ds_id s) (source_records d)
          in Some (ds_version s, length rs,
               length (filter (\<lambda>r. sr_level r < 4 \<and> sr_status r = ''LINKED'' \<and> sr_canonical r \<noteq> None) rs),
               length (filter (\<lambda>r. sr_level r = 4 \<and> sr_status r \<in> {''UNRESOLVED'', ''INVALID''}) rs)))"

text \<open>The \<^verbatim>\<open>data_sources\<close> row of an input, and the \<^verbatim>\<open>COPY\<close> of its rows.\<close>

definition insert_source :: "int \<Rightarrow> input \<Rightarrow> db \<Rightarrow> db" where
  "insert_source sid inp d =
     d\<lparr>data_sources := data_sources d @
        [\<lparr>ds_id = sid, ds_code = s_code (i_snapshot inp), ds_name = s_file (i_snapshot inp),
          ds_reference = s_file (i_snapshot inp), ds_version = i_hash inp\<rparr>]\<rparr>"

definition staged_row :: "int \<Rightarrow> int \<Rightarrow> source_row \<Rightarrow> source_record" where
  "staged_row rid sid r =
     \<lparr>sr_id = rid, sr_source = sid, sr_line = r_line r, sr_external = r_code r, sr_name = r_name r,
      sr_level = r_level r, sr_parent = (if r_parent r \<noteq> [] then Some (r_parent r) else None),
      sr_area = r_area r, sr_unit_type = (if r_kind r \<noteq> [] then Some (r_kind r) else None),
      sr_status = r_status r, sr_canonical = None\<rparr>"

definition copy_rows :: "(nat \<Rightarrow> int) \<Rightarrow> int \<Rightarrow> source_row list \<Rightarrow> db \<Rightarrow> db" where
  "copy_rows rid sid rows d =
     d\<lparr>source_records := source_records d @
        map (\<lambda>(i, r). staged_row (rid i) sid r) (enumerate (length (source_records d)) rows)\<rparr>"

text \<open>
  Promotion of one level. The parent of a record is found by a left join on the code: one joined
  row per matching unit, one without a parent when there is none.
\<close>

definition join_parents :: "db \<Rightarrow> source_record \<Rightarrow> admin_unit option list" where
  "join_parents d r =
     (case filter (\<lambda>u. Some (au_code u) = sr_parent r) (administrative_units d) of
        [] \<Rightarrow> [None]
      | us \<Rightarrow> map Some us)"

definition promoted_unit :: "env \<Rightarrow> int \<Rightarrow> source_record \<Rightarrow> admin_unit option \<Rightarrow> admin_unit" where
  "promoted_unit E uid r p =
     \<lparr>au_id = uid, au_code = sr_external r, au_name = e_trim E (sr_name r),
      au_normalized = e_normalize E (sr_name r), au_type = sr_unit_type r, au_level = sr_level r,
      au_parent = map_option au_id p, au_status = (if sr_area r = 2 then ''ACTIVE'' else ''INACTIVE''),
      au_source = sr_source r\<rparr>"

definition promote_rows :: "env \<Rightarrow> int list \<Rightarrow> int \<Rightarrow> db \<Rightarrow> (source_record \<times> admin_unit option) list" where
  "promote_rows E ids level d =
     concat (map (\<lambda>r. map (Pair r) (join_parents d r))
       (e_order E (filter (\<lambda>r. sr_source r \<in> set ids \<and> sr_level r = level) (source_records d))))"

definition promote :: "env \<Rightarrow> int list \<Rightarrow> int \<Rightarrow> db \<Rightarrow> db" where
  "promote E ids level d =
     d\<lparr>administrative_units := administrative_units d @
        map (\<lambda>(i, (r, p)). promoted_unit E (e_unit_id E i) r p)
          (enumerate (length (administrative_units d)) (promote_rows E ids level d))\<rparr>"

text \<open>The two updates of the staged records.\<close>

definition link_record :: "int list \<Rightarrow> admin_unit list \<Rightarrow> source_record \<Rightarrow> source_record" where
  "link_record ids units r =
     (if sr_source r \<in> set ids \<and> sr_level r < 4
      then (case find (\<lambda>u. au_code u = sr_external r) units of
              None \<Rightarrow> r
            | Some u \<Rightarrow> r\<lparr>sr_canonical := Some (au_id u), sr_status := ''LINKED''\<rparr>)
      else r)"

definition link_records :: "int list \<Rightarrow> db \<Rightarrow> db" where
  "link_records ids d =
     d\<lparr>source_records := map (link_record ids (administrative_units d)) (source_records d)\<rparr>"

definition hold_record :: "int list \<Rightarrow> source_record \<Rightarrow> source_record" where
  "hold_record ids r =
     (if sr_source r \<in> set ids \<and> sr_level r = 4 \<and> sr_status r = ''STAGED''
      then r\<lparr>sr_status := ''UNRESOLVED''\<rparr> else r)"

definition hold_records :: "int list \<Rightarrow> db \<Rightarrow> db" where
  "hold_records ids d = d\<lparr>source_records := map (hold_record ids) (source_records d)\<rparr>"

definition admin_records :: "int list \<Rightarrow> db \<Rightarrow> source_record list" where
  "admin_records ids d =
     filter (\<lambda>r. sr_source r \<in> set ids \<and> sr_level r < 4) (source_records d)"

definition insert_references :: "int list \<Rightarrow> db \<Rightarrow> db" where
  "insert_references ids d =
     d\<lparr>external_references := external_references d @
        concat (map (\<lambda>r. map (\<lambda>s. \<lparr>er_source = sr_source r, er_admin_unit = sr_canonical r,
                                    er_type = ''ADMIN_UNIT'', er_external = sr_external r,
                                    er_version = ds_version s\<rparr>)
                            (filter (\<lambda>s. ds_id s = sr_source r) (data_sources d)))
          (admin_records ids d))\<rparr>"

definition insert_outbox :: "int list \<Rightarrow> db \<Rightarrow> db" where
  "insert_outbox ids d =
     d\<lparr>outbox_events := outbox_events d @
        map (\<lambda>r. \<lparr>ob_type = ''administrative_unit.upserted'', ob_aggregate = ''ADMINISTRATIVE_UNIT'',
                  ob_aggregate_id = sr_canonical r, ob_revision = 1, ob_unit_code = sr_external r\<rparr>)
          (admin_records ids d)\<rparr>"

section \<open>Import\<close>

fun read_inputs :: "env \<Rightarrow> snapshot list \<Rightarrow> import_error + input list" where
  "read_inputs E [] = Inr []"
| "read_inputs E (spec # specs) =
     bind_sum (readInput (e_uni E) (e_sha E) (e_files E) spec)
       (\<lambda>inp. bind_sum (read_inputs E specs) (\<lambda>inps. Inr (inp # inps)))"

text \<open>A statement that may be rejected before it takes effect.\<close>

definition exec :: "env \<Rightarrow> stmt \<Rightarrow> (gerror \<Rightarrow> import_error) \<Rightarrow> (db \<Rightarrow> db) \<Rightarrow> db \<Rightarrow> import_error + db" where
  "exec E st wrap f d = (case e_reject E st d of Some e \<Rightarrow> Inl (wrap e) | None \<Rightarrow> Inr (f d))"

text \<open>The first loop of the transaction: how many of the sources exist, unchanged.\<close>

fun count_existing :: "env \<Rightarrow> db \<Rightarrow> input list \<Rightarrow> import_error + nat" where
  "count_existing E d [] = Inr 0"
| "count_existing E d (inp # inps) =
     (case e_reject E (SelectExisting (s_code (i_snapshot inp))) d of
        Some e \<Rightarrow> Inl (DatabaseError e)
      | None \<Rightarrow>
          (case existing_source d (s_code (i_snapshot inp)) of
             None \<Rightarrow> count_existing E d inps
           | Some (hash, cnt, linked, held) \<Rightarrow>
               if hash \<noteq> i_hash inp \<or> cnt \<noteq> length (i_rows inp) \<or>
                  linked \<noteq> length (filter (\<lambda>r. r_level r < 4) (i_rows inp)) \<or>
                  held \<noteq> length (filter (\<lambda>r. \<not> r_level r < 4) (i_rows inp))
               then Inl (SourceDiffers (s_code (i_snapshot inp)))
               else bind_sum (count_existing E d inps) (\<lambda>n. Inr (Suc n))))"

text \<open>Staging: one source and its rows per input; the identities are collected in order.\<close>

fun stage :: "env \<Rightarrow> input list \<Rightarrow> int list \<times> db \<Rightarrow> import_error + int list \<times> db" where
  "stage E [] (ids, d) = Inr (ids, d)"
| "stage E (inp # inps) (ids, d) =
     (let sid = e_source_id E (length (data_sources d)); c = s_code (i_snapshot inp)
      in bind_sum (exec E (InsertSource c) DatabaseError (insert_source sid inp) d)
           (\<lambda>d1. bind_sum (exec E (CopyRows c) (StageError c) (copy_rows (e_record_id E) sid (i_rows inp)) d1)
              (\<lambda>d2. stage E inps (ids @ [sid], d2))))"

fun promote_levels :: "env \<Rightarrow> int list \<Rightarrow> int list \<Rightarrow> db \<Rightarrow> import_error + db" where
  "promote_levels E ids [] d = Inr d"
| "promote_levels E ids (level # levels) d =
     bind_sum (exec E (Promote level) (PromoteError level) (promote E ids level) d)
       (\<lambda>d1. if promote_rows E ids level d = [] then Inl (NoUnitsAtLevel level)
             else promote_levels E ids levels d1)"

definition admin_codes :: "input list \<Rightarrow> bytes list" where
  "admin_codes inputs = map r_code (filter (\<lambda>r. r_level r < 4) (concat (map i_rows inputs)))"

text \<open>The statements after the guards, up to the commit.\<close>

definition import_writes :: "env \<Rightarrow> input list \<Rightarrow> db \<Rightarrow> import_error + db" where
  "import_writes E inputs d =
     bind_sum (stage E inputs ([], d))
       (\<lambda>(ids, d1). bind_sum (promote_levels E ids [1, 2, 3] d1)
         (\<lambda>d2. bind_sum (exec E LinkRecords DatabaseError (link_records ids) d2)
           (\<lambda>d3. bind_sum (exec E HoldRecords DatabaseError (hold_records ids) d3)
             (\<lambda>d4. bind_sum (exec E InsertReferences DatabaseError (insert_references ids) d4)
               (\<lambda>d5. exec E InsertOutbox DatabaseError (insert_outbox ids) d5)))))"

datatype import_plan = Unchanged | Write db

text \<open>The body of the transaction: what to commit, or why it fails.\<close>

definition import_tx :: "env \<Rightarrow> input list \<Rightarrow> db \<Rightarrow> import_error + import_plan" where
  "import_tx E inputs d =
     (if e_reject E SelectVersion d \<noteq> None \<or> current_version d \<noteq> Some SchemaVersion
      then Inl SchemaVersionRequired
      else bind_sum (count_existing E d inputs)
        (\<lambda>existing.
           if existing = length inputs then Inr Unchanged
           else if existing \<noteq> 0 then Inl PartialImport
           else (case e_reject E SelectOverlap d of
                   Some e \<Rightarrow> Inl (DatabaseError e)
                 | None \<Rightarrow>
                     let overlap = length (filter (\<lambda>u. au_code u \<in> set (admin_codes inputs))
                                             (administrative_units d))
                     in if overlap \<noteq> 0 then Inl (CodesOverlap overlap)
                        else bind_sum (import_writes E inputs d) (\<lambda>d'. Inr (Write d')))))"

text \<open>
  The whole function: its result and the database it leaves. The deferred rollback undoes
  everything unless the commit took effect. \<open>specs\<close> is the package variable, \<^const>\<open>snapshots\<close> in the
  program.
\<close>

definition Import :: "env \<Rightarrow> snapshot list \<Rightarrow> db \<Rightarrow> (import_error + nat \<times> bool) \<times> db" where
  "Import E specs d =
     (case read_inputs E specs of
        Inl e \<Rightarrow> (Inl e, d)
      | Inr inputs \<Rightarrow>
          (case validate (e_ranging E) inputs of
             Inl e \<Rightarrow> (Inl e, d)
           | Inr _ \<Rightarrow>
               if \<not> e_url_ok E then (Inl BadConnectionConfig, d)
               else if \<not> e_connects E then (Inl ConnectionFailed, d)
               else (case e_begin E of
                       Some e \<Rightarrow> (Inl (DatabaseError e), d)
                     | None \<Rightarrow>
                         (case import_tx E inputs d of
                            Inl e \<Rightarrow> (Inl e, d)
                          | Inr Unchanged \<Rightarrow> (Inr (0, True), d)
                          | Inr (Write d') \<Rightarrow>
                              (case e_commit E of
                                 Some (e, took_effect) \<Rightarrow>
                                   (Inl (DatabaseError e), if took_effect then d' else d)
                               | None \<Rightarrow> (Inr (length (admin_codes inputs), False), d'))))))"

end
