(* ===== verification/Import_Correct.thy ===== *)
theory Import_Correct
  imports Import_Tx
begin

text \<open>
  What a completed import leaves in the database: every row staged, levels 1 to 3 promoted to
  administrative units whose parent links follow the source hierarchy, level 4 held back, one
  external reference and one outbox event per unit; and that a rerun changes nothing.
\<close>

section \<open>Hypotheses on the database server\<close>

text \<open>
  Documented behaviour of PostgreSQL: identity columns hand out distinct fresh values, ordering
  permutes rows, and the foreign key of \<^verbatim>\<open>source_records\<close> holds.
\<close>

definition server_ok :: "env \<Rightarrow> db \<Rightarrow> bool" where
  "server_ok E d \<longleftrightarrow>
     inj (e_source_id E) \<and> inj (e_unit_id E) \<and>
     (\<forall>n. e_source_id E n \<notin> ds_id ` set (data_sources d)) \<and>
     (\<forall>n. e_unit_id E n \<notin> au_id ` set (administrative_units d)) \<and>
     (\<forall>xs. mset (e_order E xs) = mset xs) \<and>
     (\<forall>s \<in> set (source_records d). sr_source s \<in> ds_id ` set (data_sources d))"

lemma order_set: "server_ok E d \<Longrightarrow> set (e_order E xs) = set xs"
  unfolding server_ok_def by (metis set_mset_mset)

lemma exec_Inr [simp]: "exec E st wrap f d = Inr d' \<longleftrightarrow> e_reject E st d = None \<and> d' = f d"
  by (auto simp: exec_def split: option.splits)

section \<open>Staging\<close>

text \<open>The rows of the inputs, each with the identity of its source.\<close>

definition tagged_rows :: "int list \<Rightarrow> input list \<Rightarrow> (int \<times> source_row) list" where
  "tagged_rows sids inputs = concat (map (\<lambda>(sid, inp). map (Pair sid) (i_rows inp)) (zip sids inputs))"

definition staged_as :: "int \<times> source_row \<Rightarrow> source_record \<Rightarrow> bool" where
  "staged_as t s \<longleftrightarrow> s = staged_row (sr_id s) (fst t) (snd t)"

definition source_entry :: "int \<Rightarrow> input \<Rightarrow> data_source" where
  "source_entry sid inp =
     \<lparr>ds_id = sid, ds_code = s_code (i_snapshot inp), ds_name = s_file (i_snapshot inp),
      ds_reference = s_file (i_snapshot inp), ds_version = i_hash inp\<rparr>"

lemma list_all2_map_eq:
  "list_all2 P xs ys \<Longrightarrow> (\<And>x y. P x y \<Longrightarrow> f x = g y) \<Longrightarrow> map f xs = map g ys"
  by (induction rule: list_all2_induct) auto

lemma copied_rows_staged:
  "list_all2 staged_as (map (Pair sid) rows)
     (map (\<lambda>(i, r). staged_row (rid i) sid r) (enumerate n rows))"
  by (simp add: list_all2_conv_all_nth nth_enumerate_eq staged_as_def)
    (simp add: staged_row_def)

lemma stage_Inr:
  "stage E inputs (ids, d) = Inr (ids', d') \<Longrightarrow>
     \<exists>sids S. ids' = ids @ sids \<and> sids = map (e_source_id E) [length (data_sources d)..<length (data_sources d) + length inputs] \<and>
       data_sources d' = data_sources d @ map (\<lambda>(sid, inp). source_entry sid inp) (zip sids inputs) \<and>
       source_records d' = source_records d @ S \<and> list_all2 staged_as (tagged_rows sids inputs) S \<and>
       administrative_units d' = administrative_units d \<and> goose_versions d' = goose_versions d \<and>
       external_references d' = external_references d \<and> outbox_events d' = outbox_events d"
proof (induction E inputs "(ids, d)" arbitrary: ids d rule: stage.induct)
  case (1 E ids d)
  then show ?case by (auto simp: tagged_rows_def)
next
  case (2 E inp inps ids d)
  let ?sid = "e_source_id E (length (data_sources d))" and ?c = "s_code (i_snapshot inp)"
  define d1 where "d1 = insert_source ?sid inp d"
  define d2 where "d2 = copy_rows (e_record_id E) ?sid (i_rows inp) d1"
  from "2.prems" have rest: "stage E inps (ids @ [?sid], d2) = Inr (ids', d')"
    by (auto simp: Let_def d1_def d2_def)
  from "2.hyps" [OF refl refl rest] obtain sids S where IH:
    "ids' = (ids @ [?sid]) @ sids"
    "sids = map (e_source_id E) [length (data_sources d2)..<length (data_sources d2) + length inps]"
    "data_sources d' = data_sources d2 @ map (\<lambda>(sid, inp). source_entry sid inp) (zip sids inps)"
    "source_records d' = source_records d2 @ S" "list_all2 staged_as (tagged_rows sids inps) S"
    "administrative_units d' = administrative_units d2" "goose_versions d' = goose_versions d2"
    "external_references d' = external_references d2" "outbox_events d' = outbox_events d2"
    by blast
  let ?C = "map (\<lambda>(i, r). staged_row (e_record_id E i) ?sid r)
              (enumerate (length (source_records d)) (i_rows inp))"
  have d2: "data_sources d2 = data_sources d @ [source_entry ?sid inp]"
    "source_records d2 = source_records d @ ?C"
    "administrative_units d2 = administrative_units d" "goose_versions d2 = goose_versions d"
    "external_references d2 = external_references d" "outbox_events d2 = outbox_events d"
    by (simp_all add: d2_def d1_def copy_rows_def insert_source_def source_entry_def)
  have sids: "?sid # sids =
      map (e_source_id E) [length (data_sources d)..<length (data_sources d) + length (inp # inps)]"
    using upt_conv_Cons [of "length (data_sources d)" "length (data_sources d) + length (inp # inps)"]
    by (simp add: IH(2) d2(1) del: upt_Suc)
  have rows: "list_all2 staged_as (tagged_rows (?sid # sids) (inp # inps)) (?C @ S)"
    unfolding tagged_rows_def using IH(5) copied_rows_staged
    by (auto intro: list_all2_appendI simp: tagged_rows_def)
  show ?case
  proof (intro exI conjI)
    show "ids' = ids @ ?sid # sids" using IH(1) by simp
    show "data_sources d' = data_sources d @
        map (\<lambda>(sid, inp). source_entry sid inp) (zip (?sid # sids) (inp # inps))"
      using IH(3) d2(1) by simp
    show "source_records d' = source_records d @ ?C @ S" using IH(4) d2(2) by simp
  qed (use IH(6-9) d2(3-6) sids rows in simp_all)
qed

section \<open>Promotion\<close>

text \<open>
  The records of one import, by what the guards before the first write established: the codes
  of the administrative records are distinct and new, and every parent is one of them, at a
  smaller level.
\<close>

definition admin_part :: "source_record list \<Rightarrow> source_record list" where
  "admin_part S = filter (\<lambda>s. sr_level s < 4) S"

definition records_ok :: "admin_unit list \<Rightarrow> source_record list \<Rightarrow> bool" where
  "records_ok old S \<longleftrightarrow>
     distinct (map sr_external (admin_part S)) \<and>
     (\<forall>s \<in> set (admin_part S). sr_external s \<notin> au_code ` set old \<and> 1 \<le> sr_level s) \<and>
     (\<forall>s \<in> set (admin_part S). \<forall>c. sr_parent s = Some c \<longrightarrow>
        (\<exists>q \<in> set (admin_part S). sr_external q = c \<and> sr_level q < sr_level s \<and> sr_area q = sr_area s))"

definition parent_unit :: "admin_unit list \<Rightarrow> source_record \<Rightarrow> admin_unit option" where
  "parent_unit new s =
     (case sr_parent s of None \<Rightarrow> None | Some c \<Rightarrow> find (\<lambda>u. au_code u = c) new)"

text \<open>
  The units created so far, for the levels up to \<open>l\<close>: one per record of those levels, carrying
  its data, with the identity of the unit of its parent as parent.
\<close>

definition unit_of :: "env \<Rightarrow> admin_unit list \<Rightarrow> source_record \<Rightarrow> admin_unit \<Rightarrow> bool" where
  "unit_of E new s u \<longleftrightarrow>
     u = promoted_unit E (au_id u) s (parent_unit new s) \<and> (sr_parent s \<noteq> None \<longrightarrow> parent_unit new s \<noteq> None)"

definition promoted :: "env \<Rightarrow> source_record list \<Rightarrow> int \<Rightarrow> nat \<Rightarrow> admin_unit list \<Rightarrow> bool" where
  "promoted E S l n new \<longleftrightarrow>
     mset (map au_code new) = mset (map sr_external (filter (\<lambda>s. sr_level s \<le> l) (admin_part S))) \<and>
     map au_id new = map (e_unit_id E) [n..<n + length new] \<and>
     (\<forall>u \<in> set new. \<exists>s \<in> set (admin_part S). sr_level s \<le> l \<and> unit_of E new s u)"

lemma promoted_codes:
  assumes "promoted E S l n new"
  shows "au_code ` set new = sr_external ` {s \<in> set (admin_part S). sr_level s \<le> l}"
proof -
  from assms have "set (map au_code new) = set (map sr_external (filter (\<lambda>s. sr_level s \<le> l) (admin_part S)))"
    unfolding promoted_def by (metis set_mset_mset)
  then show ?thesis by simp
qed

lemma promoted_distinct:
  assumes "promoted E S l n new" "distinct (map sr_external (admin_part S))"
  shows "distinct (map au_code new)"
proof -
  have "distinct (map sr_external (filter (\<lambda>s. sr_level s \<le> l) (admin_part S)))"
    using assms(2) by (simp add: distinct_map_filter)
  then show ?thesis using assms(1) unfolding promoted_def by (metis mset_eq_imp_distinct_iff)
qed

lemma find_code:
  assumes "distinct (map au_code new)" "u \<in> set new"
  shows "find (\<lambda>v. au_code v = au_code u) new = Some u"
  using assms by (induction new) (auto simp: rev_image_eqI)

lemma filter_code:
  assumes "distinct (map au_code new)" "u \<in> set new"
  shows "filter (\<lambda>v. au_code v = au_code u) new = [u]"
  using assms
proof (induction new)
  case (Cons a new)
  show ?case
  proof (cases "a = u")
    case True
    with Cons.prems have "au_code v \<noteq> au_code u" if "v \<in> set new" for v
      using that by (metis distinct.simps(2) image_eqI list.set_map list.simps(9))
    with True show ?thesis by (simp add: filter_empty_conv)
  next
    case False
    with Cons.prems have "au_code a \<noteq> au_code u" "u \<in> set new" by (auto simp: image_iff)
    with Cons show ?thesis by simp
  qed
qed simp

lemma find_code_append:
  assumes "\<And>u. u \<in> set old \<Longrightarrow> au_code u \<noteq> c"
  shows "find (\<lambda>u. au_code u = c) (old @ new) = find (\<lambda>u. au_code u = c) new"
  using assms by (induction old) auto

lemma parent_unit_append:
  "parent_unit new s \<noteq> None \<or> sr_parent s = None \<Longrightarrow> parent_unit (new @ extra) s = parent_unit new s"
  by (auto simp: parent_unit_def find_append split: option.splits)

lemma unit_of_append: "unit_of E new s u \<Longrightarrow> unit_of E (new @ extra) s u"
  unfolding unit_of_def using parent_unit_append [of new s extra] by auto

lemma join_parents_single:
  assumes ok: "records_ok old S" and inv: "promoted E S (l - 1) n new"
    and s: "s \<in> set (admin_part S)" "sr_level s = l" and u: "administrative_units d = old @ new"
  shows "join_parents d s = [parent_unit new s] \<and> (sr_parent s \<noteq> None \<longrightarrow> parent_unit new s \<noteq> None)"
proof (cases "sr_parent s")
  case None
  then show ?thesis by (simp add: join_parents_def parent_unit_def)
next
  case (Some c)
  with ok s obtain q where q: "q \<in> set (admin_part S)" "sr_external q = c" "sr_level q \<le> l - 1"
    unfolding records_ok_def by fastforce
  then have "c \<in> au_code ` set new" unfolding promoted_codes [OF inv] by auto
  then obtain p where p: "p \<in> set new" "au_code p = c" by auto
  have d: "distinct (map au_code new)"
    using promoted_distinct [OF inv] ok by (simp add: records_ok_def)
  have "c \<notin> au_code ` set old" using ok q(1,2) unfolding records_ok_def by blast
  then have "filter (\<lambda>v. au_code v = c) old = []"
    unfolding filter_empty_conv by (metis imageI)
  then have "filter (\<lambda>v. Some (au_code v) = sr_parent s) (old @ new) = [p]"
    using filter_code [OF d p(1)] p Some by simp
  moreover have "parent_unit new s = Some p"
    using find_code [OF d p(1)] p Some by (simp add: parent_unit_def)
  ultimately show ?thesis by (simp add: join_parents_def u)
qed

lemma mset_filter_level:
  "mset (map f (filter (\<lambda>s. g s \<le> (l :: int)) xs)) =
   mset (map f (filter (\<lambda>s. g s \<le> l - 1) xs)) + mset (map f (filter (\<lambda>s. g s = l) xs))"
  by (induction xs) auto

lemma promote_step:
  assumes srv: "server_ok E d0" and ok: "records_ok old S" and inv: "promoted E S (l - 1) (length old) new"
    and u: "administrative_units d = old @ new" and l: "l < 4"
    and S: "filter (\<lambda>r. sr_source r \<in> set ids) (source_records d) = S"
  shows "\<exists>extra. administrative_units (promote E ids l d) = old @ new @ extra \<and>
           promoted E S l (length old) (new @ extra)"
proof -
  define R where "R = e_order E (filter (\<lambda>s. sr_level s = l) (admin_part S))"
  have lvl: "filter (\<lambda>r. sr_source r \<in> set ids \<and> sr_level r = l) (source_records d) =
      filter (\<lambda>s. sr_level s = l) (admin_part S)"
    using l unfolding S [symmetric] admin_part_def by (auto intro!: filter_cong)
  have setR: "set R = {s \<in> set (admin_part S). sr_level s = l}"
    unfolding R_def order_set [OF srv] by auto
  have "promote_rows E ids l d = concat (map (\<lambda>r. map (Pair r) (join_parents d r)) R)"
    by (simp add: promote_rows_def lvl R_def)
  also have "\<dots> = concat (map (\<lambda>r. [(r, parent_unit new r)]) R)"
    by (intro arg_cong [of _ _ concat] map_cong refl) (use join_parents_single [OF ok inv _ _ u] setR in simp)
  finally have rows: "promote_rows E ids l d = map (\<lambda>r. (r, parent_unit new r)) R" by simp
  define extra where "extra = map (\<lambda>(i, (r, p)). promoted_unit E (e_unit_id E i) r p)
      (enumerate (length (old @ new)) (map (\<lambda>r. (r, parent_unit new r)) R))"
  have units: "administrative_units (promote E ids l d) = old @ new @ extra"
    by (simp add: promote_def u rows extra_def)
  have nth: "extra ! i = promoted_unit E (e_unit_id E (length old + length new + i)) (R ! i) (parent_unit new (R ! i))"
    if "i < length R" for i
    using that by (simp add: extra_def nth_enumerate_eq)
  have len: "length extra = length R" by (simp add: extra_def)
  have codes: "map au_code extra = map sr_external R"
    by (rule nth_equalityI) (simp_all add: len nth promoted_unit_def)
  have ids: "map au_id extra = map (e_unit_id E) [length old + length new..<length old + length new + length extra]"
    by (rule nth_equalityI) (simp_all add: len nth promoted_unit_def)
  have "mset R = mset (filter (\<lambda>s. sr_level s = l) (admin_part S))"
    using srv unfolding server_ok_def R_def by blast
  then have "mset (map sr_external R) = mset (map sr_external (filter (\<lambda>s. sr_level s = l) (admin_part S)))"
    by (simp add: mset_map)
  with inv have msets: "mset (map au_code (new @ extra)) =
      mset (map sr_external (filter (\<lambda>s. sr_level s \<le> l) (admin_part S)))"
    unfolding mset_filter_level [of sr_external sr_level l] by (simp add: promoted_def codes)
  have "\<exists>s \<in> set (admin_part S). sr_level s \<le> l \<and> unit_of E (new @ extra) s v" if "v \<in> set (new @ extra)" for v
  proof (cases "v \<in> set new")
    case True
    with inv obtain s where "s \<in> set (admin_part S)" "sr_level s \<le> l - 1" "unit_of E new s v"
      unfolding promoted_def by blast
    then show ?thesis by (intro bexI [of _ s]) (simp_all add: unit_of_append)
  next
    case False
    with that obtain i where i: "i < length R" "v = extra ! i"
      by (auto simp: in_set_conv_nth len)
    then have s: "R ! i \<in> set (admin_part S)" "sr_level (R ! i) = l"
      using setR nth_mem [of i R] by auto
    have "unit_of E new (R ! i) v"
      unfolding unit_of_def using i nth [OF i(1)] join_parents_single [OF ok inv s u]
      by (simp add: promoted_unit_def)
    with s show ?thesis by (intro bexI [of _ "R ! i"]) (simp_all add: unit_of_append)
  qed
  moreover have "map au_id (new @ extra) = map (e_unit_id E) [length old..<length old + length (new @ extra)]"
    using inv ids upt_add_eq_append [of "length old" "length old + length new" "length extra"]
    by (simp add: promoted_def add.assoc)
  ultimately have "promoted E S l (length old) (new @ extra)"
    unfolding promoted_def using msets by blast
  with units show ?thesis by blast
qed

lemma promote_levels_ok:
  assumes srv: "server_ok E d0" and ok: "records_ok old S"
    and u: "administrative_units d = old @ new"
    and S: "filter (\<lambda>r. sr_source r \<in> set ids) (source_records d) = S"
  shows "promote_levels E ids (map int [l..<4]) d = Inr d' \<Longrightarrow> promoted E S (int l - 1) (length old) new \<Longrightarrow>
     l \<le> 4 \<Longrightarrow>
     \<exists>new'. d' = d\<lparr>administrative_units := old @ new'\<rparr> \<and> promoted E S 3 (length old) new'"
  using u S
proof (induction "4 - l" arbitrary: l d new)
  case 0
  then have "l = 4" by simp
  with 0 show ?case by (cases d) (auto intro!: exI [of _ new])
next
  case (Suc k)
  then have l: "l < 4" "[l..<4] = l # [Suc l..<4]" by (auto simp: upt_conv_Cons)
  let ?d = "promote E ids (int l) d"
  from Suc.prems(1) have rest: "promote_levels E ids (map int [Suc l..<4]) ?d = Inr d'"
    unfolding l(2) by (auto split: if_splits)
  obtain extra where extra: "administrative_units ?d = old @ new @ extra"
      "promoted E S (int l) (length old) (new @ extra)"
    using promote_step [OF srv ok Suc.prems(2,4) _ Suc.prems(5)] l(1) by auto
  have keep: "filter (\<lambda>r. sr_source r \<in> set ids) (source_records ?d) = S"
    using Suc.prems(5) by (simp add: promote_def)
  obtain new' where "d' = ?d\<lparr>administrative_units := old @ new'\<rparr>" "promoted E S 3 (length old) new'"
  proof -
    have "k = 4 - Suc l" "int (Suc l) - 1 = int l" "Suc l \<le> 4" using Suc.hyps(2) l(1) by auto
    then show thesis
      using Suc.hyps(1) [OF _ rest _ _ extra(1) keep] extra(2) that by auto
  qed
  then show ?case by (intro exI [of _ new']) (simp add: promote_def)
qed

lemma promoted_none:
  assumes "records_ok old S" shows "promoted E S 0 n []"
proof -
  have "filter (\<lambda>s. sr_level s \<le> 0) (admin_part S) = []"
    using assms by (force simp: records_ok_def filter_empty_conv)
  then show ?thesis by (simp add: promoted_def)
qed

lemma promote_all:
  assumes srv: "server_ok E d0" and ok: "records_ok old S" and u: "administrative_units d = old"
    and S: "filter (\<lambda>r. sr_source r \<in> set ids) (source_records d) = S"
    and run: "promote_levels E ids [1, 2, 3] d = Inr d'"
  obtains new where "d' = d\<lparr>administrative_units := old @ new\<rparr>" "promoted E S 3 (length old) new"
proof -
  have "[1, 2, 3] = map int [1..<4]" by (simp add: upt_conv_Cons)
  then show thesis
    using promote_levels_ok [OF srv ok, of d "[]" ids 1 d'] u S run promoted_none [OF ok] that by auto
qed

section \<open>The staged records\<close>

lemma read_inputs_Inr:
  "read_inputs E specs = Inr inputs \<Longrightarrow>
     map i_snapshot inputs = specs \<and> (\<forall>inp \<in> set inputs. input_ok (e_uni E) inp)"
  by (induction specs arbitrary: inputs) (auto dest!: readInput_Inr)

lemma map_snd_tagged:
  "length sids = length inputs \<Longrightarrow> map snd (tagged_rows sids inputs) = concat (map i_rows inputs)"
  by (induction sids inputs rule: list_induct2) (simp_all add: tagged_rows_def comp_def)

lemma fst_tagged: "t \<in> set (tagged_rows sids inputs) \<Longrightarrow> fst t \<in> set sids"
  by (auto simp: tagged_rows_def dest: set_zip_leftD)

lemma list_all2_filter:
  "list_all2 P xs ys \<Longrightarrow> (\<And>x y. P x y \<Longrightarrow> f x = g y) \<Longrightarrow> list_all2 P (filter f xs) (filter g ys)"
  by (induction rule: list_all2_induct) auto

lemma list_all2_ex_left: "list_all2 P xs ys \<Longrightarrow> y \<in> set ys \<Longrightarrow> \<exists>x \<in> set xs. P x y"
  by (induction rule: list_all2_induct) auto

lemma list_all2_ex_right: "list_all2 P xs ys \<Longrightarrow> x \<in> set xs \<Longrightarrow> \<exists>y \<in> set ys. P x y"
  by (induction rule: list_all2_induct) auto

lemma staged_as_fields:
  "staged_as t s \<Longrightarrow> sr_source s = fst t \<and> sr_external s = r_code (snd t) \<and> sr_level s = r_level (snd t) \<and>
     sr_area s = r_area (snd t) \<and> sr_status s = r_status (snd t) \<and> sr_canonical s = None \<and>
     sr_parent s = (if r_parent (snd t) = [] then None else Some (r_parent (snd t)))"
  by (cases s) (auto simp: staged_as_def staged_row_def)

lemma admin_rows_lt4:
  assumes "\<forall>inp \<in> set inputs. input_ok uni inp"
  shows "admin_rows inputs = filter (\<lambda>r. r_level r < 4) (concat (map i_rows inputs))"
proof -
  have "r_level r \<noteq> 4 \<longleftrightarrow> r_level r < 4" if "r \<in> set (concat (map i_rows inputs))" for r
  proof -
    from that assms have "row_ok uni r" by (auto simp: input_ok_def)
    then show ?thesis by (auto simp: row_ok_def)
  qed
  then show ?thesis unfolding admin_rows_def by (rule filter_cong [OF refl])
qed

lemma admin_part_staged:
  assumes "list_all2 staged_as (tagged_rows sids inputs) S"
  shows "list_all2 staged_as (filter (\<lambda>t. r_level (snd t) < 4) (tagged_rows sids inputs)) (admin_part S)"
  unfolding admin_part_def using assms by (rule list_all2_filter) (auto dest: staged_as_fields)

lemma snd_admin_tagged:
  assumes "length sids = length inputs" "\<forall>inp \<in> set inputs. input_ok uni inp"
  shows "map snd (filter (\<lambda>t. r_level (snd t) < 4) (tagged_rows sids inputs)) = admin_rows inputs"
  unfolding admin_rows_lt4 [OF assms(2)] map_snd_tagged [OF assms(1), symmetric] filter_map by (simp add: comp_def)

lemma codes_staged:
  assumes "list_all2 staged_as (tagged_rows sids inputs) S" "length sids = length inputs"
    "\<forall>inp \<in> set inputs. input_ok uni inp"
  shows "map sr_external (admin_part S) = map r_code (admin_rows inputs)"
  using list_all2_map_eq [OF admin_part_staged [OF assms(1)], of "r_code \<circ> snd" sr_external] staged_as_fields
  by (simp flip: snd_admin_tagged [OF assms(2,3)])

lemma tagged_level:
  assumes "t \<in> set (tagged_rows sids inputs)" "\<forall>inp \<in> set inputs. input_ok uni inp"
  shows "r_level (snd t) \<le> 4"
proof -
  from assms obtain inp where "inp \<in> set inputs" "snd t \<in> set (i_rows inp)"
    by (auto simp: tagged_rows_def dest: set_zip_rightD)
  with assms(2) have "row_ok uni (snd t)" by (auto simp: input_ok_def)
  then show ?thesis by (auto simp: row_ok_def)
qed

lemma staged_records_ok:
  assumes st: "list_all2 staged_as (tagged_rows sids inputs) S" and len: "length sids = length inputs"
    and ok: "\<forall>inp \<in> set inputs. input_ok uni inp"
    and d: "distinct (map r_code (admin_rows inputs))" and h: "hierarchy_ok (admin_rows inputs)"
    and new: "\<forall>r \<in> set (admin_rows inputs). r_code r \<notin> au_code ` set old"
  shows "records_ok old S"
proof -
  let ?T = "filter (\<lambda>t. r_level (snd t) < 4) (tagged_rows sids inputs)"
  have all: "list_all2 staged_as ?T (admin_part S)" by (rule admin_part_staged [OF st])
  note codes = codes_staged [OF st len ok]
  have rows: "set (admin_rows inputs) = snd ` set ?T"
    unfolding snd_admin_tagged [OF len ok, symmetric] by simp
  note to_row = list_all2_ex_left [OF all] and to_rec = list_all2_ex_right [OF all]
  show ?thesis
    unfolding records_ok_def
  proof (intro conjI ballI allI impI)
    show "distinct (map sr_external (admin_part S))" using d by (simp only: codes)
  next
    fix s assume "s \<in> set (admin_part S)"
    then obtain t where t: "t \<in> set ?T" "staged_as t s" using to_row by blast
    then have r: "snd t \<in> set (admin_rows inputs)" using rows by blast
    from r new t(2) show "sr_external s \<notin> au_code ` set old" by (simp add: staged_as_fields)
    from admin_row_ok [OF ok r] t(2) show "1 \<le> sr_level s" by (simp add: staged_as_fields)
    fix c assume "sr_parent s = Some c"
    with t(2) have "r_parent (snd t) = c" "c \<noteq> []" by (auto simp: staged_as_fields split: if_splits)
    with h r obtain p where p: "p \<in> set (admin_rows inputs)" "r_code p = c" "r_area p = r_area (snd t)"
      "r_level p < r_level (snd t)"
      unfolding hierarchy_ok_def by metis
    from p(1) obtain t' where t': "t' \<in> set ?T" "snd t' = p" unfolding rows by blast
    from to_rec [OF t'(1)] obtain q where "q \<in> set (admin_part S)" "staged_as t' q" by (rule bexE)
    with p t(2) t'(2) show "\<exists>q \<in> set (admin_part S). sr_external q = c \<and> sr_level q < sr_level s \<and> sr_area q = sr_area s"
      by (intro bexI [of _ q]) (simp_all add: staged_as_fields)
  qed
qed

section \<open>What an import leaves\<close>

text \<open>
  The specification, over the rows of the input files. \<open>unit_for\<close>: the unit created for a row,
  with the identity of its parent's unit; \<open>record_for\<close>: the row's source record at the end.
\<close>

definition parent_id :: "admin_unit list \<Rightarrow> bytes \<Rightarrow> int option" where
  "parent_id units c = (if c = [] then None else map_option au_id (find (\<lambda>u. au_code u = c) units))"

definition unit_for :: "env \<Rightarrow> admin_unit list \<Rightarrow> int \<times> source_row \<Rightarrow> admin_unit \<Rightarrow> bool" where
  "unit_for E units t u \<longleftrightarrow>
     au_code u = r_code (snd t) \<and> au_name u = e_trim E (r_name (snd t)) \<and>
     au_normalized u = e_normalize E (r_name (snd t)) \<and>
     au_type u = (if r_kind (snd t) = [] then None else Some (r_kind (snd t))) \<and>
     au_level u = r_level (snd t) \<and> au_source u = fst t \<and>
     au_status u = (if r_area (snd t) = 2 then ''ACTIVE'' else ''INACTIVE'') \<and>
     au_parent u = parent_id units (r_parent (snd t)) \<and>
     (r_parent (snd t) \<noteq> [] \<longrightarrow> (\<exists>p \<in> set units. au_code p = r_parent (snd t) \<and> au_parent u = Some (au_id p)))"

definition record_for :: "admin_unit list \<Rightarrow> int \<times> source_row \<Rightarrow> source_record \<Rightarrow> bool" where
  "record_for units t s \<longleftrightarrow>
     (let r = snd t; staged = staged_row (sr_id s) (fst t) r in
      if r_level r < 4
      then (\<exists>u \<in> set units. au_code u = r_code r \<and>
              s = staged\<lparr>sr_canonical := Some (au_id u), sr_status := ''LINKED''\<rparr>)
      else s = staged\<lparr>sr_status := (if r_status r = ''STAGED'' then ''UNRESOLVED'' else r_status r)\<rparr>)"

definition reference_for :: "data_source list \<Rightarrow> source_record \<Rightarrow> external_reference list" where
  "reference_for sources s =
     map (\<lambda>src. \<lparr>er_source = sr_source s, er_admin_unit = sr_canonical s, er_type = ''ADMIN_UNIT'',
                 er_external = sr_external s, er_version = ds_version src\<rparr>)
       (filter (\<lambda>src. ds_id src = sr_source s) sources)"

definition event_for :: "source_record \<Rightarrow> outbox_event" where
  "event_for s =
     \<lparr>ob_type = ''administrative_unit.upserted'', ob_aggregate = ''ADMINISTRATIVE_UNIT'',
      ob_aggregate_id = sr_canonical s, ob_revision = 1, ob_unit_code = sr_external s\<rparr>"

definition imported :: "env \<Rightarrow> input list \<Rightarrow> db \<Rightarrow> db \<Rightarrow> bool" where
  "imported E inputs d d' \<longleftrightarrow>
     (\<exists>sids sources units recs.
        length sids = length inputs \<and> distinct sids \<and> set sids \<inter> ds_id ` set (data_sources d) = {} \<and>
        sources = map (\<lambda>(sid, inp). source_entry sid inp) (zip sids inputs) \<and>
        distinct (map au_id units) \<and> set (map au_id units) \<inter> au_id ` set (administrative_units d) = {} \<and>
        mset (map au_code units) = mset (map r_code (admin_rows inputs)) \<and>
        (\<forall>u \<in> set units. \<exists>t \<in> set (tagged_rows sids inputs). r_level (snd t) < 4 \<and> unit_for E units t u) \<and>
        list_all2 (record_for units) (tagged_rows sids inputs) recs \<and>
        d' = d\<lparr>data_sources := data_sources d @ sources,
               source_records := source_records d @ recs,
               administrative_units := administrative_units d @ units,
               external_references := external_references d @
                 concat (map (reference_for sources) (admin_part recs)),
               outbox_events := outbox_events d @ map event_for (admin_part recs)\<rparr>)"

lemma promoted_units_for:
  assumes ok: "records_ok old S" and pr: "promoted E S 3 n units"
    and st: "list_all2 staged_as (tagged_rows sids inputs) S" and u: "u \<in> set units"
  shows "\<exists>t \<in> set (tagged_rows sids inputs). r_level (snd t) < 4 \<and> unit_for E units t u"
proof -
  from pr u obtain s where s: "s \<in> set (admin_part S)" "unit_of E units s u"
    unfolding promoted_def by blast
  from list_all2_ex_left [OF admin_part_staged [OF st] s(1)]
  obtain t where t: "t \<in> set (tagged_rows sids inputs)" "r_level (snd t) < 4" "staged_as t s" by auto
  have par: "parent_unit units s = (if r_parent (snd t) = [] then None
      else find (\<lambda>v. au_code v = r_parent (snd t)) units)"
    using staged_as_fields [OF t(3)] by (simp add: parent_unit_def)
  have u_eq: "u = promoted_unit E (au_id u) s (parent_unit units s)"
    and some: "sr_parent s \<noteq> None \<Longrightarrow> parent_unit units s \<noteq> None"
    using s(2) unfolding unit_of_def by blast+
  have s_eq: "s = staged_row (sr_id s) (fst t) (snd t)" using t(3) by (simp add: staged_as_def)
  have "au_parent u = map_option au_id (parent_unit units s)"
    by (subst u_eq) (simp add: promoted_unit_def)
  then have p: "au_parent u = parent_id units (r_parent (snd t))" by (simp add: par parent_id_def)
  have "\<exists>p \<in> set units. au_code p = r_parent (snd t) \<and> au_parent u = Some (au_id p)" if "r_parent (snd t) \<noteq> []"
  proof -
    from that some staged_as_fields [OF t(3)] obtain p where "parent_unit units s = Some p" by fastforce
    with that par have "find (\<lambda>v. au_code v = r_parent (snd t)) units = Some p" by simp
    moreover from this have "p \<in> set units" "au_code p = r_parent (snd t)" by (auto simp: find_Some_iff)
    ultimately show ?thesis using that p by (auto simp: parent_id_def)
  qed
  moreover have "au_code u = sr_external s" "au_name u = e_trim E (sr_name s)"
    "au_normalized u = e_normalize E (sr_name s)" "au_type u = sr_unit_type s" "au_level u = sr_level s"
    "au_source u = sr_source s" "au_status u = (if sr_area s = 2 then ''ACTIVE'' else ''INACTIVE'')"
    by (subst u_eq, simp add: promoted_unit_def)+
  moreover have "sr_name s = r_name (snd t)"
    "sr_unit_type s = (if r_kind (snd t) = [] then None else Some (r_kind (snd t)))"
    by (subst s_eq, simp add: staged_row_def)+
  ultimately have "unit_for E units t u"
    using p staged_as_fields [OF t(3)] unfolding unit_for_def by simp
  with t show ?thesis by blast
qed

lemma linked_record_for:
  assumes ok: "records_ok old S" and pr: "promoted E S 3 n units" and st: "staged_as t s"
    and s: "s \<in> set S" "sr_source s \<in> set ids"
    and st0: "r_level (snd t) \<le> 4"
  shows "record_for units t (hold_record ids (link_record ids (old @ units) s))"
proof (cases "r_level (snd t) < 4")
  case True
  with st have lv: "sr_level s < 4" by (simp add: staged_as_fields)
  with s have part: "s \<in> set (admin_part S)" by (simp add: admin_part_def)
  with lv have "sr_external s \<in> au_code ` set units" unfolding promoted_codes [OF pr] by auto
  then obtain u where u: "u \<in> set units" "au_code u = sr_external s" by auto
  have "distinct (map au_code units)"
    using promoted_distinct [OF pr] ok by (simp add: records_ok_def)
  from find_code [OF this u(1)] u(2) have "find (\<lambda>v. au_code v = sr_external s) units = Some u" by simp
  moreover have "find (\<lambda>v. au_code v = sr_external s) (old @ units) = find (\<lambda>v. au_code v = sr_external s) units"
  proof (rule find_code_append)
    fix v assume "v \<in> set old"
    moreover have "sr_external s \<notin> au_code ` set old" using ok part unfolding records_ok_def by blast
    ultimately show "au_code v \<noteq> sr_external s" by (metis imageI)
  qed
  ultimately have "hold_record ids (link_record ids (old @ units) s) =
      s\<lparr>sr_canonical := Some (au_id u), sr_status := ''LINKED''\<rparr>"
    using lv s by (simp add: link_record_def hold_record_def)
  moreover have "s = staged_row (sr_id s) (fst t) (snd t)" using st by (simp add: staged_as_def)
  ultimately show ?thesis
    using True u st unfolding record_for_def Let_def
    by (auto simp: staged_as_fields intro!: bexI [of _ u])
next
  case False
  with st st0 have lv: "sr_level s = 4" by (simp add: staged_as_fields)
  have "s = staged_row (sr_id s) (fst t) (snd t)" using st by (simp add: staged_as_def)
  with False lv s staged_as_fields [OF st] show ?thesis
    by (cases s) (auto simp: record_for_def link_record_def hold_record_def staged_row_def)
qed

lemma admin_part_linked:
  "admin_part (map (hold_record ids \<circ> link_record ids us) S) =
   map (hold_record ids \<circ> link_record ids us) (admin_part S)"
  by (induction S) (auto simp: admin_part_def hold_record_def link_record_def split: option.splits)

lemma linked_fields [simp]:
  "sr_source (link_record ids us s) = sr_source s" "sr_level (link_record ids us s) = sr_level s"
  "sr_source (hold_record ids s) = sr_source s" "sr_level (hold_record ids s) = sr_level s"
  by (auto simp: hold_record_def link_record_def split: option.splits)

lemma unlinked:
  "sr_source s \<notin> set ids \<Longrightarrow> hold_record ids (link_record ids us s) = s"
  by (simp add: hold_record_def link_record_def)

lemma references_disjoint:
  assumes "sr_source s \<notin> ds_id ` set old"
  shows "filter (\<lambda>x. ds_id x = sr_source s) (old @ new) = filter (\<lambda>x. ds_id x = sr_source s) new"
proof -
  have "filter (\<lambda>x. ds_id x = sr_source s) old = []"
    unfolding filter_empty_conv using assms by (metis imageI)
  then show ?thesis by simp
qed

lemma fresh_source_ids:
  assumes "server_ok E d"
  shows "distinct (map (e_source_id E) [a..<b]) \<and>
    set (map (e_source_id E) [a..<b]) \<inter> ds_id ` set (data_sources d) = {}"
  using assms unfolding server_ok_def by (auto simp: distinct_map intro: inj_on_subset)

lemma fresh_unit_ids:
  assumes "server_ok E d" "map au_id units = map (e_unit_id E) [a..<b]"
  shows "distinct (map au_id units) \<and> set (map au_id units) \<inter> au_id ` set (administrative_units d) = {}"
  unfolding assms(2) using assms(1) unfolding server_ok_def by (auto simp: distinct_map intro: inj_on_subset)

lemma import_writes_Inr:
  assumes "import_writes E inputs d = Inr d'"
  obtains ids d1 d2 where "stage E inputs ([], d) = Inr (ids, d1)"
    "promote_levels E ids [1, 2, 3] d1 = Inr d2"
    "d' = insert_outbox ids (insert_references ids (hold_records ids (link_records ids d2)))"
  using assms by (auto simp: import_writes_def)

lemma final_writes:
  assumes recs: "source_records d = old @ S" and S: "\<forall>s \<in> set S. sr_source s \<in> set ids"
    and old: "\<forall>s \<in> set old. sr_source s \<notin> set ids"
    and src: "data_sources d = olds @ sources" and ids: "set ids \<inter> ds_id ` set olds = {}"
    and T: "T = map (hold_record ids \<circ> link_record ids (administrative_units d)) S"
  shows "insert_outbox ids (insert_references ids (hold_records ids (link_records ids d))) =
    d\<lparr>source_records := old @ T,
      external_references := external_references d @ concat (map (reference_for sources) (admin_part T)),
      outbox_events := outbox_events d @ map event_for (admin_part T)\<rparr>"
proof -
  let ?f = "hold_record ids \<circ> link_record ids (administrative_units d)"
  have "map ?f old = old" using old by (simp add: unlinked map_idI)
  then have rs: "map (hold_record ids) (map (link_record ids (administrative_units d)) (source_records d)) = old @ T"
    by (simp add: recs T)
  have "filter (\<lambda>r. sr_source r \<in> set ids \<and> sr_level r < 4) old = []"
    using old by (simp add: filter_empty_conv)
  moreover have "filter (\<lambda>r. sr_source r \<in> set ids \<and> sr_level r < 4) T = admin_part T"
    unfolding admin_part_def using S by (auto simp: T intro!: filter_cong)
  ultimately have adm: "filter (\<lambda>r. sr_source r \<in> set ids \<and> sr_level r < 4) (old @ T) = admin_part T" by simp
  have "\<forall>s \<in> set T. sr_source s \<notin> ds_id ` set olds" using S ids by (auto simp: T)
  then have ref: "map (\<lambda>r. map (\<lambda>s. \<lparr>er_source = sr_source r, er_admin_unit = sr_canonical r,
      er_type = ''ADMIN_UNIT'', er_external = sr_external r, er_version = ds_version s\<rparr>)
      (filter (\<lambda>s. ds_id s = sr_source r) (olds @ sources))) (admin_part T) =
    map (reference_for sources) (admin_part T)"
    unfolding reference_for_def admin_part_def
    by (intro map_cong refl arg_cong2 [of _ _ _ _ map] references_disjoint) simp
  show ?thesis
    using rs adm ref src
    by (simp add: insert_outbox_def insert_references_def hold_records_def link_records_def
        admin_records_def event_for_def comp_def cong: map_cong)
qed

lemma import_writes_imported:
  assumes srv: "server_ok E d" and ok: "\<forall>inp \<in> set inputs. input_ok uni inp"
    and di: "distinct (map r_code (admin_rows inputs))" and h: "hierarchy_ok (admin_rows inputs)"
    and new: "\<forall>r \<in> set (admin_rows inputs). r_code r \<notin> au_code ` set (administrative_units d)"
    and run: "import_writes E inputs d = Inr d'"
  shows "imported E inputs d d'"
proof -
  let ?old = "administrative_units d"
  obtain ids d1 d2 where step: "stage E inputs ([], d) = Inr (ids, d1)"
    "promote_levels E ids [1, 2, 3] d1 = Inr d2"
    and d': "d' = insert_outbox ids (insert_references ids (hold_records ids (link_records ids d2)))"
    using run by (rule import_writes_Inr)
  from stage_Inr [OF step(1)] obtain S where
    ids: "ids = map (e_source_id E) [length (data_sources d)..<length (data_sources d) + length inputs]"
    and d1: "data_sources d1 = data_sources d @ map (\<lambda>(sid, inp). source_entry sid inp) (zip ids inputs)"
      "source_records d1 = source_records d @ S" "administrative_units d1 = ?old"
      "goose_versions d1 = goose_versions d" "external_references d1 = external_references d"
      "outbox_events d1 = outbox_events d"
    and st: "list_all2 staged_as (tagged_rows ids inputs) S"
    by auto
  have len: "length ids = length inputs" by (simp add: ids)
  have fresh: "distinct ids" "set ids \<inter> ds_id ` set (data_sources d) = {}"
    using fresh_source_ids [OF srv] unfolding ids by blast+
  have S_ids: "\<forall>s \<in> set S. sr_source s \<in> set ids"
    using list_all2_ex_left [OF st] by (metis staged_as_fields fst_tagged)
  have old_ids: "\<forall>s \<in> set (source_records d). sr_source s \<notin> set ids"
    using srv fresh(2) unfolding server_ok_def by blast
  have rok: "records_ok ?old S" by (rule staged_records_ok [OF st len ok di h new])
  have "filter (\<lambda>r. sr_source r \<in> set ids) (source_records d1) = S"
    using S_ids old_ids by (simp add: d1(2) filter_empty_conv filter_id_conv)
  from promote_all [OF srv rok d1(3) this step(2)] obtain units where
    d2: "d2 = d1\<lparr>administrative_units := ?old @ units\<rparr>" and pr: "promoted E S 3 (length ?old) units"
    by blast
  define T where "T = map (hold_record ids \<circ> link_record ids (?old @ units)) S"
  have recs: "list_all2 (record_for units) (tagged_rows ids inputs) T"
    unfolding T_def list_all2_map2
    by (rule list.rel_mono_strong [OF st], unfold comp_def)
      (rule linked_record_for [OF rok pr], simp_all add: S_ids tagged_level [OF _ ok])
  have "filter (\<lambda>s. sr_level s \<le> 3) (admin_part S) = admin_part S"
    by (auto simp: admin_part_def intro!: filter_cong)
  then have codes: "mset (map au_code units) = mset (map r_code (admin_rows inputs))"
    using pr codes_staged [OF st len ok] unfolding promoted_def by simp
  have "d' = d2\<lparr>source_records := source_records d @ T,
      external_references := external_references d2 @
        concat (map (reference_for (map (\<lambda>(sid, inp). source_entry sid inp) (zip ids inputs))) (admin_part T)),
      outbox_events := outbox_events d2 @ map event_for (admin_part T)\<rparr>"
    unfolding d' by (rule final_writes [OF _ S_ids old_ids _ fresh(2)]) (simp_all add: d2 d1 T_def)
  then have "d' = d\<lparr>data_sources := data_sources d @ map (\<lambda>(sid, inp). source_entry sid inp) (zip ids inputs),
      source_records := source_records d @ T, administrative_units := ?old @ units,
      external_references := external_references d @
        concat (map (reference_for (map (\<lambda>(sid, inp). source_entry sid inp) (zip ids inputs))) (admin_part T)),
      outbox_events := outbox_events d @ map event_for (admin_part T)\<rparr>"
    using d1 by (simp add: d2 db.equality)
  moreover have "distinct (map au_id units)" "set (map au_id units) \<inter> au_id ` set ?old = {}"
    using fresh_unit_ids [OF srv] pr unfolding promoted_def by blast+
  moreover note len fresh recs codes
  moreover have "\<forall>u \<in> set units. \<exists>t \<in> set (tagged_rows ids inputs). r_level (snd t) < 4 \<and> unit_for E units t u"
    using promoted_units_for [OF rok pr st] by (rule ballI)
  ultimately show ?thesis
    unfolding imported_def by (intro exI conjI) (assumption | rule refl)+
qed

section \<open>A second run\<close>

lemma record_for_cases:
  assumes "record_for units t s"
  obtains (linked) rid u where "r_level (snd t) < 4" "u \<in> set units" "au_code u = r_code (snd t)"
      "s = (staged_row rid (fst t) (snd t))\<lparr>sr_canonical := Some (au_id u), sr_status := ''LINKED''\<rparr>"
    | (held) rid where "\<not> r_level (snd t) < 4" "s = (staged_row rid (fst t) (snd t))
        \<lparr>sr_status := (if r_status (snd t) = ''STAGED'' then ''UNRESOLVED'' else r_status (snd t))\<rparr>"
proof (cases "r_level (snd t) < 4")
  case True
  with assms linked show thesis unfolding record_for_def Let_def if_P [OF True] by blast
next
  case False
  with assms held show thesis unfolding record_for_def Let_def if_not_P [OF False] by blast
qed

lemma record_for_fields:
  assumes "record_for units t s"
  shows "sr_source s = fst t" "sr_level s = r_level (snd t)"
    "r_level (snd t) < 4 \<Longrightarrow> sr_status s = ''LINKED'' \<and> sr_canonical s \<noteq> None"
    "r_level (snd t) = 4 \<Longrightarrow> sr_status s = (if r_status (snd t) = ''STAGED'' then ''UNRESOLVED'' else r_status (snd t)) \<and>
       sr_canonical s = None"
  using assms by (cases rule: record_for_cases, simp_all add: staged_row_def)+

lemma filter_tagged:
  "length sids = length inputs \<Longrightarrow> distinct sids \<Longrightarrow> i < length sids \<Longrightarrow>
     filter (\<lambda>t. fst t = sids ! i) (tagged_rows sids inputs) = map (Pair (sids ! i)) (i_rows (inputs ! i))"
proof (induction sids inputs arbitrary: i rule: list_induct2)
  case (Cons a sids inp inputs)
  have split: "tagged_rows (a # sids) (inp # inputs) = map (Pair a) (i_rows inp) @ tagged_rows sids inputs"
    by (simp add: tagged_rows_def)
  show ?case
  proof (cases i)
    case 0
    have "filter (\<lambda>t. fst t = a) (tagged_rows sids inputs) = []"
      using Cons.prems(1) by (auto simp: filter_empty_conv dest: fst_tagged)
    then show ?thesis by (simp add: 0 split filter_id_conv)
  next
    case (Suc k)
    with Cons.prems have "sids ! k \<noteq> a" by (auto simp: in_set_conv_nth)
    then show ?thesis using Suc Cons by (simp add: split filter_empty_conv)
  qed
qed simp

lemma length_filter_list_all2:
  "list_all2 P xs ys \<Longrightarrow> (\<And>x y. x \<in> set xs \<Longrightarrow> P x y \<Longrightarrow> f x = g y) \<Longrightarrow>
     length (filter g ys) = length (filter f xs)"
  by (induction rule: list_all2_induct) auto

lemma find_source_entry:
  assumes "length sids = length inputs" "distinct (map (s_code \<circ> i_snapshot) inputs)" "i < length inputs"
  shows "find (\<lambda>x. ds_code x = s_code (i_snapshot (inputs ! i))) (map (\<lambda>(sid, inp). source_entry sid inp) (zip sids inputs)) =
     Some (source_entry (sids ! i) (inputs ! i))"
  using assms
proof (induction sids inputs arbitrary: i rule: list_induct2)
  case (Cons a sids inp inputs)
  show ?case
  proof (cases i)
    case 0
    then show ?thesis by (simp add: source_entry_def)
  next
    case (Suc k)
    with Cons.prems have "s_code (i_snapshot inp) \<noteq> s_code (i_snapshot (inputs ! k))"
      by (auto simp: image_iff)
    then show ?thesis using Suc Cons by (simp add: source_entry_def)
  qed
qed simp

lemma count_existing_zero:
  "count_existing E d inputs = Inr 0 \<Longrightarrow> inp \<in> set inputs \<Longrightarrow> existing_source d (s_code (i_snapshot inp)) = None"
  by (induction inputs) (auto split: option.splits if_splits prod.splits)

lemma count_existing_all:
  assumes "\<And>c. e_reject E (SelectExisting c) d = None"
    and "\<And>inp. inp \<in> set inputs \<Longrightarrow> existing_source d (s_code (i_snapshot inp)) =
       Some (i_hash inp, length (i_rows inp), length (filter (\<lambda>r. r_level r < 4) (i_rows inp)),
             length (filter (\<lambda>r. \<not> r_level r < 4) (i_rows inp)))"
  shows "count_existing E d inputs = Inr (length inputs)"
  using assms(2) by (induction inputs) (simp_all add: assms(1))

lemma existing_source_None: "existing_source d c = None \<longleftrightarrow> (\<forall>x \<in> set (data_sources d). ds_code x \<noteq> c)"
proof -
  have "existing_source d c = None \<longleftrightarrow> find (\<lambda>x. ds_code x = c) (data_sources d) = None"
    by (simp add: existing_source_def Let_def split: option.splits)
  then show ?thesis by (auto simp: find_None_iff)
qed

text \<open>What the records of one source count to.\<close>

lemma linked_count:
  assumes "list_all2 (record_for units) (map (Pair sid) rows) recs"
  shows "length (filter (\<lambda>r. sr_level r < 4 \<and> sr_status r = ''LINKED'' \<and> sr_canonical r \<noteq> None) recs) =
    length (filter (\<lambda>t. r_level (snd t) < 4) (map (Pair sid) rows))"
proof (rule length_filter_list_all2 [OF assms])
  fix t s assume rf: "record_for units t s"
  show "(r_level (snd t) < 4) = (sr_level s < 4 \<and> sr_status s = ''LINKED'' \<and> sr_canonical s \<noteq> None)"
    using record_for_fields(2,3) [OF rf] by auto
qed

lemma held_count:
  assumes "list_all2 (record_for units) (map (Pair sid) rows) recs" "\<And>r. r \<in> set rows \<Longrightarrow> row_ok uni r"
  shows "length (filter (\<lambda>r. sr_level r = 4 \<and> sr_status r \<in> {''UNRESOLVED'', ''INVALID''}) recs) =
    length (filter (\<lambda>t. \<not> r_level (snd t) < 4) (map (Pair sid) rows))"
proof (rule length_filter_list_all2 [OF assms(1)])
  fix t s assume "t \<in> set (map (Pair sid) rows)" and rf: "record_for units t s"
  then have "row_ok uni (snd t)" using assms(2) by auto
  then have "(\<not> r_level (snd t) < 4) = (r_level (snd t) = 4)" "r_status (snd t) \<in> {''STAGED'', ''INVALID''}"
    by (auto simp: row_ok_def)
  with record_for_fields [OF rf]
  show "(\<not> r_level (snd t) < 4) = (sr_level s = 4 \<and> sr_status s \<in> {''UNRESOLVED'', ''INVALID''})"
    by auto
qed

lemma existing_after:
  assumes srv: "server_ok E d" and ok: "\<forall>inp \<in> set inputs. input_ok uni inp"
    and di: "distinct (map (s_code \<circ> i_snapshot) inputs)" and imp: "imported E inputs d d'"
    and none: "\<forall>inp \<in> set inputs. existing_source d (s_code (i_snapshot inp)) = None"
    and inp: "inp \<in> set inputs"
  shows "existing_source d' (s_code (i_snapshot inp)) =
       Some (i_hash inp, length (i_rows inp), length (filter (\<lambda>r. r_level r < 4) (i_rows inp)),
             length (filter (\<lambda>r. \<not> r_level r < 4) (i_rows inp)))"
proof -
  from imp obtain sids units recs where sids: "length sids = length inputs" "distinct sids"
      "set sids \<inter> ds_id ` set (data_sources d) = {}"
    and recs: "list_all2 (record_for units) (tagged_rows sids inputs) recs"
    and d': "data_sources d' = data_sources d @ map (\<lambda>(sid, inp). source_entry sid inp) (zip sids inputs)"
      "source_records d' = source_records d @ recs"
    unfolding imported_def by auto
  from inp obtain i where i: "i < length inputs" "inp = inputs ! i" by (auto simp: in_set_conv_nth)
  let ?sid = "sids ! i" and ?src = "source_entry (sids ! i) inp" and ?c = "s_code (i_snapshot inp)"
  have "\<forall>x \<in> set (data_sources d). ds_code x \<noteq> ?c" using none inp by (simp add: existing_source_None)
  then have "find (\<lambda>x. ds_code x = ?c) (data_sources d) = None" by (auto simp: find_None_iff)
  then have found: "find (\<lambda>x. ds_code x = ?c) (data_sources d') = Some ?src"
    using find_source_entry [OF sids(1) di i(1)] i(2) by (simp add: d'(1) find_append)
  have "filter (\<lambda>r. sr_source r = ?sid) (source_records d) = []"
  proof -
    have "?sid \<in> set sids" using i sids(1) by simp
    then have "?sid \<notin> ds_id ` set (data_sources d)" using sids(3) by blast
    moreover have "\<forall>s \<in> set (source_records d). sr_source s \<in> ds_id ` set (data_sources d)"
      using srv by (simp add: server_ok_def)
    ultimately show ?thesis unfolding filter_empty_conv by metis
  qed
  then have rs: "filter (\<lambda>r. sr_source r = ?sid) (source_records d') = filter (\<lambda>r. sr_source r = ?sid) recs"
    by (simp add: d'(2))
  have "list_all2 (record_for units) (filter (\<lambda>t. fst t = ?sid) (tagged_rows sids inputs))
      (filter (\<lambda>r. sr_source r = ?sid) recs)"
    using recs by (rule list_all2_filter) (simp add: record_for_fields)
  then have all: "list_all2 (record_for units) (map (Pair ?sid) (i_rows inp)) (filter (\<lambda>r. sr_source r = ?sid) recs)"
    using filter_tagged [OF sids(1,2), of i] i sids(1) by simp
  have "row_ok uni r" if "r \<in> set (i_rows inp)" for r
    using ok inp that by (auto simp: input_ok_def)
  note counts = linked_count [OF all] held_count [OF all this]
  have len: "length (filter (\<lambda>r. sr_source r = ?sid) recs) = length (i_rows inp)"
    using list_all2_lengthD [OF all] by simp
  show ?thesis
    unfolding existing_source_def found using counts len
    by (simp add: rs source_entry_def filter_map comp_def)
qed

section \<open>Import\<close>

lemma import_tx_Write:
  assumes "import_tx E inputs d = Inr (Write d')"
  shows "current_version d = Some SchemaVersion" "count_existing E d inputs = Inr 0" "inputs \<noteq> []"
    "\<forall>u \<in> set (administrative_units d). au_code u \<notin> set (admin_codes inputs)"
    "import_writes E inputs d = Inr d'"
  using assms by (auto simp: import_tx_def Let_def filter_empty_conv split: if_splits option.splits)

lemma import_tx_imported:
  assumes srv: "server_ok E d" and ranging: "map_order (e_ranging E)"
    and read: "read_inputs E specs = Inr inputs" and val: "validate (e_ranging E) inputs = Inr ()"
    and tx: "import_tx E inputs d = Inr (Write d')"
  shows "imported E inputs d d'"
proof -
  have ok: "\<forall>inp \<in> set inputs. input_ok (e_uni E) inp" using read_inputs_Inr [OF read] by blast
  have "\<forall>r \<in> set (admin_rows inputs). r_code r \<notin> au_code ` set (administrative_units d)"
    using import_tx_Write(4) [OF tx]
    unfolding admin_codes_def admin_rows_lt4 [OF ok, symmetric] set_map by (metis imageE imageI)
  then show ?thesis
    using import_writes_imported [OF srv ok _ _ _ import_tx_Write(5) [OF tx]]
      val [unfolded validate_iff [OF ranging]] by blast
qed

lemma length_admin_codes:
  assumes "read_inputs E specs = Inr inputs"
  shows "length (admin_codes inputs) = length (admin_rows inputs)"
  unfolding admin_codes_def length_map
  by (rule arg_cong [OF admin_rows_lt4 [symmetric]]) (use read_inputs_Inr [OF assms] in blast)

lemma Import_cases:
  obtains (error) e where "Import E specs d = (Inl e, d)"
    | (unchanged) "Import E specs d = (Inr (0, True), d)"
    | (lost) inputs e d' where "Import E specs d = (Inl (DatabaseError e), d')"
        "read_inputs E specs = Inr inputs" "validate (e_ranging E) inputs = Inr ()"
        "import_tx E inputs d = Inr (Write d')" "e_commit E = Some (e, True)"
    | (committed) inputs d' where "Import E specs d = (Inr (length (admin_codes inputs), False), d')"
        "read_inputs E specs = Inr inputs" "validate (e_ranging E) inputs = Inr ()"
        "import_tx E inputs d = Inr (Write d')" "e_commit E = None"
proof -
  consider e where "read_inputs E specs = Inl e"
    | inputs e where "read_inputs E specs = Inr inputs" "validate (e_ranging E) inputs = Inl e"
    | inputs where "read_inputs E specs = Inr inputs" "validate (e_ranging E) inputs = Inr ()"
    by (metis (full_types) old.unit.exhaust sumE)
  then show thesis
  proof cases
    case (3 inputs)
    show thesis
    proof (cases "\<not> e_url_ok E \<or> \<not> e_connects E \<or> e_begin E \<noteq> None")
      case True
      with 3 have "\<exists>e. Import E specs d = (Inl e, d)" by (auto simp: Import_def)
      then show thesis using error by blast
    next
      case False
      then have eq: "Import E specs d = (case import_tx E inputs d of Inl e \<Rightarrow> (Inl e, d)
          | Inr Unchanged \<Rightarrow> (Inr (0, True), d)
          | Inr (Write d') \<Rightarrow> (case e_commit E of
               Some (e, took_effect) \<Rightarrow> (Inl (DatabaseError e), if took_effect then d' else d)
             | None \<Rightarrow> (Inr (length (admin_codes inputs), False), d')))"
        using 3 by (simp add: Import_def)
      show thesis
        using error unchanged lost [OF _ 3] committed [OF _ 3] eq
        by (auto split: sum.splits import_plan.splits option.splits if_splits)
    qed
  qed (use error in \<open>auto simp: Import_def\<close>)
qed

lemma Import_outcome:
  assumes srv: "server_ok E d" and ranging: "map_order (e_ranging E)"
  shows "case Import E specs d of
      (Inr (n, False), d') \<Rightarrow>
        (\<exists>inputs. read_inputs E specs = Inr inputs \<and> n = length (admin_rows inputs) \<and> imported E inputs d d')
    | (Inr (n, True), d') \<Rightarrow> n = 0 \<and> d' = d
    | (Inl e, d') \<Rightarrow> d' = d \<or>
        (\<exists>g inputs. e = DatabaseError g \<and> e_commit E = Some (g, True) \<and>
           read_inputs E specs = Inr inputs \<and> imported E inputs d d')"
proof (cases rule: Import_cases [of E specs d])
  case (lost inputs e d')
  then show ?thesis using import_tx_imported [OF srv ranging lost(2-4)] by auto
next
  case (committed inputs d')
  then show ?thesis
    using import_tx_imported [OF srv ranging committed(2-4)] length_admin_codes [OF committed(2)] by auto
qed simp_all

subsection \<open>A run that meets no obstacle completes\<close>

text \<open>The environment puts nothing in the way of an import.\<close>

definition unobstructed :: "env \<Rightarrow> bool" where
  "unobstructed E \<longleftrightarrow>
     e_url_ok E \<and> e_connects E \<and> e_begin E = None \<and> e_commit E = None \<and> (\<forall>st d. e_reject E st d = None)"

lemma exec_unobstructed [simp]: "unobstructed E \<Longrightarrow> exec E st wrap f d = Inr (f d)"
  by (simp add: exec_def unobstructed_def)

lemma stage_unobstructed:
  "unobstructed E \<Longrightarrow> \<exists>ids' d'. stage E inputs (ids, d) = Inr (ids', d')"
  by (induction inputs arbitrary: ids d) (simp_all add: Let_def)

lemma promote_rows_nonempty:
  assumes "server_ok E d0" "s \<in> set (source_records d)" "sr_source s \<in> set ids" "sr_level s = l"
  shows "promote_rows E ids l d \<noteq> []"
proof -
  have "s \<in> set (e_order E (filter (\<lambda>r. sr_source r \<in> set ids \<and> sr_level r = l) (source_records d)))"
    using assms by (simp add: order_set)
  moreover have "join_parents d s \<noteq> []" by (simp add: join_parents_def split: list.splits)
  ultimately show ?thesis by (auto simp: promote_rows_def)
qed

lemma promote_levels_unobstructed:
  assumes "unobstructed E" "server_ok E d0"
  shows "\<forall>l \<in> set levels. \<exists>s \<in> set (source_records d). sr_source s \<in> set ids \<and> sr_level s = l \<Longrightarrow>
     \<exists>d'. promote_levels E ids levels d = Inr d'"
proof (induction levels arbitrary: d)
  case (Cons l levels)
  then have "promote_rows E ids l d \<noteq> []" using promote_rows_nonempty [OF assms(2)] by auto
  moreover have "\<exists>d'. promote_levels E ids levels (promote E ids l d) = Inr d'"
    using Cons.prems by (intro Cons.IH) (simp add: promote_def)
  ultimately show ?case using assms(1) by simp
qed simp

lemma import_writes_unobstructed:
  assumes un: "unobstructed E" and srv: "server_ok E d"
    and lv: "\<forall>l \<in> {1, 2, 3}. \<exists>r \<in> set (concat (map i_rows inputs)). r_level r = l"
  shows "\<exists>d'. import_writes E inputs d = Inr d'"
proof -
  obtain ids d1 where st: "stage E inputs ([], d) = Inr (ids, d1)"
    using stage_unobstructed [OF un] by blast
  from stage_Inr [OF st] obtain S where ids: "length ids = length inputs"
    and d1: "source_records d1 = source_records d @ S" "list_all2 staged_as (tagged_rows ids inputs) S"
    by auto
  have "\<exists>s \<in> set (source_records d1). sr_source s \<in> set ids \<and> sr_level s = l" if l: "l \<in> {1, 2, 3}" for l
  proof -
    from lv l obtain r where r: "r \<in> set (map snd (tagged_rows ids inputs))" "r_level r = l"
      unfolding map_snd_tagged [OF ids] by blast
    then obtain t where t: "t \<in> set (tagged_rows ids inputs)" "snd t = r" by auto
    from list_all2_ex_right [OF d1(2) t(1)] obtain s where "s \<in> set S" "staged_as t s" by blast
    with t r(2) fst_tagged [OF t(1)] show ?thesis
      by (intro bexI [of _ s]) (simp_all add: d1(1) staged_as_fields)
  qed
  then have "\<forall>l \<in> set [1, 2, 3]. \<exists>s \<in> set (source_records d1). sr_source s \<in> set ids \<and> sr_level s = l"
    by simp
  from promote_levels_unobstructed [OF un srv this] obtain d2 where
    "promote_levels E ids [1, 2, 3] d1 = Inr d2" by blast
  with st un show ?thesis by (simp add: import_writes_def)
qed

lemma count_existing_none:
  assumes "unobstructed E" "\<forall>inp \<in> set inputs. existing_source d (s_code (i_snapshot inp)) = None"
  shows "count_existing E d inputs = Inr 0"
  using assms(2) by (induction inputs) (use assms(1) in \<open>simp_all add: unobstructed_def\<close>)

lemma Import_runs:
  assumes un: "unobstructed E" and srv: "server_ok E d" and ver: "current_version d = Some SchemaVersion"
    and read: "read_inputs E specs = Inr inputs" and val: "validate (e_ranging E) inputs = Inr ()"
    and none: "\<forall>spec \<in> set specs. \<forall>src \<in> set (data_sources d). ds_code src \<noteq> s_code spec"
    and new: "\<forall>u \<in> set (administrative_units d). au_code u \<notin> set (map r_code (admin_rows inputs))"
    and lv: "\<forall>l \<in> {1, 2, 3}. \<exists>r \<in> set (admin_rows inputs). r_level r = l"
  shows "\<exists>d'. Import E specs d = (Inr (length (admin_rows inputs), False), d')"
proof -
  have ok: "\<forall>inp \<in> set inputs. input_ok (e_uni E) inp" and specs: "specs = map i_snapshot inputs"
    using read_inputs_Inr [OF read] by auto
  have "count_existing E d inputs = Inr 0"
    using none by (intro count_existing_none [OF un]) (simp add: specs existing_source_None)
  moreover have "inputs \<noteq> []" using lv by (auto simp: admin_rows_def)
  moreover have "filter (\<lambda>u. au_code u \<in> set (admin_codes inputs)) (administrative_units d) = []"
    using new unfolding admin_codes_def admin_rows_lt4 [OF ok] by (simp add: filter_empty_conv)
  moreover obtain d' where "import_writes E inputs d = Inr d'"
    using import_writes_unobstructed [OF un srv, of inputs] lv by (fastforce simp: admin_rows_def)
  ultimately have "import_tx E inputs d = Inr (Write d')"
    using un ver by (simp add: import_tx_def unobstructed_def)
  then show ?thesis
    using un read val length_admin_codes [OF read] by (simp add: Import_def unobstructed_def)
qed

end
