(* ===== verification/Import_Claims.thy ===== *)
theory Import_Claims
  imports Import_Correct
begin

text \<open>
  The properties of the source import as a whole, and a concrete import: three files with a
  province, a district and a ward, into an empty database at the current schema version.
\<close>

section \<open>A concrete import\<close>

definition row1 :: source_row where
  "row1 = \<lparr>r_line = 1, r_level = 1, r_area = 1, r_code = ''P'', r_name = fst (unit_prefixes ! 1) @ ''A'',
     r_parent = [], r_kind = ''PROVINCE'', r_status = ''STAGED''\<rparr>"

definition row2 :: source_row where
  "row2 = \<lparr>r_line = 1, r_level = 2, r_area = 1, r_code = ''D'', r_name = fst (unit_prefixes ! 3) @ ''B'',
     r_parent = ''P'', r_kind = ''DISTRICT'', r_status = ''STAGED''\<rparr>"

definition row3 :: source_row where
  "row3 = \<lparr>r_line = 1, r_level = 3, r_area = 1, r_code = ''W'', r_name = fst (unit_prefixes ! 6) @ ''C'',
     r_parent = ''D'', r_kind = ''WARD'', r_status = ''STAGED''\<rparr>"

definition row_line :: "source_row \<Rightarrow> bytes" where
  "row_line r = insert_line True (escape (r_code r)) (escape (r_name r)) (digit_char (r_level r))
     (if r_parent r = [] then None else Some (escape (r_parent r))) (digit_char (r_area r)) ''NOTHING''"

definition tx_specs :: "snapshot list" where
  "tx_specs = [demo_spec ''SUPERSHIP_3_L1'', demo_spec ''SUPERSHIP_3_L2'', demo_spec ''SUPERSHIP_3_L3'']"

definition tx_files :: "bytes \<Rightarrow> file_read" where
  "tx_files f = Content (row_line (if last f = CHR ''1'' then row1 else if last f = CHR ''2'' then row2 else row3)) None"

definition tx_env :: env where
  "tx_env =
     \<lparr>e_uni = ascii_lower, e_sha = (\<lambda>c. ''h''), e_files = tx_files, e_ranging = rev, e_url_ok = True,
      e_connects = True, e_begin = None, e_reject = (\<lambda>_ _. None), e_commit = None,
      e_source_id = (\<lambda>n. int n), e_record_id = (\<lambda>n. int n), e_unit_id = (\<lambda>n. int n),
      e_trim = TrimSpace, e_normalize = (\<lambda>s. ascii_lower (TrimSpace s)), e_order = rev\<rparr>"

definition tx_db :: db where
  "tx_db = \<lparr>goose_versions = [(3, True), (2, True), (1, True)], data_sources = [], source_records = [],
     administrative_units = [], external_references = [], outbox_events = []\<rparr>"

definition tx_inputs :: "input list" where
  "tx_inputs = map (\<lambda>(spec, r). \<lparr>i_snapshot = spec, i_hash = ''h'', i_rows = [r]\<rparr>)
     (zip tx_specs [row1, row2, row3])"

lemma tx_rows_ok: "row_ok ascii_lower row1" "row_ok ascii_lower row2" "row_ok ascii_lower row3"
  by code_simp+

lemma parse_row_line:
  assumes "row_ok uni r" "r_line r = n"
  shows "parseLine uni (row_line r) n = Inr r"
proof -
  have "row_line r = insert_line True (escape (r_code r)) (escape (r_name r)) (digit_char (r_level r))
      (map_option escape (if r_parent r = [] then None else Some (r_parent r))) (digit_char (r_area r)) ''NOTHING''"
    by (simp add: row_line_def)
  moreover have "r_parent r = parent_or_empty (if r_parent r = [] then None else Some (r_parent r))"
    by (simp add: parent_or_empty_def)
  moreover have "conflict_action ''NOTHING''" by (simp add: conflict_action_def)
  ultimately show ?thesis unfolding parseLine_iff using assms by blast
qed

definition plain_line :: "bytes \<Rightarrow> bool" where
  "plain_line l \<longleftrightarrow> raw_lines l = [l] \<and> TrimSpace (dropCR l) = l \<and> l \<noteq> [] \<and> \<not> HasPrefix l ''--'' \<and> length l < 300"

lemma tx_plain: "plain_line (row_line row1)" "plain_line (row_line row2)" "plain_line (row_line row3)"
  by code_simp+

lemma readInput_single:
  assumes "row_ok uni r" "r_line r = 1" "plain_line (row_line r)" "files (s_file spec) = Content (row_line r) None"
    "s_count spec = 1" "\<not> wrong_level_or_area spec r"
  shows "readInput uni sha files spec = Inr \<lparr>i_snapshot = spec, i_hash = sha (row_line r), i_rows = [r]\<rparr>"
  using assms parse_row_line [OF assms(1,2)]
  by (simp add: readInput_def plain_line_def max_token_def Let_def)

lemma tx_spec_rows:
  "tx_files (s_file (demo_spec ''SUPERSHIP_3_L1'')) = Content (row_line row1) None"
  "tx_files (s_file (demo_spec ''SUPERSHIP_3_L2'')) = Content (row_line row2) None"
  "tx_files (s_file (demo_spec ''SUPERSHIP_3_L3'')) = Content (row_line row3) None"
  "\<not> wrong_level_or_area (demo_spec ''SUPERSHIP_3_L1'') row1"
  "\<not> wrong_level_or_area (demo_spec ''SUPERSHIP_3_L2'') row2"
  "\<not> wrong_level_or_area (demo_spec ''SUPERSHIP_3_L3'') row3"
  "s_count (demo_spec c) = 1" "r_line row1 = 1" "r_line row2 = 1" "r_line row3 = 1"
  by (simp_all add: tx_files_def demo_spec_def wrong_level_or_area_def digit_val_def row1_def row2_def row3_def)

lemma tx_read: "read_inputs tx_env tx_specs = Inr tx_inputs"
  using readInput_single [where sha = "\<lambda>c. ''h''" and files = tx_files, OF tx_rows_ok(1) tx_spec_rows(8) tx_plain(1) tx_spec_rows(1,7,4)]
    readInput_single [where sha = "\<lambda>c. ''h''" and files = tx_files, OF tx_rows_ok(2) tx_spec_rows(9) tx_plain(2) tx_spec_rows(2,7,5)]
    readInput_single [where sha = "\<lambda>c. ''h''" and files = tx_files, OF tx_rows_ok(3) tx_spec_rows(10) tx_plain(3) tx_spec_rows(3,7,6)]
  by (simp add: tx_specs_def tx_inputs_def tx_env_def)

lemma tx_admin_rows: "admin_rows tx_inputs = [row1, row2, row3]"
  by (simp add: tx_inputs_def tx_specs_def admin_rows_def) (simp add: row1_def row2_def row3_def)

lemma tx_ranging: "e_ranging tx_env = rev"
  by (simp add: tx_env_def)

lemma tx_validate: "validate (e_ranging tx_env) tx_inputs = Inr ()"
  unfolding tx_ranging validate_iff [OF demo_map_order] tx_admin_rows hierarchy_ok_def
  by (simp add: row1_def row2_def row3_def)

lemma tx_unobstructed: "unobstructed tx_env"
  by (simp add: unobstructed_def tx_env_def)

lemma tx_server: "server_ok tx_env tx_db"
  by (simp add: server_ok_def tx_env_def tx_db_def inj_def)

lemma tx_version: "current_version tx_db = Some SchemaVersion"
  by (simp add: current_version_def tx_db_def SchemaVersion_def)

lemma tx_levels: "\<forall>l \<in> {1, 2, 3}. \<exists>r \<in> set (admin_rows tx_inputs). r_level r = l"
  unfolding tx_admin_rows by (simp add: row1_def row2_def row3_def)

lemma tx_new: "\<forall>spec \<in> set tx_specs. \<forall>src \<in> set (data_sources tx_db). ds_code src \<noteq> s_code spec"
  "\<forall>u \<in> set (administrative_units tx_db). au_code u \<notin> set (map r_code (admin_rows tx_inputs))"
  by (simp_all add: tx_db_def)

lemma tx_runs: "\<exists>d'. Import tx_env tx_specs tx_db = (Inr (3, False), d')"
  using Import_runs [OF tx_unobstructed tx_server tx_version tx_read tx_validate tx_new tx_levels]
  by (simp add: tx_admin_rows numeral_3_eq_3)

section \<open>Properties\<close>

text \<open>
  C1. \<^verbatim>\<open>Import\<close> is all or nothing. On success the database holds the complete import, whose
  specification is \<open>imported\<close>: every row of every file is staged under its source; one new unit
  per level 1 to 3 row, with the row's data and as parent the unit of the row's parent code; those
  records are linked to their units, level 4 records are held back and never linked; one external
  reference and one outbox event per unit; nothing that was there before is changed. The returned
  count is the number of units. When the sources are already there, nothing changes and the count
  is 0. On an error nothing changes either, unless the error is that of a commit which took effect
  although its acknowledgement was lost, and then the import is complete.
\<close>

theorem Import_all_or_nothing:
  assumes "server_ok E d" and "map_order (e_ranging E)"
  shows "case Import E specs d of
      (Inr (n, False), d') \<Rightarrow>
        (\<exists>inputs. read_inputs E specs = Inr inputs \<and> n = length (admin_rows inputs) \<and> imported E inputs d d')
    | (Inr (n, True), d') \<Rightarrow> n = 0 \<and> d' = d
    | (Inl e, d') \<Rightarrow> d' = d \<or>
        (\<exists>g inputs. e = DatabaseError g \<and> e_commit E = Some (g, True) \<and>
           read_inputs E specs = Inr inputs \<and> imported E inputs d d')"
  using assms by (rule Import_outcome)

theorem Import_all_or_nothing_witness:
  "\<exists>d'. Import tx_env tx_specs tx_db = (Inr (3, False), d') \<and> imported tx_env tx_inputs tx_db d'"
proof -
  obtain d' where run: "Import tx_env tx_specs tx_db = (Inr (3, False), d')" using tx_runs by blast
  moreover have "map_order (e_ranging tx_env)" unfolding tx_ranging by (rule demo_map_order)
  ultimately show ?thesis
    using Import_all_or_nothing [OF tx_server, of tx_specs] tx_read by auto
qed



text \<open>
  C2. \<^verbatim>\<open>Import\<close> is idempotent: a run that finds the same files after a successful import, on a
  server that lets the transaction's queries through, reports that nothing is to be done and
  leaves the database as it is.
\<close>

theorem Import_idempotent:
  assumes "server_ok E d" and "map_order (e_ranging E)" and "distinct (map s_code specs)"
    and "Import E specs d = (Inr (n, False), d')"
    and "unobstructed E'" and "read_inputs E' specs = read_inputs E specs" and "map_order (e_ranging E')"
  shows "Import E' specs d' = (Inr (0, True), d')"
proof (cases rule: Import_cases [of E specs d])
  case (committed inputs d'')
  with assms(4) have d'': "d'' = d'" by simp
  note tx = committed(4) [unfolded d'']
  have ok: "\<forall>inp \<in> set inputs. input_ok (e_uni E) inp" and specs: "specs = map i_snapshot inputs"
    using read_inputs_Inr [OF committed(2)] by auto
  have imp: "imported E inputs d d'" by (rule import_tx_imported [OF assms(1,2) committed(2,3) tx])
  then have ver: "current_version d' = current_version d"
    unfolding imported_def current_version_def by auto
  have di: "distinct (map (s_code \<circ> i_snapshot) inputs)" using assms(3) by (simp add: specs)
  have none: "\<forall>inp \<in> set inputs. existing_source d (s_code (i_snapshot inp)) = None"
    using count_existing_zero [OF import_tx_Write(2) [OF tx]] by blast
  have "count_existing E' d' inputs = Inr (length inputs)"
    by (rule count_existing_all)
      (use assms(5) existing_after [OF assms(1) ok di imp none] in \<open>auto simp: unobstructed_def\<close>)
  then have "import_tx E' inputs d' = Inr Unchanged"
    using assms(5) import_tx_Write(1) [OF tx] ver by (simp add: import_tx_def unobstructed_def)
  moreover have "validate (e_ranging E') inputs = Inr ()"
    using committed(3) unfolding validate_iff [OF assms(2)] validate_iff [OF assms(7)] .
  ultimately show ?thesis
    using assms(5,6) committed(2) by (simp add: Import_def unobstructed_def)
qed (use assms(4) in auto)

theorem Import_idempotent_witness:
  "\<exists>d'. Import tx_env tx_specs tx_db = (Inr (3, False), d') \<and> Import tx_env tx_specs d' = (Inr (0, True), d')"
proof -
  obtain d' where run: "Import tx_env tx_specs tx_db = (Inr (3, False), d')" using tx_runs by blast
  have ord: "map_order (e_ranging tx_env)" unfolding tx_ranging by (rule demo_map_order)
  have "distinct (map s_code tx_specs)" by (simp add: tx_specs_def demo_spec_def)
  from Import_idempotent [OF tx_server ord this run tx_unobstructed refl ord] run show ?thesis by blast
qed

end
