(* ===== verification/Http_Base.thy ===== *)
theory Http_Base
  imports Complex_Main Apperror "HOL-Library.Word"
begin

text \<open>
  The part of \<^verbatim>\<open>net/http\<close> that the packages \<^verbatim>\<open>httpserver\<close>, \<^verbatim>\<open>logging\<close> and \<^verbatim>\<open>telemetry\<close> are
  written against: header maps, requests, response writers, and handlers as programs over a
  response writer.

  A handler is an interaction tree. It calls methods of its \<^verbatim>\<open>http.ResponseWriter\<close>, reads and
  updates the header map, reads and updates the state of the process, panics or returns. A type
  that embeds an \<^verbatim>\<open>http.ResponseWriter\<close> and overrides methods is a method table: for each
  call, a program over the embedded writer. \<open>wrap\<close> runs a handler on such a writer.
\<close>

section \<open>Header maps\<close>

text \<open>\<^verbatim>\<open>textproto.CanonicalMIMEHeaderKey\<close>: a name with a character that is no token character is left alone.\<close>

definition token_char :: "char \<Rightarrow> bool" where
  "token_char c \<longleftrightarrow> is_upper c \<or> is_lower c \<or> is_digit c \<or> c \<in> set ''!#$%&*+-.^_`|~'' \<or> c = CHR 0x27"

fun canonical_chars :: "bool \<Rightarrow> string \<Rightarrow> string" where
  "canonical_chars up [] = []"
| "canonical_chars up (c # cs) =
     (if up then upper_char c else lower_char c) # canonical_chars (c = CHR ''-'') cs"

definition CanonicalHeaderKey :: "string \<Rightarrow> string" where
  "CanonicalHeaderKey k = (if list_all token_char k then canonical_chars True k else k)"

text \<open>A header map: keys as stored, each with its values.\<close>

type_synonym header = "(string \<times> string list) list"

definition header_values :: "header \<Rightarrow> string \<Rightarrow> string list" where
  "header_values h k = (case map_of h (CanonicalHeaderKey k) of None \<Rightarrow> [] | Some vs \<Rightarrow> vs)"

definition header_get :: "header \<Rightarrow> string \<Rightarrow> string" where
  "header_get h k = (case header_values h k of [] \<Rightarrow> [] | v # _ \<Rightarrow> v)"

definition header_del :: "string \<Rightarrow> header \<Rightarrow> header" where
  "header_del k h = filter (\<lambda>(k', _). k' \<noteq> CanonicalHeaderKey k) h"

definition header_set :: "string \<Rightarrow> string \<Rightarrow> header \<Rightarrow> header" where
  "header_set k v h = (CanonicalHeaderKey k, [v]) # header_del k h"

definition header_add :: "string \<Rightarrow> string \<Rightarrow> header \<Rightarrow> header" where
  "header_add k v h = (CanonicalHeaderKey k, header_values h k @ [v]) # header_del k h"

section \<open>Requests\<close>

text \<open>
  What a request's context carries: the \<^verbatim>\<open>correlation\<close> of the package \<^verbatim>\<open>logging\<close> and the
  principal of \<^verbatim>\<open>auth.go\<close>.
\<close>

record principal =
  Subject :: string

record reqctx =
  requestID :: string
  traceID :: string
  ctx_principal :: "principal option"

record request =
  Method :: string
  Path :: string
  r_header :: header
  ctx :: reqctx

section \<open>The state of the process\<close>

datatype level = LevelInfo | LevelWarn | LevelError

datatype log_value = LString string | LInt int | LFloat real

record log_entry =
  log_ctx :: reqctx
  log_level :: level
  log_msg :: string
  log_attrs :: "(string \<times> log_value) list"

text \<open>\<^verbatim>\<open>Metrics\<close>: unsigned counters by status class, the summed duration and the signed gauge.\<close>

record metrics =
  requests :: "64 word list"
  durationNS :: "64 word"
  inflight :: "64 word"

text \<open>\<^verbatim>\<open>Limiter\<close>: floating-point numbers are the reals they denote; \<open>last\<close> is in nanoseconds.\<close>

record limiter =
  rate :: real
  burst :: real
  tokens :: real
  last_time :: int

record span =
  span_status :: "int option"
  span_failed :: bool
  span_ended :: bool

text \<open>
  The process: what handlers share, and the answers of the environment: the clock readings and
  random bytes to come, the trace identifiers, the call stack (function, file and line of each
  frame), and when a deadline of \<^verbatim>\<open>http.TimeoutHandler\<close>
  interrupts the handler: after how many of its steps, and whether by the deadline (otherwise
  because the client went away).
\<close>

record sys =
  clock :: "nat \<Rightarrow> int"
  clock_reads :: nat
  random :: "nat \<Rightarrow> string"
  random_reads :: nat
  trace_ids :: "nat \<Rightarrow> string"
  frames :: "(string \<times> string \<times> int) list"
  deadline :: "(nat \<times> bool) option"
  logs :: "log_entry list"
  metrics_of :: metrics
  limiter_of :: limiter
  spans :: "span list"

section \<open>Handlers\<close>

datatype pval = ErrAbortHandler | PanicValue string

datatype op = WriteHeader int | Write string | Flush | Hijack

datatype reply = Done | Failed gerror | Panicked pval

abbreviation ErrNotSupported :: gerror where "ErrNotSupported \<equiv> Sentinel ''errors.ErrUnsupported''"

datatype 'a prog =
    Ret 'a
  | Panic pval
  | Call op "reply \<Rightarrow> 'a prog"
  | Hdr "header \<Rightarrow> header" "header \<Rightarrow> 'a prog"
  | Sys "sys \<Rightarrow> sys" "sys \<Rightarrow> 'a prog"

type_synonym handler = "request \<Rightarrow> unit prog"

primrec bind :: "'a prog \<Rightarrow> ('a \<Rightarrow> 'b prog) \<Rightarrow> 'b prog" where
  "bind (Ret a) f = f a"
| "bind (Panic v) f = Panic v"
| "bind (Call m k) f = Call m (\<lambda>r. bind (k r) f)"
| "bind (Hdr u k) f = Hdr u (\<lambda>h. bind (k h) f)"
| "bind (Sys u k) f = Sys u (\<lambda>s. bind (k s) f)"

text \<open>Sequencing of statements, and the elementary statements.\<close>

definition seq :: "unit prog \<Rightarrow> 'a prog \<Rightarrow> 'a prog" where
  "seq p q = bind p (\<lambda>_. q)"

definition do_write_header :: "int \<Rightarrow> unit prog" where
  "do_write_header s = Call (WriteHeader s) (\<lambda>r. case r of Panicked v \<Rightarrow> Panic v | _ \<Rightarrow> Ret ())"

definition do_write :: "string \<Rightarrow> gerror option prog" where
  "do_write b = Call (Write b) (\<lambda>r. case r of Panicked v \<Rightarrow> Panic v | Failed e \<Rightarrow> Ret (Some e) | Done \<Rightarrow> Ret None)"

definition update_header :: "(header \<Rightarrow> header) \<Rightarrow> unit prog" where
  "update_header u = Hdr u (\<lambda>_. Ret ())"

definition set_header :: "string \<Rightarrow> string \<Rightarrow> unit prog" where
  "set_header k v = update_header (header_set k v)"

definition get_header :: "string \<Rightarrow> string prog" where
  "get_header k = Hdr id (\<lambda>h. Ret (header_get h k))"

definition update_sys :: "(sys \<Rightarrow> sys) \<Rightarrow> unit prog" where
  "update_sys u = Sys u (\<lambda>_. Ret ())"

text \<open>\<^verbatim>\<open>time.Now()\<close> and \<^verbatim>\<open>rand.Read\<close>.\<close>

definition time_now :: "int prog" where
  "time_now = Sys (\<lambda>s. s\<lparr>clock_reads := Suc (clock_reads s)\<rparr>) (\<lambda>s. Ret (clock s (clock_reads s)))"

definition rand_read :: "string prog" where
  "rand_read = Sys (\<lambda>s. s\<lparr>random_reads := Suc (random_reads s)\<rparr>) (\<lambda>s. Ret (random s (random_reads s)))"

definition log_event :: "log_entry \<Rightarrow> unit prog" where
  "log_event e = update_sys (\<lambda>s. s\<lparr>logs := logs s @ [e]\<rparr>)"

text \<open>
  A handler run on a writer with the given methods, from state \<open>s\<close> of that writer. A panic ends
  the handler and is delivered, with the final state of the writer, to the code around it (its
  deferred functions).
\<close>

type_synonym 's method_table = "'s \<Rightarrow> op \<Rightarrow> (reply \<times> 's) prog"

primrec wrap :: "'a prog \<Rightarrow> 's method_table \<Rightarrow> 's \<Rightarrow> ((pval + 'a) \<times> 's) prog" where
  "wrap (Ret a) m s = Ret (Inr a, s)"
| "wrap (Panic v) m s = Ret (Inl v, s)"
| "wrap (Call op k) m s = bind (m s op) (\<lambda>(r, s'). wrap (k r) m s')"
| "wrap (Hdr u k) m s = Hdr u (\<lambda>h. wrap (k h) m s)"
| "wrap (Sys u k) m s = Sys u (\<lambda>w. wrap (k w) m s)"

text \<open>What a method body does: call a method of the embedded writer and pass its reply on.\<close>

definition pass :: "op \<Rightarrow> 's \<Rightarrow> (reply \<times> 's) prog" where
  "pass op s = Call op (\<lambda>r. Ret (r, s))"

text \<open>Re-raise what a deferred function did not recover.\<close>

definition resume :: "pval + 'a \<Rightarrow> 'a prog" where
  "resume res = (case res of Inl v \<Rightarrow> Panic v | Inr a \<Rightarrow> Ret a)"

section \<open>The response of the server\<close>

text \<open>
  \<^verbatim>\<open>http.response\<close>, the writer at the bottom: the live header map; the informational responses
  sent; final status and header once they are sent; the declared content length; the body; whether
  the connection was hijacked. \<open>io_failure\<close> answers the operations that reach the connection.
\<close>

record resp =
  live :: header
  informational :: "(int \<times> header) list"
  status :: "int option"
  sent :: header
  content_length :: "int option"
  body :: string
  written :: int
  hijacked :: bool
  head_request :: bool
  io_failure :: "nat \<Rightarrow> gerror option"
  io_count :: nat

definition new_response :: "bool \<Rightarrow> (nat \<Rightarrow> gerror option) \<Rightarrow> resp" where
  "new_response is_head io =
     \<lparr>live = [], informational = [], status = None, sent = [], content_length = None, body = [], written = 0,
      hijacked = False, head_request = is_head, io_failure = io, io_count = 0\<rparr>"

definition invalid_code :: "int \<Rightarrow> bool" where
  "invalid_code code \<longleftrightarrow> code < 100 \<or> code > 999"

definition declared_length :: "header \<Rightarrow> int option" where
  "declared_length h =
     (case header_get h ''Content-Length'' of
        [] \<Rightarrow> None
      | v \<Rightarrow> (case ParseInt 64 v of Some n \<Rightarrow> (if 0 \<le> n then Some n else None) | None \<Rightarrow> None))"

definition sent_header :: "header \<Rightarrow> header" where
  "sent_header h =
     (if header_get h ''Content-Length'' \<noteq> [] \<and> declared_length h = None then header_del ''Content-Length'' h else h)"

definition base_write_header :: "int \<Rightarrow> resp \<Rightarrow> reply \<times> resp" where
  "base_write_header code q =
     (if hijacked q \<or> status q \<noteq> None then (Done, q)
      else if invalid_code code then (Panicked (PanicValue ''invalid WriteHeader code''), q)
      else if code \<le> 199 \<and> code \<noteq> 101
           then (Done, q\<lparr>informational := informational q @ [(code, live q)]\<rparr>)
      else (Done, q\<lparr>status := Some code, sent := sent_header (live q), content_length := declared_length (live q)\<rparr>))"

definition body_allowed :: "int \<Rightarrow> bool" where
  "body_allowed code \<longleftrightarrow> \<not> (100 \<le> code \<and> code \<le> 199) \<and> code \<noteq> 204 \<and> code \<noteq> 304"

definition implicit_header :: "resp \<Rightarrow> resp" where
  "implicit_header q = (if status q = None then snd (base_write_header 200 q) else q)"

definition connection_io :: "resp \<Rightarrow> (resp \<Rightarrow> resp) \<Rightarrow> reply \<times> resp" where
  "connection_io q f =
     (let q' = q\<lparr>io_count := Suc (io_count q)\<rparr>
      in case io_failure q (io_count q) of Some e \<Rightarrow> (Failed e, q') | None \<Rightarrow> (Done, f q'))"

definition base_write :: "string \<Rightarrow> resp \<Rightarrow> reply \<times> resp" where
  "base_write data q =
     (if hijacked q then (Failed (Sentinel ''http.ErrHijacked''), q)
      else
        let q1 = implicit_header q
        in if data = [] then (Done, q1)
           else if \<not> body_allowed (the (status q1)) then (Failed (Sentinel ''http.ErrBodyNotAllowed''), q1)
           else
             let q2 = q1\<lparr>written := written q1 + int (length data)\<rparr>
             in if (case content_length q2 of None \<Rightarrow> False | Some n \<Rightarrow> n < written q2)
                then (Failed (Sentinel ''http.ErrContentLength''), q2)
                else if head_request q2 then (Done, q2)
                else connection_io q2 (\<lambda>q3. q3\<lparr>body := body q3 @ data\<rparr>))"

definition base_flush :: "resp \<Rightarrow> reply \<times> resp" where
  "base_flush q = connection_io (implicit_header q) id"

definition base_hijack :: "resp \<Rightarrow> reply \<times> resp" where
  "base_hijack q =
     (if hijacked q then (Failed (Sentinel ''http.ErrHijacked''), q)
      else connection_io q (\<lambda>q1. q1\<lparr>hijacked := True\<rparr>))"

fun base_call :: "op \<Rightarrow> resp \<Rightarrow> reply \<times> resp" where
  "base_call (WriteHeader code) q = base_write_header code q"
| "base_call (Write data) q = base_write data q"
| "base_call Flush q = base_flush q"
| "base_call Hijack q = base_hijack q"

text \<open>A handler run on the server's response.\<close>

primrec run :: "'a prog \<Rightarrow> resp \<Rightarrow> sys \<Rightarrow> (pval + 'a) \<times> resp \<times> sys" where
  "run (Ret a) q w = (Inr a, q, w)"
| "run (Panic v) q w = (Inl v, q, w)"
| "run (Call op k) q w = (case base_call op q of (r, q') \<Rightarrow> run (k r) q' w)"
| "run (Hdr u k) q w = run (k (live q)) (q\<lparr>live := u (live q)\<rparr>) w"
| "run (Sys u k) q w = run (k w) q (u w)"

section \<open>Facts\<close>

named_theorems http_run \<open>how elementary statements run on the server's response\<close>

lemma bind_Ret [simp]: "bind p Ret = p"
  by (induction p) auto

lemma bind_assoc: "bind (bind p f) g = bind p (\<lambda>a. bind (f a) g)"
  by (induction p) auto

lemma run_bind:
  "run (bind p f) q w =
     (case run p q w of (Inl v, q', w') \<Rightarrow> (Inl v, q', w') | (Inr a, q', w') \<Rightarrow> run (f a) q' w')"
  by (induction p arbitrary: q w) (auto split: prod.splits)

lemma run_seq:
  "run (seq p p') q w =
     (case run p q w of (Inl v, q', w') \<Rightarrow> (Inl v, q', w') | (Inr _, q', w') \<Rightarrow> run p' q' w')"
  by (simp add: seq_def run_bind)

lemma run_bind_Inr: "run p q w = (Inr a, q', w') \<Longrightarrow> run (bind p f) q w = run (f a) q' w'"
  by (simp add: run_bind)

lemma run_update_header [http_run]: "run (update_header u) q w = (Inr (), q\<lparr>live := u (live q)\<rparr>, w)"
  by (simp add: update_header_def)

lemma run_set_header [http_run]: "run (set_header k v) q w = (Inr (), q\<lparr>live := header_set k v (live q)\<rparr>, w)"
  by (simp add: set_header_def run_update_header)

lemma run_get_header [http_run]: "run (get_header k) q w = (Inr (header_get (live q) k), q, w)"
  by (simp add: get_header_def)

lemma run_update_sys [http_run]: "run (update_sys u) q w = (Inr (), q, u w)"
  by (simp add: update_sys_def)

lemma run_log_event [http_run]: "run (log_event e) q w = (Inr (), q, w\<lparr>logs := logs w @ [e]\<rparr>)"
  by (simp add: log_event_def run_update_sys)

lemma run_time_now [http_run]:
  "run time_now q w = (Inr (clock w (clock_reads w)), q, w\<lparr>clock_reads := Suc (clock_reads w)\<rparr>)"
  by (simp add: time_now_def)

lemma run_rand_read [http_run]:
  "run rand_read q w = (Inr (random w (random_reads w)), q, w\<lparr>random_reads := Suc (random_reads w)\<rparr>)"
  by (simp add: rand_read_def)

lemma run_do_write_header [http_run]:
  "run (do_write_header s) q w =
     (case base_write_header s q of (Panicked v, q') \<Rightarrow> (Inl v, q', w) | (_, q') \<Rightarrow> (Inr (), q', w))"
  by (auto simp: do_write_header_def split: prod.splits reply.splits)

lemma base_write_not_panicked: "base_write b q \<noteq> (Panicked v, q')"
  by (auto simp: base_write_def connection_io_def Let_def split: if_splits option.splits)

lemma run_do_write [http_run]:
  "run (do_write b) q w =
     (case base_write b q of (Failed e, q') \<Rightarrow> (Inr (Some e), q', w) | (_, q') \<Rightarrow> (Inr None, q', w))"
  by (auto simp: do_write_def base_write_not_panicked split: prod.splits reply.splits)

lemma run_resume [http_run]: "run (resume res) q w = (res, q, w)"
  by (cases res) (simp_all add: resume_def)

subsection \<open>Header maps\<close>

lemma header_values_del [simp]:
  "header_values (header_del k h) k' = (if CanonicalHeaderKey k' = CanonicalHeaderKey k then [] else header_values h k')"
proof -
  have "map_of (filter (\<lambda>(x, _). x \<noteq> a) h) b = (if b = a then None else map_of h b)" for a b
    by (induction h) auto
  then show ?thesis by (simp add: header_values_def header_del_def)
qed

lemma header_values_set [simp]:
  "header_values (header_set k v h) k' = (if CanonicalHeaderKey k' = CanonicalHeaderKey k then [v] else header_values h k')"
  using header_values_del [of k h k'] by (auto simp: header_set_def header_values_def)

lemma header_values_add [simp]:
  "header_values (header_add k v h) k' =
     (if CanonicalHeaderKey k' = CanonicalHeaderKey k then header_values h k' @ [v] else header_values h k')"
  using header_values_del [of k h k'] by (auto simp: header_add_def header_values_def)

lemma header_get_del [simp]:
  "header_get (header_del k h) k' = (if CanonicalHeaderKey k' = CanonicalHeaderKey k then [] else header_get h k')"
  by (simp add: header_get_def)

lemma header_get_set [simp]:
  "header_get (header_set k v h) k' = (if CanonicalHeaderKey k' = CanonicalHeaderKey k then v else header_get h k')"
  by (simp add: header_get_def)

lemma header_get_Nil [simp]: "header_get [] k = []" "header_values [] k = []"
  by (simp_all add: header_get_def header_values_def)

text \<open>The names the program uses.\<close>

lemma canonical_keys [simp]:
  "CanonicalHeaderKey ''Content-Type'' = ''Content-Type''"
  "CanonicalHeaderKey ''Content-Length'' = ''Content-Length''"
  "CanonicalHeaderKey ''Cache-Control'' = ''Cache-Control''"
  "CanonicalHeaderKey ''X-Content-Type-Options'' = ''X-Content-Type-Options''"
  "CanonicalHeaderKey ''X-Request-ID'' = ''X-Request-Id''"
  "CanonicalHeaderKey ''X-Request-Id'' = ''X-Request-Id''"
  "CanonicalHeaderKey ''Vary'' = ''Vary''"
  "CanonicalHeaderKey ''Origin'' = ''Origin''"
  "CanonicalHeaderKey ''Retry-After'' = ''Retry-After''"
  "CanonicalHeaderKey ''Authorization'' = ''Authorization''"
  "CanonicalHeaderKey ''WWW-Authenticate'' = ''Www-Authenticate''"
  "CanonicalHeaderKey ''Allow'' = ''Allow''"
  "CanonicalHeaderKey ''Location'' = ''Location''"
  "CanonicalHeaderKey ''Access-Control-Allow-Origin'' = ''Access-Control-Allow-Origin''"
  "CanonicalHeaderKey ''Access-Control-Expose-Headers'' = ''Access-Control-Expose-Headers''"
  "CanonicalHeaderKey ''Access-Control-Request-Method'' = ''Access-Control-Request-Method''"
  "CanonicalHeaderKey ''Access-Control-Request-Headers'' = ''Access-Control-Request-Headers''"
  "CanonicalHeaderKey ''Access-Control-Allow-Methods'' = ''Access-Control-Allow-Methods''"
  "CanonicalHeaderKey ''Access-Control-Allow-Headers'' = ''Access-Control-Allow-Headers''"
  "CanonicalHeaderKey ''Access-Control-Max-Age'' = ''Access-Control-Max-Age''"
  by code_simp+

end
