(* ===== verification/Http_Writers.thy ===== *)
theory Http_Writers
  imports Http_Base
begin

text \<open>
  The response writers that watch a response: \<^verbatim>\<open>commitWriter\<close> of
  \<^verbatim>\<open>src/internal/platform/httpserver/middleware.go\<close>, \<^verbatim>\<open>metricWriter\<close> of \<^verbatim>\<open>metrics.go\<close>,
  \<^verbatim>\<open>responseWriter\<close> of \<^verbatim>\<open>src/internal/platform/logging/http.go\<close> and \<^verbatim>\<open>traceWriter\<close> of
  \<^verbatim>\<open>src/internal/platform/telemetry/tracing.go\<close>. The locale \<open>tracker\<close> is the contract they share:
  invisible to the handler and to the client, and at the end they know what was sent.
\<close>

section \<open>The writers\<close>

text \<open>
  A method that calls another method of its own writer stops when that one panics.
\<close>

definition then_pass :: "(reply \<times> 's) prog \<Rightarrow> op \<Rightarrow> (reply \<times> 's) prog" where
  "then_pass p op = bind p (\<lambda>(r, s). case r of Panicked v \<Rightarrow> Ret (Panicked v, s) | _ \<Rightarrow> pass op s)"

definition commit_WriteHeader :: "bool \<Rightarrow> int \<Rightarrow> (reply \<times> bool) prog" where
  "commit_WriteHeader committed code =
     (if committed then Ret (Done, committed)
      else Call (WriteHeader code)
        (\<lambda>r. case r of
               Panicked v \<Rightarrow> Ret (Panicked v, committed)
             | _ \<Rightarrow> Ret (Done, if code = 101 \<or> code \<ge> 200 then True else committed)))"

fun commitWriter :: "bool method_table" where
  "commitWriter committed (WriteHeader code) = commit_WriteHeader committed code"
| "commitWriter committed (Write data) =
     (if \<not> committed then then_pass (commit_WriteHeader committed 200) (Write data) else pass (Write data) committed)"
| "commitWriter committed Flush =
     (if \<not> committed then then_pass (commit_WriteHeader committed 200) Flush else pass Flush committed)"
| "commitWriter committed Hijack =
     Call Hijack (\<lambda>r. Ret (r, if r = Done then True else committed))"

definition response_WriteHeader :: "int \<Rightarrow> int \<Rightarrow> (reply \<times> int) prog" where
  "response_WriteHeader st code =
     (if st \<noteq> 0 then Ret (Done, st)
      else Call (WriteHeader code)
        (\<lambda>r. case r of
               Panicked v \<Rightarrow> Ret (Panicked v, st)
             | _ \<Rightarrow> Ret (Done, if code = 101 \<or> code \<ge> 200 then code else st)))"

fun responseWriter :: "int method_table" where
  "responseWriter st (WriteHeader code) = response_WriteHeader st code"
| "responseWriter st (Write data) =
     (if st = 0 then then_pass (response_WriteHeader st 200) (Write data) else pass (Write data) st)"
| "responseWriter st Flush =
     (if st = 0 then then_pass (response_WriteHeader st 200) Flush else pass Flush st)"
| "responseWriter st Hijack = pass Hijack st" \<comment> \<open>through \<^verbatim>\<open>Unwrap\<close>\<close>

definition metric_WriteHeader :: "int \<Rightarrow> int \<Rightarrow> (reply \<times> int) prog" where
  "metric_WriteHeader st code =
     (if st \<noteq> 0 then Ret (Done, st)
      else Call (WriteHeader code)
        (\<lambda>r. case r of
               Panicked v \<Rightarrow> Ret (Panicked v, st)
             | _ \<Rightarrow> Ret (Done, if code \<ge> 200 \<or> code = 101 then code else st)))"

fun metricWriter :: "int method_table" where
  "metricWriter st (WriteHeader code) = metric_WriteHeader st code"
| "metricWriter st (Write data) =
     (if st = 0 then then_pass (metric_WriteHeader st 200) (Write data) else pass (Write data) st)"
| "metricWriter st Flush =
     (if st = 0 then then_pass (metric_WriteHeader st 200) Flush else pass Flush st)"
| "metricWriter st Hijack = pass Hijack st"

definition trace_WriteHeader :: "int \<Rightarrow> int \<Rightarrow> (reply \<times> int) prog" where
  "trace_WriteHeader st code =
     (if st \<noteq> 0 then Ret (Done, st)
      else Call (WriteHeader code)
        (\<lambda>r. case r of
               Panicked v \<Rightarrow> Ret (Panicked v, st)
             | _ \<Rightarrow> Ret (Done, if code \<ge> 200 \<or> code = 101 then code else st)))"

fun traceWriter :: "int method_table" where
  "traceWriter st (WriteHeader code) = trace_WriteHeader st code"
| "traceWriter st (Write data) =
     (if st = 0 then then_pass (trace_WriteHeader st 200) (Write data) else pass (Write data) st)"
| "traceWriter st Flush =
     (if st = 0 then then_pass (trace_WriteHeader st 200) Flush else pass Flush st)"
| "traceWriter st Hijack = pass Hijack st"

section \<open>The contract\<close>

text \<open>
  \<open>tracks s q\<close>: state \<open>s\<close> of the writer agrees with what the response \<open>q\<close> has sent. Each method
  answers what the response itself would answer, has the same effect on it, and keeps the
  agreement.
\<close>

locale tracker =
  fixes m :: "'s method_table" and tracks :: "'s \<Rightarrow> resp \<Rightarrow> bool"
  assumes tracks_live: "tracks s (q\<lparr>live := h\<rparr>) \<longleftrightarrow> tracks s q"
    and call: "tracks s q \<Longrightarrow> base_call op q = (r, q') \<Longrightarrow>
      \<exists>s'. run (m s op) q w = (Inr (r, s'), q', w) \<and> tracks s' q'"
begin

lemma transparent:
  "tracks s q \<Longrightarrow> run p q w = (res, q', w') \<Longrightarrow>
     \<exists>s'. run (wrap p m s) q w = (Inr (res, s'), q', w') \<and> tracks s' q'"
proof (induction p arbitrary: s q w)
  case (Call op k)
  obtain r q1 where base: "base_call op q = (r, q1)" by (cases "base_call op q")
  from call [OF Call.prems(1) base] obtain s1 where
    s1: "run (m s op) q w = (Inr (r, s1), q1, w)" "tracks s1 q1" by blast
  have "run (k r) q1 w = (res, q', w')" using Call.prems(2) base by simp
  from Call.IH [OF _ s1(2) this] obtain s' where
    "run (wrap (k r) m s1) q1 w = (Inr (res, s'), q', w')" "tracks s' q'" by blast
  then show ?case using s1(1) by (auto simp: run_bind)
next
  case (Hdr u k)
  then show ?case by (simp add: tracks_live)
qed auto

end

text \<open>The two kinds of agreement: whether something final was sent, and which status.\<close>

definition committed_ok :: "bool \<Rightarrow> resp \<Rightarrow> bool" where
  "committed_ok c q \<longleftrightarrow> (c \<longleftrightarrow> status q \<noteq> None \<or> hijacked q)"

definition status_ok :: "int \<Rightarrow> resp \<Rightarrow> bool" where
  "status_ok st q \<longleftrightarrow> hijacked q \<or> (if st = 0 then status q = None else status q = Some st)"

lemma committed_new [simp]: "committed_ok False (new_response is_head io)"
  by (simp add: committed_ok_def new_response_def)

lemma status_new [simp]: "status_ok 0 (new_response is_head io)"
  by (simp add: status_ok_def new_response_def)

lemma base_write_explicit:
  "\<not> hijacked q \<Longrightarrow> status q = None \<Longrightarrow> base_write data (snd (base_write_header 200 q)) = base_write data q"
  by (simp add: base_write_def implicit_header_def base_write_header_def invalid_code_def)

lemma base_flush_explicit:
  "status q = None \<Longrightarrow> base_flush (snd (base_write_header 200 q)) = base_flush q"
  by (simp add: base_flush_def implicit_header_def base_write_header_def invalid_code_def)

lemma write_header_200: "base_write_header 200 q = (Done, snd (base_write_header 200 q))"
  by (simp add: base_write_header_def invalid_code_def)

lemma hijacked_kept [simp]:
  "hijacked (snd (base_write_header code q)) = hijacked q" "hijacked (implicit_header q) = hijacked q"
  "hijacked (snd (base_write data q)) = hijacked q" "hijacked (snd (base_flush q)) = hijacked q"
  by (simp_all add: base_write_header_def implicit_header_def base_write_def base_flush_def connection_io_def Let_def split: option.splits)

lemma status_after:
  "\<not> hijacked q \<Longrightarrow> status (implicit_header q) = Some (case status q of None \<Rightarrow> 200 | Some st \<Rightarrow> st)"
  "\<not> hijacked q \<Longrightarrow> status (snd (base_write data q)) = Some (case status q of None \<Rightarrow> 200 | Some st \<Rightarrow> st)"
  "\<not> hijacked q \<Longrightarrow> status (snd (base_flush q)) = Some (case status q of None \<Rightarrow> 200 | Some st \<Rightarrow> st)"
  "status (snd (base_hijack q)) = status q"
  by (auto simp: implicit_header_def base_write_header_def invalid_code_def base_write_def base_flush_def
      base_hijack_def connection_io_def Let_def split: option.splits)

lemma run_pass [http_run]: "run (pass op s) q w = (case base_call op q of (r, q') \<Rightarrow> (Inr (r, s), q', w))"
  by (simp add: pass_def split: prod.splits)

lemma hijack_committed: "base_hijack q = (r, q') \<Longrightarrow> hijacked q' \<longleftrightarrow> hijacked q \<or> r = Done"
  by (auto simp: base_hijack_def connection_io_def Let_def split: if_splits option.splits)

lemma write_header_status:
  assumes "base_write_header code q = (r, q')" "\<not> hijacked q" "status q = None"
  shows "status q' = (if r = Done \<and> (code = 101 \<or> code \<ge> 200) then Some code else None)"
    and "r = Done \<or> (\<exists>v. r = Panicked v)"
proof -
  consider "invalid_code code" | "\<not> invalid_code code" "code \<le> 199 \<and> code \<noteq> 101"
    | "\<not> invalid_code code" "\<not> (code \<le> 199 \<and> code \<noteq> 101)" by blast
  then have "status q' = (if r = Done \<and> (code = 101 \<or> code \<ge> 200) then Some code else None) \<and>
      (r = Done \<or> (\<exists>v. r = Panicked v))"
    by cases (use assms in \<open>auto simp: base_write_header_def\<close>)
  then show "status q' = (if r = Done \<and> (code = 101 \<or> code \<ge> 200) then Some code else None)"
    and "r = Done \<or> (\<exists>v. r = Panicked v)" by blast+
qed

lemma base_call_hijacked: "base_call op q = (r, q') \<Longrightarrow> hijacked q \<Longrightarrow> hijacked q'"
proof -
  assume call: "base_call op q = (r, q')" and hj: "hijacked q"
  from call have "q' = snd (base_call op q)" by simp
  then show "hijacked q'" using hj call by (cases op) (simp_all add: hijack_committed)
qed

lemma base_call_status: "base_call op q = (r, q') \<Longrightarrow> status q = Some st \<Longrightarrow> \<not> hijacked q \<Longrightarrow> status q' = Some st"
proof (cases op)
  case (WriteHeader code)
  moreover assume "base_call op q = (r, q')" "status q = Some st" "\<not> hijacked q"
  ultimately show ?thesis by (simp add: base_write_header_def)
next
  case (Write data)
  moreover assume "base_call op q = (r, q')" "status q = Some st" "\<not> hijacked q"
  ultimately show ?thesis using status_after(2) [of q data] by simp
next
  case Flush
  moreover assume "base_call op q = (r, q')" "status q = Some st" "\<not> hijacked q"
  ultimately show ?thesis using status_after(3) [of q] by simp
next
  case Hijack
  moreover assume "base_call op q = (r, q')" "status q = Some st" "\<not> hijacked q"
  ultimately show ?thesis using status_after(4) [of q] by simp
qed

lemma commit_call:
  assumes "committed_ok c q" "base_call op q = (r, q')"
  shows "\<exists>c'. run (commitWriter c op) q w = (Inr (r, c'), q', w) \<and> committed_ok c' q'"
proof (cases "status q \<noteq> None \<or> hijacked q")
  case True
  then have c: "c" using assms(1) by (simp add: committed_ok_def)
  have kept: "status q' \<noteq> None \<or> hijacked q'"
    using True base_call_hijacked [OF assms(2)] base_call_status [OF assms(2)] by auto
  show ?thesis
  proof (cases op)
    case (WriteHeader code)
    then have "(r, q') = (Done, q)" using assms(2) True by (auto simp: base_write_header_def)
    then show ?thesis using WriteHeader True c by (auto simp: commit_WriteHeader_def committed_ok_def)
  qed (use assms(2) c kept in \<open>auto simp: run_pass committed_ok_def split: prod.splits\<close>)
next
  case False
  then have c: "\<not> c" using assms(1) by (simp add: committed_ok_def)
  let ?q1 = "snd (base_write_header 200 q)"
  have q1: "run (commit_WriteHeader c 200) q w = (Inr (Done, True), ?q1, w)"
    using c by (simp add: commit_WriteHeader_def) (subst write_header_200, simp)
  show ?thesis
  proof (cases op)
    case (WriteHeader code)
    then show ?thesis
      using assms(2) c False write_header_status [of code q r q'] hijacked_kept(1) [of code q]
      by (auto simp: commit_WriteHeader_def committed_ok_def split: if_splits)
  next
    case (Write data)
    then show ?thesis
      using assms(2) c False q1 status_after(2) [of q data] base_write_explicit [of q data]
      by (auto simp: then_pass_def run_bind run_pass committed_ok_def split: prod.splits)
  next
    case Flush
    then show ?thesis
      using assms(2) c False q1 status_after(3) [of q] base_flush_explicit [of q]
      by (auto simp: then_pass_def run_bind run_pass committed_ok_def split: prod.splits)
  next
    case Hijack
    then show ?thesis
      using assms(2) c False hijack_committed [of q r q'] status_after(4) [of q]
      by (auto simp: committed_ok_def)
  qed
qed

interpretation commit: tracker commitWriter committed_ok
  by unfold_locales (simp_all add: commit_call, simp add: committed_ok_def)

lemma response_hijacked:
  assumes "hijacked q" "base_call op q = (r, q')"
  shows "\<exists>st'. run (responseWriter st op) q w = (Inr (r, st'), q', w) \<and> status_ok st' q'"
proof -
  have h: "hijacked q'" using base_call_hijacked [OF assms(2) assms(1)] .
  have wh: "base_write_header code q = (Done, q)" for code using assms(1) by (simp add: base_write_header_def)
  have rq: "r = fst (base_call op q)" "q' = snd (base_call op q)" using assms(2) by simp_all
  have "\<exists>st'. run (responseWriter st op) q w = (Inr (r, st'), q', w)"
    unfolding rq by (cases op) (simp_all add: response_WriteHeader_def then_pass_def pass_def wh split_beta)
  with h show ?thesis by (auto simp: status_ok_def)
qed

lemma response_unsent:
  assumes "\<not> hijacked q" "status q = None" "base_call op q = (r, q')"
  shows "\<exists>st'. run (responseWriter 0 op) q w = (Inr (r, st'), q', w) \<and> status_ok st' q'"
proof -
  have q1: "run (response_WriteHeader 0 200) q w = (Inr (Done, 200), snd (base_write_header 200 q), w)"
    by (simp add: response_WriteHeader_def) (subst write_header_200, simp)
  show ?thesis
  proof (cases op)
    case (WriteHeader code)
    let ?st = "if r = Done \<and> (code = 101 \<or> code \<ge> 200) then code else 0"
    have wh: "base_write_header code q = (r, q')" using assms(3) WriteHeader by simp
    note st = write_header_status [OF wh assms(1,2)]
    have "run (responseWriter 0 op) q w = (Inr (r, ?st), q', w)"
      using wh st(2) WriteHeader by (auto simp: response_WriteHeader_def)
    moreover have "status_ok ?st q'" using st(1) by (auto simp: status_ok_def)
    ultimately show ?thesis by blast
  next
    case (Write data)
    then show ?thesis
      using assms q1 status_after(2) [of q data] base_write_explicit [of q data]
      by (auto simp: then_pass_def run_bind run_pass status_ok_def split: prod.splits)
  next
    case Flush
    then show ?thesis
      using assms q1 status_after(3) [of q] base_flush_explicit [of q]
      by (auto simp: then_pass_def run_bind run_pass status_ok_def split: prod.splits)
  next
    case Hijack
    then show ?thesis
      using assms status_after(4) [of q] by (auto simp: run_pass status_ok_def)
  qed
qed

lemma response_call:
  assumes "status_ok st q" "base_call op q = (r, q')"
  shows "\<exists>st'. run (responseWriter st op) q w = (Inr (r, st'), q', w) \<and> status_ok st' q'"
proof -
  consider "hijacked q" | "\<not> hijacked q" "st = 0" "status q = None" | "\<not> hijacked q" "st \<noteq> 0" "status q = Some st"
    using assms(1) by (auto simp: status_ok_def split: if_splits)
  then show ?thesis
  proof cases
    case 1
    then show ?thesis by (rule response_hijacked [OF _ assms(2)])
  next
    case 2
    then show ?thesis using response_unsent [OF _ _ assms(2)] by simp
  next
    case set: 3
    then have "status_ok st q'" using base_call_status [OF assms(2) set(3,1)] by (simp add: status_ok_def)
    moreover have "run (responseWriter st op) q w = (Inr (r, st), q', w)"
      using assms(2) set by (cases op) (auto simp: response_WriteHeader_def run_pass base_write_header_def)
    ultimately show ?thesis by blast
  qed
qed

interpretation response: tracker responseWriter status_ok
  by unfold_locales (simp_all add: response_call, simp add: status_ok_def)

lemma metricWriter_eq: "metricWriter st op = responseWriter st op"
  by (cases op) (auto simp: metric_WriteHeader_def response_WriteHeader_def disj_commute)

lemma traceWriter_eq: "traceWriter st op = responseWriter st op"
  by (cases op) (auto simp: trace_WriteHeader_def response_WriteHeader_def disj_commute)

interpretation metric: tracker metricWriter status_ok
  by unfold_locales (simp_all add: metricWriter_eq response.call response.tracks_live)

interpretation trace: tracker traceWriter status_ok
  by unfold_locales (simp_all add: traceWriter_eq response.call response.tracks_live)

end
