(* ===== verification/Http_Error.thy ===== *)
theory Http_Error
  imports Http_Writers
begin

text \<open>
  The public response contract: \<^verbatim>\<open>error.go\<close>, \<^verbatim>\<open>response.go\<close> and \<^verbatim>\<open>pagination.go\<close> of
  \<^verbatim>\<open>src/internal/platform/httpserver\<close>, with the part of \<^verbatim>\<open>encoding/json\<close> that prints their
  envelopes.
\<close>

section \<open>JSON text\<close>

definition hex_digit :: "nat \<Rightarrow> char" where
  "hex_digit n = (if n < 10 then char_of (48 + n) else char_of (87 + n))"

text \<open>An ASCII byte as \<^verbatim>\<open>encoding/json\<close> writes it, with HTML escaping on.\<close>

definition json_ascii :: "char \<Rightarrow> bytes" where
  "json_ascii c =
     (let n = of_char c :: nat; bs = CHR 0x5C
      in if c = CHR 0x22 \<or> c = bs then [bs, c]
         else if n = 8 then [bs, CHR ''b'']
         else if n = 12 then [bs, CHR ''f'']
         else if n = 10 then [bs, CHR ''n'']
         else if n = 13 then [bs, CHR ''r'']
         else if n = 9 then [bs, CHR ''t'']
         else if n < 32 \<or> c \<in> {CHR ''<'', CHR ''>'', CHR ''&''}
              then [bs, CHR ''u'', CHR ''0'', CHR ''0'', hex_digit (n div 16), hex_digit (n mod 16)]
         else [c])"

text \<open>The length of the valid multi-byte UTF-8 sequence a string starts with, 0 if there is none.\<close>

definition byte_in :: "nat \<Rightarrow> nat \<Rightarrow> char \<Rightarrow> bool" where
  "byte_in lo hi c \<longleftrightarrow> lo \<le> (of_char c :: nat) \<and> of_char c \<le> hi"

definition utf8_size :: "bytes \<Rightarrow> nat" where
  "utf8_size s =
     (case s of
        a # b # rest \<Rightarrow>
          let n = of_char a :: nat; cont = byte_in 128 191;
              second = (if n = 224 then byte_in 160 191 else if n = 237 then byte_in 128 159
                        else if n = 240 then byte_in 144 191 else if n = 244 then byte_in 128 143 else cont)
          in if 194 \<le> n \<and> n \<le> 223 \<and> cont b then 2
             else if 224 \<le> n \<and> n \<le> 239 \<and> second b \<and> (case rest of c # _ \<Rightarrow> cont c | _ \<Rightarrow> False) then 3
             else if 240 \<le> n \<and> n \<le> 244 \<and> second b \<and> (case rest of c # d # _ \<Rightarrow> cont c \<and> cont d | _ \<Rightarrow> False) then 4
             else 0
      | _ \<Rightarrow> 0)"

definition line_separator :: "bytes \<Rightarrow> bool" where
  "line_separator r \<longleftrightarrow> r = [CHR 0xE2, CHR 0x80, CHR 0xA8] \<or> r = [CHR 0xE2, CHR 0x80, CHR 0xA9]"

fun json_chars :: "bytes \<Rightarrow> bytes" where
  "json_chars [] = []"
| "json_chars (c # cs) =
     (if is_ascii c then json_ascii c @ json_chars cs
      else
        let n = utf8_size (c # cs); r = take n (c # cs); rest = drop (n - 1) cs
        in if n = 0 then CHR 0x5C # ''ufffd'' @ json_chars cs
           else if line_separator r
                then CHR 0x5C # ''u202'' @ [if last r = CHR 0xA8 then CHR ''8'' else CHR ''9''] @ json_chars rest
           else r @ json_chars rest)"

definition json_string :: "bytes \<Rightarrow> bytes" where
  "json_string s = CHR 0x22 # json_chars s @ [CHR 0x22]"

text \<open>Values as the envelopes use them; \<open>JRaw\<close> is the encoding of a value of the caller.\<close>

datatype json = JBool bool | JInt int | JString bytes | JRaw bytes | JArr "json list" | JObj "(string \<times> json) list"

fun json_print :: "json \<Rightarrow> bytes" where
  "json_print (JBool b) = (if b then ''true'' else ''false'')"
| "json_print (JInt i) = Itoa i"
| "json_print (JString s) = json_string s"
| "json_print (JRaw s) = s"
| "json_print (JArr vs) = CHR ''['' # Join (map json_print vs) '','' @ '']''"
| "json_print (JObj kvs) =
     CHR ''{'' # Join (map (\<lambda>(k, v). json_string k @ CHR '':'' # json_print v) kvs) '','' @ ''}''"

text \<open>A field tagged \<^verbatim>\<open>omitempty\<close>.\<close>

definition omitempty :: "bool \<Rightarrow> string \<Rightarrow> json \<Rightarrow> (string \<times> json) list" where
  "omitempty is_zero k v = (if is_zero then [] else [(k, v)])"

section \<open>error.go\<close>

text \<open>\<^verbatim>\<open>ErrorResponse\<close> with its \<^verbatim>\<open>ErrorDetail\<close> and \<^verbatim>\<open>FieldError\<close>s.\<close>

record error_detail =
  ed_code :: string
  ed_details :: "field_violation list"
  ed_message :: string
  ed_request_id :: string

definition FieldError :: "field_violation \<Rightarrow> json" where
  "FieldError d = JObj [(''field'', JString (Field d)), (''message'', JString (Message d))]"

definition ErrorResponse :: "bool \<Rightarrow> int \<Rightarrow> error_detail \<Rightarrow> json" where
  "ErrorResponse success st e =
     JObj [(''success'', JBool success), (''status'', JInt st),
           (''error'', JObj ([(''code'', JString (ed_code e))] @
              omitempty (ed_details e = []) ''details'' (JArr (map FieldError (ed_details e))) @
              [(''message'', JString (ed_message e))] @
              omitempty (ed_request_id e = []) ''request_id'' (JString (ed_request_id e))))]"

abbreviation errInvalidRequest :: string where "errInvalidRequest \<equiv> ''INVALID_REQUEST''"
abbreviation errBodyTooLarge :: string where "errBodyTooLarge \<equiv> ''REQUEST_TOO_LARGE''"
abbreviation errMediaType :: string where "errMediaType \<equiv> ''UNSUPPORTED_MEDIA_TYPE''"

definition classify :: "gerror option \<Rightarrow> int \<times> string \<times> string" where
  "classify err =
     (let code = CodeOf err
      in if code = ErrInvalidInput then (400, code, ''Invalid input'')
         else if code = ErrUnauthorized then (401, code, ''Authentication required'')
         else if code = ErrForbidden then (403, code, ''Access forbidden'')
         else if code = errInvalidRequest then (400, code, ''Invalid JSON request'')
         else if code = errBodyTooLarge then (413, code, ''Request body too large'')
         else if code = errMediaType then (415, code, ''Content-Type must be application/json'')
         else if code = ErrAddressNotFound then (404, code, ''Address not found'')
         else if code = ErrInvalidAddress then (400, code, ''Invalid address'')
         else if code = ErrInvalidCoordinates then (400, code, ''Invalid coordinates'')
         else if code = ErrProviderUnavailable then (503, code, ''Provider unavailable'')
         else if code = ErrRateLimitExceeded then (429, code, ''Rate limit exceeded'')
         else (500, ErrInternal, ''Internal server error''))"

definition write_json :: "request \<Rightarrow> int \<Rightarrow> string \<Rightarrow> string \<Rightarrow> field_violation list \<Rightarrow> unit prog" where
  "write_json r st code message details =
     seq (update_header (header_del ''Content-Length''))
     (seq (set_header ''Content-Type'' ''application/json'')
     (seq (set_header ''Cache-Control'' ''no-store'')
     (seq (set_header ''X-Content-Type-Options'' ''nosniff'')
     (seq (do_write_header st)
     (if Method r = ''HEAD'' then Ret ()
      else bind (do_write (json_print (ErrorResponse False st
                  \<lparr>ed_code = code, ed_details = details, ed_message = message,
                   ed_request_id = requestID (ctx r)\<rparr>) @ [CHR 0x0A]))
             (\<lambda>_. Ret ()))))))"

text \<open>The details of the outermost classification, when that is a validation error.\<close>

definition validation_details :: "gerror \<Rightarrow> field_violation list" where
  "validation_details e =
     (case errors_As (\<lambda>x. ErrorCode x \<noteq> None) e of
        Some (ValidationErr details) \<Rightarrow> details
      | _ \<Rightarrow> [])"

definition WriteError :: "request \<Rightarrow> gerror option \<Rightarrow> unit prog" where
  "WriteError r err =
     (case err of
        None \<Rightarrow> Ret ()
      | Some e \<Rightarrow>
          (case classify err of (st, code, message) \<Rightarrow> write_json r st code message (validation_details e)))"

text \<open>\<^verbatim>\<open>Adapt\<close>: a handler that returns an error.\<close>

definition Adapt :: "(request \<Rightarrow> gerror option prog) \<Rightarrow> handler" where
  "Adapt h r = bind (h r) (\<lambda>err. if err \<noteq> None then WriteError r err else Ret ())"

definition NotFound :: handler where
  "NotFound r = write_json r 404 ''ROUTE_NOT_FOUND'' ''Route not found'' []"

definition MethodNotAllowed :: handler where
  "MethodNotAllowed r = write_json r 405 ''METHOD_NOT_ALLOWED'' ''Method not allowed'' []"

section \<open>response.go\<close>

text \<open>\<^verbatim>\<open>json.Marshal\<close> of a caller's value: its text, or the error of an unsupported value.\<close>

type_synonym marshalled = "gerror + bytes"

record pagination_meta =
  pm_page :: int
  pm_limit :: int
  pm_total :: int
  pm_pages :: int

definition PaginationMeta :: "pagination_meta \<Rightarrow> json" where
  "PaginationMeta m = JObj [(''page'', JInt (pm_page m)), (''limit'', JInt (pm_limit m)),
     (''total_records'', JInt (pm_total m)), (''total_pages'', JInt (pm_pages m))]"

definition SuccessResponse :: "int \<Rightarrow> string \<Rightarrow> marshalled \<Rightarrow> pagination_meta option \<Rightarrow> marshalled" where
  "SuccessResponse st message data meta =
     bind_sum data (\<lambda>d. Inr (json_print (JObj (
       [(''success'', JBool True), (''status'', JInt st)] @
       omitempty (message = []) ''message'' (JString message) @ [(''data'', JRaw d)] @
       (case meta of None \<Rightarrow> [] | Some m \<Rightarrow> [(''meta'', PaginationMeta m)])))))"

definition writeJSON :: "request \<Rightarrow> int \<Rightarrow> marshalled \<Rightarrow> gerror option prog" where
  "writeJSON r st value =
     (if st < 200 \<or> st > 599 \<or> st = 204 \<or> st = 205 \<or> st = 304
      then Ret (Some (NewErr ''JSON requires a final status that permits a body''))
      else
        (case value of
           Inl e \<Rightarrow> Ret (Some (WrapErr (''encode JSON response: '' @ Error e) e))
         | Inr encoded \<Rightarrow>
             let text = encoded @ [CHR 0x0A]
             in seq (set_header ''Content-Type'' ''application/json'')
                (seq (set_header ''X-Content-Type-Options'' ''nosniff'')
                (seq (set_header ''Content-Length'' (Itoa (int (length text))))
                (seq (do_write_header st)
                (if Method r = ''HEAD'' then Ret None
                 else bind (do_write text)
                        (\<lambda>err. if err \<noteq> None then Panic ErrAbortHandler else Ret None)))))))"

definition Success :: "request \<Rightarrow> int \<Rightarrow> string \<Rightarrow> marshalled \<Rightarrow> gerror option prog" where
  "Success r st message data =
     (if st < 200 \<or> st \<ge> 300 then Ret (Some (NewErr ''success requires a 2xx status''))
      else writeJSON r st (SuccessResponse st message data None))"

definition JSON :: "request \<Rightarrow> int \<Rightarrow> marshalled \<Rightarrow> gerror option prog" where
  "JSON r st value = Success r st [] value"

definition NoContent :: "request \<Rightarrow> gerror option prog" where
  "NoContent r =
     seq (update_header (header_del ''Content-Type''))
     (seq (update_header (header_del ''Content-Length''))
     (seq (do_write_header 204) (Ret None)))"

section \<open>pagination.go\<close>

text \<open>
  \<^verbatim>\<open>int64\<close> arithmetic: the result wrapped into the signed range. Division and remainder of a
  non-negative number by a positive one are those of the integers.
\<close>

definition int64 :: "int \<Rightarrow> int" where
  "int64 x = (x + 2 ^ 63) mod 2 ^ 64 - 2 ^ 63"

definition total_pages :: "int \<Rightarrow> int \<Rightarrow> int" where
  "total_pages total_count limit =
     (let pages = total_count div limit in if total_count mod limit \<noteq> 0 then int64 (pages + 1) else pages)"

definition Paginated ::
  "request \<Rightarrow> marshalled list \<Rightarrow> int \<Rightarrow> int \<Rightarrow> int \<Rightarrow> gerror option prog" where
  "Paginated r items page limit total_count =
     (if page < 1 \<or> limit < 1 \<or> total_count < 0 then Ret (Some (NewErr ''invalid pagination metadata''))
      else
        let pages = total_pages total_count limit; cnt = int64 (int (length items))
        in if cnt > limit \<or> cnt > total_count \<or> (page > pages \<and> cnt \<noteq> 0)
           then Ret (Some (NewErr ''items contradict pagination metadata''))
           else if page = pages \<and> total_count mod limit \<noteq> 0 \<and> cnt > total_count mod limit
           then Ret (Some (NewErr ''items exceed final page size''))
           else writeJSON r 200 (SuccessResponse 200 []
                  (bind_sum (map_sum_list id items) (\<lambda>es. Inr (json_print (JArr (map JRaw es)))))
                  (Some \<lparr>pm_page = page, pm_limit = limit, pm_total = total_count, pm_pages = pages\<rparr>)))"

section \<open>Error responses\<close>

text \<open>A response that nothing final has been sent on.\<close>

definition uncommitted :: "resp \<Rightarrow> bool" where
  "uncommitted q \<longleftrightarrow> status q = None \<and> \<not> hijacked q"

definition error_header :: "header \<Rightarrow> header" where
  "error_header h =
     header_set ''X-Content-Type-Options'' ''nosniff'' (header_set ''Cache-Control'' ''no-store''
       (header_set ''Content-Type'' ''application/json'' (header_del ''Content-Length'' h)))"

definition error_text :: "request \<Rightarrow> int \<Rightarrow> string \<Rightarrow> string \<Rightarrow> field_violation list \<Rightarrow> string" where
  "error_text r st code message details =
     json_print (ErrorResponse False st
       \<lparr>ed_code = code, ed_details = details, ed_message = message, ed_request_id = requestID (ctx r)\<rparr>) @ [CHR 0x0A]"

lemma error_header_length [simp]:
  "declared_length (error_header h) = None" "sent_header (error_header h) = error_header h"
  by (simp_all add: declared_length_def sent_header_def error_header_def)

definition commit_with :: "int \<Rightarrow> header \<Rightarrow> resp \<Rightarrow> resp" where
  "commit_with st h q = q\<lparr>live := h, status := Some st, sent := h, content_length := declared_length h\<rparr>"

lemma base_write_header_final:
  "uncommitted q \<Longrightarrow> 200 \<le> st \<Longrightarrow> st \<le> 999 \<Longrightarrow> sent_header (live q) = live q \<Longrightarrow>
     base_write_header st q = (Done, commit_with st (live q) q)"
  by (simp add: base_write_header_def invalid_code_def uncommitted_def commit_with_def)

lemma run_write_json:
  assumes "uncommitted q" "200 \<le> st" "st \<le> 999"
  shows "run (write_json r st code message details) q w =
     (Inr (), let q1 = commit_with st (error_header (live q)) q
              in if Method r = ''HEAD'' then q1 else snd (base_write (error_text r st code message details) q1), w)"
proof -
  let ?q0 = "q\<lparr>live := error_header (live q)\<rparr>"
  have "base_write_header st ?q0 = (Done, commit_with st (error_header (live q)) q)"
    using base_write_header_final [of ?q0 st] assms by (simp add: uncommitted_def commit_with_def)
  then show ?thesis
    by (simp add: write_json_def run_seq run_bind http_run error_header_def error_text_def Let_def
        split: prod.splits reply.splits)
qed

text \<open>The codes a client may see, and the error a client is told instead of the original one.\<close>

definition public_codes :: "string set" where
  "public_codes = {ErrInvalidInput, ErrUnauthorized, ErrForbidden, errInvalidRequest, errBodyTooLarge, errMediaType,
     ErrAddressNotFound, ErrInvalidAddress, ErrInvalidCoordinates, ErrProviderUnavailable, ErrRateLimitExceeded,
     ErrInternal}"

definition public_error :: "gerror \<Rightarrow> gerror" where
  "public_error e =
     (case validation_details e of
        [] \<Rightarrow> CodeErr (if CodeOf (Some e) \<in> public_codes then CodeOf (Some e) else ErrInternal)
      | ds \<Rightarrow> ValidationErr ds)"

lemma validation_details_code: "validation_details e \<noteq> [] \<Longrightarrow> CodeOf (Some e) = ErrInvalidInput"
  by (auto simp: validation_details_def CodeOf_def split: option.splits gerror.splits)

lemma validation_details_self [simp]:
  "validation_details (ValidationErr ds) = ds" "validation_details (CodeErr c) = []"
  by (simp_all add: validation_details_def errors_As.simps)

lemma classify_cong: "CodeOf a = CodeOf b \<Longrightarrow> classify a = classify b"
  by (simp add: classify_def)

lemma classify_hidden:
  "CodeOf a \<notin> public_codes \<Longrightarrow> classify a = (500, ErrInternal, ''Internal server error'')"
  by (simp add: classify_def public_codes_def)

lemma classify_internal: "classify (Some (CodeErr ErrInternal)) = (500, ErrInternal, ''Internal server error'')"
  by (simp add: classify_def CodeOf_classified)

lemma WriteError_public_error: "WriteError r (Some e) = WriteError r (Some (public_error e))"
proof (cases "validation_details e")
  case Nil
  then have v: "validation_details (public_error e) = []" by (simp add: public_error_def)
  have "classify (Some e) = classify (Some (public_error e))"
  proof (cases "CodeOf (Some e) \<in> public_codes")
    case True
    with Nil show ?thesis by (intro classify_cong) (simp add: public_error_def CodeOf_classified)
  next
    case False
    with Nil have "public_error e = CodeErr ErrInternal" by (simp add: public_error_def)
    then show ?thesis using classify_hidden [OF False] classify_internal by simp
  qed
  with Nil v show ?thesis by (simp add: WriteError_def)
next
  case (Cons d ds)
  then have "public_error e = ValidationErr (d # ds)" by (simp add: public_error_def)
  moreover have "CodeOf (Some e) = ErrInvalidInput" using Cons validation_details_code by simp
  ultimately have "classify (Some e) = classify (Some (public_error e))"
    by (intro classify_cong) (simp add: CodeOf_classified)
  with Cons \<open>public_error e = ValidationErr (d # ds)\<close> show ?thesis by (simp add: WriteError_def)
qed

lemma classify_status: "fst (classify e) \<in> {400, 401, 403, 404, 413, 415, 429, 500, 503}"
  by (simp add: classify_def Let_def)

lemma run_WriteError:
  assumes "uncommitted q" and cl: "classify (Some e) = (st, code, message)"
  shows "run (WriteError r (Some e)) q w =
     (Inr (), let q1 = commit_with st (error_header (live q)) q
              in if Method r = ''HEAD'' then q1
                 else snd (base_write (error_text r st code message (validation_details e)) q1), w)"
proof -
  have "200 \<le> st" "st \<le> 999" using classify_status [of "Some e"] cl by auto
  with run_write_json [OF assms(1)] cl show ?thesis by (simp add: WriteError_def)
qed

section \<open>Success responses\<close>

definition json_header :: "string \<Rightarrow> header \<Rightarrow> header" where
  "json_header text h =
     header_set ''Content-Length'' (Itoa (int (length text)))
       (header_set ''X-Content-Type-Options'' ''nosniff'' (header_set ''Content-Type'' ''application/json'' h))"

lemma json_header_length:
  assumes "int (length text) < 2 ^ 63"
  shows "declared_length (json_header text h) = Some (int (length text))"
    "sent_header (json_header text h) = json_header text h"
proof -
  have "ParseInt 64 (Itoa (int (length text))) = Some (int (length text))"
    using assms by (intro ParseInt_Itoa) simp_all
  moreover obtain c cs where "Itoa (int (length text)) = c # cs" using Itoa_nonempty by (meson list.exhaust)
  ultimately show "declared_length (json_header text h) = Some (int (length text))"
    by (simp add: declared_length_def json_header_def)
  then show "sent_header (json_header text h) = json_header text h"
    by (simp add: sent_header_def)
qed

definition accepts_json :: "int \<Rightarrow> bool" where
  "accepts_json st \<longleftrightarrow> 200 \<le> st \<and> st \<le> 599 \<and> st \<notin> {204, 205, 304}"

lemma run_writeJSON:
  assumes "uncommitted q" "accepts_json st" "int (length encoded) < 2 ^ 63 - 1"
  shows "run (writeJSON r st (Inr encoded)) q w =
     (let text = encoded @ [CHR 0x0A]; q1 = commit_with st (json_header text (live q)) q
      in if Method r = ''HEAD'' then (Inr None, q1, w)
         else case base_write text q1 of
                (Failed e, q2) \<Rightarrow> (Inl ErrAbortHandler, q2, w)
              | (_, q2) \<Rightarrow> (Inr None, q2, w))"
proof -
  let ?text = "encoded @ [CHR 0x0A]"
  let ?q0 = "q\<lparr>live := json_header ?text (live q)\<rparr>"
  have len: "int (length ?text) < 2 ^ 63" using assms(3) by simp
  have "base_write_header st ?q0 = (Done, commit_with st (json_header ?text (live q)) q)"
    using base_write_header_final [of ?q0 st] json_header_length [OF len] assms(1,2)
    by (simp add: uncommitted_def commit_with_def accepts_json_def)
  then show ?thesis
    using assms(2)
    by (simp add: writeJSON_def run_seq run_bind http_run json_header_def accepts_json_def Let_def
        split: prod.splits reply.splits)
qed

lemma writeJSON_rejects:
  assumes "\<not> accepts_json st \<or> (\<exists>e. val = Inl e)"
  shows "\<exists>e. writeJSON r st val = Ret (Some e)"
  using assms by (auto simp: writeJSON_def accepts_json_def split: sum.splits)

lemma base_write_new:
  assumes "\<not> hijacked q" "status q = Some st" "body_allowed st" "data \<noteq> []"
    "content_length q = None \<or> content_length q = Some (int (length data))" "written q = 0" "\<not> head_request q"
  shows "base_write data q =
    connection_io (q\<lparr>written := int (length data)\<rparr>) (\<lambda>q'. q'\<lparr>body := body q' @ data\<rparr>)"
  using assms by (auto simp: base_write_def implicit_header_def Let_def)

text \<open>
  C9. \<^verbatim>\<open>writeJSON\<close> answers once or not at all. When it returns an error nothing has been sent, so the
  caller may still send an error response. Otherwise the status and a \<^verbatim>\<open>Content-Length\<close> that is
  exactly the length of the encoded envelope are sent, with the whole envelope as body, or none
  for a HEAD request; when the connection fails while the body is written the handler is aborted,
  never a second response attempted.
\<close>

theorem writeJSON_once:
  assumes "uncommitted q" and "written q = 0" and "body q = []" and "head_request q \<longleftrightarrow> Method r = ''HEAD''"
    and "\<forall>encoded. val = Inr encoded \<longrightarrow> int (length encoded) < 2 ^ 63 - 1"
    and "run (writeJSON r st val) q w = (res, q', w')"
  shows "w' = w \<and>
    (case res of
       Inr (Some e) \<Rightarrow> q' = q
     | Inr None \<Rightarrow>
         (\<exists>encoded. val = Inr encoded \<and> status q' = Some st \<and>
            content_length q' = Some (int (length (encoded @ [CHR 0x0A]))) \<and>
            header_get (sent q') ''Content-Type'' = ''application/json'' \<and>
            body q' = (if Method r = ''HEAD'' then [] else encoded @ [CHR 0x0A]))
     | Inl v \<Rightarrow> v = ErrAbortHandler \<and> io_failure q (io_count q) \<noteq> None \<and> status q' = Some st \<and> body q' = [])"
proof (cases "accepts_json st \<and> (\<exists>encoded. val = Inr encoded)")
  case False
  then obtain e where "writeJSON r st val = Ret (Some e)" using writeJSON_rejects [of st val r] by (cases val) auto
  with assms(6) show ?thesis by auto
next
  case True
  then obtain encoded where acc: "accepts_json st" and v: "val = Inr encoded" by blast
  let ?text = "encoded @ [CHR 0x0A]" and ?q1 = "commit_with st (json_header (encoded @ [CHR 0x0A]) (live q)) q"
  have len: "int (length encoded) < 2 ^ 63 - 1" using assms(5) v by blast
  have decl: "declared_length (json_header ?text (live q)) = Some (int (length ?text))"
    using len by (intro json_header_length) simp
  have ct: "header_get (json_header ?text (live q)) ''Content-Type'' = ''application/json''"
    by (simp add: json_header_def)
  show ?thesis
  proof (cases "Method r = ''HEAD''")
    case True
    then show ?thesis
      using assms(3,6) run_writeJSON [OF assms(1) acc len, of r w] v decl ct by (auto simp: commit_with_def Let_def)
  next
    case False
    have "base_write ?text ?q1 = connection_io (?q1\<lparr>written := int (length ?text)\<rparr>) (\<lambda>q'. q'\<lparr>body := body q' @ ?text\<rparr>)"
      using assms(1-4) False acc decl
      by (intro base_write_new) (auto simp: commit_with_def uncommitted_def body_allowed_def accepts_json_def)
    then show ?thesis
      using assms(3,6) run_writeJSON [OF assms(1) acc len, of r w] v decl ct False
      by (auto simp: commit_with_def Let_def connection_io_def split: option.splits)
  qed
qed

text \<open>A GET request and an open response for the witnesses.\<close>

definition demo_request :: request where
  "demo_request = \<lparr>Method = ''GET'', Path = ''/x'', r_header = [],
     ctx = \<lparr>requestID = ''r1'', traceID = [], ctx_principal = None\<rparr>\<rparr>"

definition open_response :: resp where
  "open_response = new_response False (\<lambda>_. None)"

lemma open_response_facts:
  "uncommitted open_response" "written open_response = 0" "body open_response = []"
  "head_request open_response \<longleftrightarrow> Method demo_request = ''HEAD''"
  by (simp_all add: open_response_def new_response_def uncommitted_def demo_request_def)

definition demo_sys :: sys where
  "demo_sys =
     \<lparr>clock = (\<lambda>n. 1000 * int n), clock_reads = 0, random = (\<lambda>n. replicate 16 CHR ''a''), random_reads = 0,
      trace_ids = (\<lambda>n. ''t''), frames = [(''main.f'', ''f.go'', 7)], deadline = None, logs = [],
      metrics_of = \<lparr>requests = replicate 6 0, durationNS = 0, inflight = 0\<rparr>,
      limiter_of = \<lparr>rate = 1, burst = 1, tokens = 1, last_time = 0\<rparr>, spans = []\<rparr>"

lemma demo_writeJSON:
  "\<exists>q'. run (writeJSON demo_request 200 (Inr ''1'')) open_response demo_sys = (Inr None, q', demo_sys)"
  using run_writeJSON [OF open_response_facts(1), of 200 "''1''" demo_request demo_sys]
    json_header_length(1) [of "''1'' @ [CHR 0x0A]" "[]"]
  by (simp add: accepts_json_def Let_def demo_request_def base_write_def commit_with_def connection_io_def
      open_response_def new_response_def implicit_header_def body_allowed_def)

theorem writeJSON_once_witness:
  "\<exists>q'. run (writeJSON demo_request 200 (Inr ''1'')) open_response demo_sys = (Inr None, q', demo_sys) \<and>
     body q' = ''1'' @ [CHR 0x0A] \<and> content_length q' = Some 2"
proof -
  obtain q' where eq: "run (writeJSON demo_request 200 (Inr ''1'')) open_response demo_sys = (Inr None, q', demo_sys)"
    using demo_writeJSON by blast
  then show ?thesis
    using writeJSON_once [OF open_response_facts _ eq] by (simp add: demo_request_def)
qed

text \<open>
  C8. \<^verbatim>\<open>WriteError\<close> reveals nothing of an error beyond its public classification: the response to an
  error is the response to an error without message or cause, either the bare code of the
  outermost classification (\<^verbatim>\<open>INTERNAL_ERROR\<close> unless that code is public) or a validation error with
  just the outermost field messages.
\<close>

theorem WriteError_hides_cause:
  "WriteError r (Some e) = WriteError r (Some (public_error e)) \<and>
   ((\<exists>c \<in> public_codes. public_error e = CodeErr c) \<or> public_error e = ValidationErr (validation_details e))"
proof -
  have "(\<exists>c \<in> public_codes. public_error e = CodeErr c) \<or> public_error e = ValidationErr (validation_details e)"
  proof (cases "validation_details e")
    case Nil
    moreover have "(if CodeOf (Some e) \<in> public_codes then CodeOf (Some e) else ErrInternal) \<in> public_codes"
      by (simp add: public_codes_def)
    ultimately show ?thesis by (simp add: public_error_def)
  qed (simp add: public_error_def)
  with WriteError_public_error show ?thesis by blast
qed

lemma error_response:
  assumes "uncommitted q" and "written q = 0" and "body q = []" and "head_request q \<longleftrightarrow> Method r = ''HEAD''"
    and "classify (Some e) = (st, code, message)"
    and "run (WriteError r (Some e)) q w = (res, q', w')"
  shows "res = Inr () \<and> w' = w \<and> status q' = Some st \<and> sent q' = error_header (live q) \<and>
    body q' = (if Method r = ''HEAD'' \<or> io_failure q (io_count q) \<noteq> None then []
               else error_text r st code message (validation_details e))"
proof -
  let ?text = "error_text r st code message (validation_details e)"
  let ?q1 = "commit_with st (error_header (live q)) q"
  have st: "st \<in> {400, 401, 403, 404, 413, 415, 429, 500, 503}"
    using classify_status [of "Some e"] assms(5) by simp
  then have allowed: "body_allowed st" by (auto simp: body_allowed_def)
  note out = run_WriteError [OF assms(1,5), of r w]
  show ?thesis
  proof (cases "Method r = ''HEAD''")
    case True
    then show ?thesis using assms(3,6) out by (auto simp: commit_with_def Let_def)
  next
    case False
    have "base_write ?text ?q1 = connection_io (?q1\<lparr>written := int (length ?text)\<rparr>) (\<lambda>q'. q'\<lparr>body := body q' @ ?text\<rparr>)"
      using assms(1-4) False allowed
      by (intro base_write_new) (auto simp: commit_with_def uncommitted_def error_text_def)
    then show ?thesis
      using assms(3,6) out False
      by (auto simp: commit_with_def Let_def connection_io_def split: option.splits)
  qed
qed

lemma error_header_values:
  "header_get (error_header h) ''Content-Type'' = ''application/json''"
  "header_get (error_header h) ''Cache-Control'' = ''no-store''"
  "header_get (error_header h) ''X-Content-Type-Options'' = ''nosniff''"
  "header_values (error_header h) ''Content-Length'' = []"
  by (simp_all add: error_header_def)

text \<open>
  On a response that is still open, \<^verbatim>\<open>WriteError\<close> sends the status of the error's class with the
  JSON envelope, never cached and never sniffed, and returns; a HEAD request gets no body.
\<close>

theorem WriteError_responds:
  assumes "uncommitted q" and "written q = 0" and "body q = []" and "head_request q \<longleftrightarrow> Method r = ''HEAD''"
    and "classify (Some e) = (st, code, message)"
    and "run (WriteError r (Some e)) q w = (res, q', w')"
  shows "res = Inr () \<and> w' = w \<and> status q' = Some st \<and> st \<in> {400, 401, 403, 404, 413, 415, 429, 500, 503} \<and>
    header_get (sent q') ''Content-Type'' = ''application/json'' \<and>
    header_get (sent q') ''Cache-Control'' = ''no-store'' \<and>
    header_get (sent q') ''X-Content-Type-Options'' = ''nosniff'' \<and>
    header_values (sent q') ''Content-Length'' = [] \<and>
    body q' = (if Method r = ''HEAD'' \<or> io_failure q (io_count q) \<noteq> None then []
               else error_text r st code message (validation_details e))"
  using error_response [OF assms] classify_status [of "Some e"] assms(5) by (simp add: error_header_values)

theorem WriteError_responds_witness:
  "\<exists>q'. run (WriteError demo_request (Some (WrapErr ''secret'' (CodeErr ErrForbidden)))) open_response demo_sys =
       (Inr (), q', demo_sys) \<and> status q' = Some 403"
proof -
  let ?e = "WrapErr ''secret'' (CodeErr ErrForbidden)"
  have cl: "classify (Some ?e) = (403, ErrForbidden, ''Access forbidden'')"
    by (simp add: classify_def CodeOf_WrapErr CodeOf_classified)
  obtain res q' w' where eq: "run (WriteError demo_request (Some ?e)) open_response demo_sys = (res, q', w')"
    by (metis prod_cases3)
  from WriteError_responds [OF open_response_facts cl eq] eq show ?thesis by simp
qed

section \<open>Pagination\<close>

text \<open>How many records page \<open>page\<close> of \<open>total\<close> records holds.\<close>

definition page_size :: "int \<Rightarrow> int \<Rightarrow> int \<Rightarrow> int" where
  "page_size page limit total_count = max 0 (min limit (total_count - (page - 1) * limit))"

lemma int64_id: "- (2 ^ 63) \<le> x \<Longrightarrow> x < 2 ^ 63 \<Longrightarrow> int64 x = x"
  by (simp add: int64_def)

lemma total_pages_bounds:
  assumes "1 \<le> limit" "0 \<le> total_count" "total_count < 2 ^ 63"
  shows "(total_pages total_count limit - 1) * limit < total_count \<or> total_count = 0"
    "total_count \<le> total_pages total_count limit * limit" "0 \<le> total_pages total_count limit"
    "total_count mod limit \<noteq> 0 \<Longrightarrow> total_count mod limit = total_count - (total_pages total_count limit - 1) * limit"
    "total_count mod limit = 0 \<Longrightarrow> total_pages total_count limit * limit = total_count"
proof -
  define d where "d = total_count div limit"
  define k where "k = total_count mod limit"
  have dm: "total_count = d * limit + k" "0 \<le> k" "k < limit" "0 \<le> d"
    using assms by (simp_all add: d_def k_def pos_imp_zdiv_nonneg_iff)
  have le: "d \<le> d * limit" using dm(4) assms(1) by (simp add: mult_le_cancel_left1)
  have "k \<noteq> 0 \<Longrightarrow> d + 1 < 2 ^ 63" using dm(1,2) le assms(3) by linarith
  then have "total_pages total_count limit = (if k \<noteq> 0 then d + 1 else d)"
    using dm(4) by (simp add: total_pages_def int64_id flip: d_def k_def)
  then consider "k \<noteq> 0" "total_pages total_count limit = d + 1" | "k = 0" "total_pages total_count limit = d"
    by (cases "k = 0") simp_all
  then have "((total_pages total_count limit - 1) * limit < total_count \<or> total_count = 0) \<and>
    total_count \<le> total_pages total_count limit * limit \<and> 0 \<le> total_pages total_count limit \<and>
    (k \<noteq> 0 \<longrightarrow> k = total_count - (total_pages total_count limit - 1) * limit) \<and>
    (k = 0 \<longrightarrow> total_pages total_count limit * limit = total_count)"
  proof cases
    case 1
    have "(d + 1) * limit = d * limit + limit" by (simp add: algebra_simps)
    then show ?thesis using 1 dm by simp
  next
    case 2
    have "(d - 1) * limit = d * limit - limit" by (simp add: algebra_simps)
    then show ?thesis using 2 dm by simp
  qed
  note all = this [unfolded k_def]
  from all show "(total_pages total_count limit - 1) * limit < total_count \<or> total_count = 0" by blast
  from all show "total_count \<le> total_pages total_count limit * limit" by blast
  from all show "0 \<le> total_pages total_count limit" by blast
  from all show "total_count mod limit \<noteq> 0 \<Longrightarrow> total_count mod limit = total_count - (total_pages total_count limit - 1) * limit"
    by blast
  from all show "total_count mod limit = 0 \<Longrightarrow> total_pages total_count limit * limit = total_count" by metis
qed

lemma page_checks:
  assumes "1 \<le> page" "1 \<le> limit" "0 \<le> total_count" "total_count < 2 ^ 63" "0 \<le> n"
  shows "\<not> (n > limit \<or> n > total_count \<or> (page > total_pages total_count limit \<and> n \<noteq> 0)) \<and>
         \<not> (page = total_pages total_count limit \<and> total_count mod limit \<noteq> 0 \<and> n > total_count mod limit) \<longleftrightarrow>
         n \<le> page_size page limit total_count"
proof -
  let ?P = "total_pages total_count limit" and ?skip = "(page - 1) * limit"
  note b = total_pages_bounds [OF assms(2-4)]
  have skip: "0 \<le> ?skip" using assms(1,2) by simp
  consider "page < ?P" | "page = ?P" | "page > ?P" by linarith
  then show ?thesis
  proof cases
    case 1
    then have "page * limit \<le> (?P - 1) * limit" using assms(2) by (intro mult_right_mono) auto
    moreover have "page * limit = ?skip + limit" by (simp add: algebra_simps)
    moreover have "total_count \<noteq> 0" using 1 b(5) assms(1,2) by (auto simp: mult_eq_0_iff)
    ultimately have "page_size page limit total_count = limit" "limit \<le> total_count"
      using b(1) skip assms(2) by (auto simp: page_size_def)
    then show ?thesis using 1 by auto
  next
    case 2
    show ?thesis
    proof (cases "total_count mod limit = 0")
      case True
      have "?P * limit = (?P - 1) * limit + limit" by (simp add: algebra_simps)
      then have "page_size page limit total_count = limit" "limit \<le> total_count"
        using 2 b(5) [OF True] assms(2) skip by (auto simp: page_size_def)
      then show ?thesis using 2 True by auto
    next
      case False
      then have "page_size page limit total_count = total_count mod limit"
        using 2 b(4) assms(2) pos_mod_bound [of limit total_count] pos_mod_sign [of limit total_count]
        by (simp add: page_size_def)
      moreover have "total_count mod limit < limit" "total_count mod limit \<le> total_count"
        using assms(2,3) by (simp_all add: zmod_le_nonneg_dividend)
      ultimately show ?thesis using 2 False by auto
    qed
  next
    case 3
    then have "?P * limit \<le> ?skip" using assms(2) by (intro mult_right_mono) auto
    then have "page_size page limit total_count = 0" using b(2) by (simp add: page_size_def)
    then show ?thesis using 3 assms(2,3,5) by auto
  qed
qed

text \<open>
  C13. \<^verbatim>\<open>Paginated\<close> accepts a page exactly when its metadata is positive and it holds no more items
  than that page of the collection can have; the number of pages it then reports is the least
  one that fits all records (none for an empty collection), for every 64-bit total, without
  overflow. Otherwise it returns an error and sends nothing.
\<close>

theorem Paginated_exact:
  assumes "total_count < 2 ^ 63" and "int (length items) < 2 ^ 63"
  shows "if 1 \<le> page \<and> 1 \<le> limit \<and> 0 \<le> total_count \<and> int (length items) \<le> page_size page limit total_count
    then \<exists>pages. total_count \<le> pages * limit \<and> (\<forall>k. total_count \<le> k * limit \<longrightarrow> pages \<le> k) \<and>
      Paginated r items page limit total_count =
        writeJSON r 200 (SuccessResponse 200 []
          (bind_sum (map_sum_list id items) (\<lambda>es. Inr (json_print (JArr (map JRaw es)))))
          (Some \<lparr>pm_page = page, pm_limit = limit, pm_total = total_count, pm_pages = pages\<rparr>))
    else \<exists>e. Paginated r items page limit total_count = Ret (Some e)"
proof (cases "1 \<le> page \<and> 1 \<le> limit \<and> 0 \<le> total_count")
  case False
  then show ?thesis by (auto simp: Paginated_def)
next
  case True
  let ?n = "int (length items)" and ?P = "total_pages total_count limit"
  have n: "int64 ?n = ?n" using assms(2) by (simp add: int64_id)
  note b = total_pages_bounds [of limit total_count] and c = page_checks [of page limit total_count ?n]
  have least: "?P \<le> k" if "total_count \<le> k * limit" for k
  proof (rule ccontr)
    assume "\<not> ?P \<le> k"
    then have "k * limit \<le> (?P - 1) * limit" using True by (intro mult_right_mono) auto
    moreover have "(?P - 1) * limit < total_count \<or> total_count = 0" using b(1) True assms(1) by blast
    ultimately have "total_count = 0" using that by linarith
    moreover from this have "?P = 0" using b(5) True assms(1) by auto
    ultimately show False using \<open>\<not> ?P \<le> k\<close> that True by (simp add: zero_le_mult_iff)
  qed
  show ?thesis
  proof (cases "?n \<le> page_size page limit total_count")
    case ok: True
    then show ?thesis
      using True c least b(2) assms(1) by (auto simp: Paginated_def Let_def n intro!: exI [of _ ?P])
  next
    case bad: False
    then show ?thesis using True c assms(1) by (auto simp: Paginated_def Let_def n)
  qed
qed

theorem Paginated_exact_witness:
  "\<exists>pages. 7 \<le> pages * 3 \<and> (\<forall>k. 7 \<le> k * 3 \<longrightarrow> pages \<le> k) \<and>
      Paginated demo_request [Inr ''9''] 3 3 7 =
        writeJSON demo_request 200 (SuccessResponse 200 [] (Inr ''[9]'')
          (Some \<lparr>pm_page = 3, pm_limit = 3, pm_total = 7, pm_pages = pages\<rparr>))"
  using Paginated_exact [of 7 "[Inr ''9'']" 3 3 demo_request] by (simp add: page_size_def)

end
