(* ===== verification/Ratelimit.thy ===== *)
theory Ratelimit
  imports Http_Error
begin

text \<open>
  \<^verbatim>\<open>src/internal/platform/httpserver/ratelimit.go\<close>: the token bucket. Its numbers are IEEE 754
  binary64; a number is the real it denotes and every operation rounds its exact result to the
  nearest representable one, ties to even. The quantities stay far below the overflow threshold.
\<close>

section \<open>Rounding\<close>

definition round_even :: "real \<Rightarrow> int" where
  "round_even x =
     (let f = \<lfloor>x\<rfloor>; r = x - of_int f
      in if r < 1 / 2 \<or> (r = 1 / 2 \<and> even f) then f else f + 1)"

definition exponent_of :: "real \<Rightarrow> int" where
  "exponent_of x = max (-1074) (\<lfloor>log 2 \<bar>x\<bar>\<rfloor> - 52)"

definition fl :: "real \<Rightarrow> real" where
  "fl x = (if x = 0 then 0 else of_int (round_even (x / 2 powr of_int (exponent_of x))) * 2 powr of_int (exponent_of x))"

section \<open>The limiter\<close>

text \<open>\<^verbatim>\<open>now.Sub(last)\<close> saturates at the ends of the \<^verbatim>\<open>Duration\<close> range.\<close>

definition time_sub :: "int \<Rightarrow> int \<Rightarrow> int" where
  "time_sub a b = max (- (2 ^ 63)) (min (2 ^ 63 - 1) (a - b))"

text \<open>\<^verbatim>\<open>Duration.Seconds\<close>: whole seconds plus the fraction; Go's division truncates towards zero.\<close>

definition quot_int :: "int \<Rightarrow> int \<Rightarrow> int" where
  "quot_int a b = (if 0 \<le> a then a div b else - ((- a) div b))"

definition seconds :: "int \<Rightarrow> real" where
  "seconds d =
     (let sec = quot_int d 1000000000; nsec = d - sec * 1000000000
      in fl (fl (of_int sec) + fl (fl (of_int nsec) / 1000000000)))"

definition NewLimiter :: "int \<Rightarrow> int \<Rightarrow> int \<Rightarrow> gerror + limiter" where
  "NewLimiter now r b =
     (if r \<le> 0 \<or> b \<le> 0 then Inl (NewErr ''rate and burst must be positive'')
      else Inr \<lparr>rate = fl (of_int r), burst = fl (of_int b), tokens = fl (of_int b), last_time = now\<rparr>)"

definition allow :: "int \<Rightarrow> limiter \<Rightarrow> (bool \<times> int) \<times> limiter" where
  "allow now l =
     (let t = min (burst l) (fl (tokens l + fl (max 0 (seconds (time_sub now (last_time l))) * rate l)));
          l1 = l\<lparr>tokens := t, last_time := now\<rparr>
      in if t \<ge> 1 then ((True, 0), l1\<lparr>tokens := fl (t - 1)\<rparr>)
         else ((False, \<lfloor>max 1 (of_int \<lceil>fl (fl (1 - t) / rate l)\<rceil> :: real)\<rfloor>), l1))"

text \<open>\<^verbatim>\<open>Limiter.Wrap\<close>.\<close>

definition limiter_allow :: "int \<Rightarrow> (bool \<times> int) prog" where
  "limiter_allow now =
     Sys (\<lambda>s. s\<lparr>limiter_of := snd (allow now (limiter_of s))\<rparr>) (\<lambda>s. Ret (fst (allow now (limiter_of s))))"

definition Limiter_Wrap :: "handler \<Rightarrow> handler" where
  "Limiter_Wrap next r =
     bind time_now (\<lambda>now. bind (limiter_allow now) (\<lambda>(ok, retry).
       if \<not> ok
       then seq (set_header ''Retry-After'' (Itoa retry)) (WriteError r (Some (CodeErr ErrRateLimitExceeded)))
       else next r))"

section \<open>Facts about rounding\<close>

lemma round_even_mono: assumes "x \<le> y" shows "round_even x \<le> round_even y"
proof (cases "\<lfloor>x\<rfloor> = \<lfloor>y\<rfloor>")
  case True
  then show ?thesis using assms by (auto simp: round_even_def Let_def)
next
  case False
  with assms have "\<lfloor>x\<rfloor> + 1 \<le> \<lfloor>y\<rfloor>" using floor_mono [OF assms] by linarith
  moreover have "round_even x \<le> \<lfloor>x\<rfloor> + 1" "\<lfloor>y\<rfloor> \<le> round_even y"
    by (auto simp: round_even_def Let_def)
  ultimately show ?thesis by linarith
qed

lemma round_even_of_int [simp]: "round_even (of_int n) = n"
  by (simp add: round_even_def)

lemma round_even_le: "x \<le> of_int n \<Longrightarrow> round_even x \<le> n"
  using round_even_mono [of x "of_int n"] by simp

lemma round_even_ge: "of_int n \<le> x \<Longrightarrow> n \<le> round_even x"
  using round_even_mono [of "of_int n" x] by simp

lemma fl_0 [simp]: "fl 0 = 0"
  by (simp add: fl_def)

lemma fl_nonneg: "0 \<le> x \<Longrightarrow> 0 \<le> fl x"
proof -
  assume "0 \<le> x"
  then have "0 \<le> round_even (x / 2 powr of_int (exponent_of x))" by (intro round_even_ge) simp
  then show ?thesis by (simp add: fl_def)
qed

lemma exponent_bounds:
  assumes "0 < x"
  shows "x < 2 powr (of_int (exponent_of x) + 53)"
    and "exponent_of x \<noteq> -1074 \<Longrightarrow> 2 powr (of_int (exponent_of x) + 52) \<le> x"
proof -
  let ?l = "\<lfloor>log 2 x\<rfloor>"
  have lo: "2 powr of_int ?l \<le> x" using assms by (simp add: powr_le_iff)
  have hi: "x < 2 powr (of_int ?l + 1)" using assms by (simp add: less_powr_iff)
  have "of_int ?l + 1 \<le> (of_int (exponent_of x) + 53 :: real)"
  proof -
    have "?l - 52 \<le> exponent_of x" using assms by (simp add: exponent_of_def)
    then show ?thesis by linarith
  qed
  then have "2 powr (of_int ?l + 1) \<le> (2 powr (of_int (exponent_of x) + 53) :: real)" by simp
  with hi show "x < 2 powr (of_int (exponent_of x) + 53)" by linarith
  assume "exponent_of x \<noteq> -1074"
  then have "exponent_of x = ?l - 52" using assms by (auto simp: exponent_of_def max_def split: if_splits)
  then have "of_int (exponent_of x) + 52 = (of_int ?l :: real)" by simp
  with lo show "2 powr (of_int (exponent_of x) + 52) \<le> x" by simp
qed

lemma exponent_mono: "0 < x \<Longrightarrow> x \<le> y \<Longrightarrow> exponent_of x \<le> exponent_of y"
proof -
  assume "0 < x" "x \<le> y"
  then have "\<lfloor>log 2 x\<rfloor> \<le> \<lfloor>log 2 y\<rfloor>" by (intro floor_mono) simp
  with \<open>0 < x\<close> \<open>x \<le> y\<close> show ?thesis unfolding exponent_of_def by simp
qed

lemma powr_split: "2 powr (of_int e + of_int n) = 2 powr of_int e * (2 powr of_int n :: real)"
  by (rule powr_add)

lemma fl_upper:
  assumes "0 < x" shows "fl x \<le> 2 powr (of_int (exponent_of x) + 53)"
proof -
  let ?u = "2 powr of_int (exponent_of x) :: real"
  have "x < ?u * 2 powr 53" using exponent_bounds(1) [OF assms] by (simp add: powr_add)
  then have "x / ?u < 2 powr 53" by (simp add: pos_divide_less_eq mult.commute)
  then have "x / ?u \<le> of_int (2 ^ 53)" by (simp add: powr_numeral)
  then have "round_even (x / ?u) \<le> 2 ^ 53" by (rule round_even_le)
  then have "real_of_int (round_even (x / ?u)) \<le> of_int (2 ^ 53)" by (simp only: of_int_le_iff)
  then have "of_int (round_even (x / ?u)) * ?u \<le> 2 ^ 53 * ?u" by (intro mult_right_mono) simp_all
  then show ?thesis using assms by (simp add: fl_def powr_add powr_numeral mult.commute)
qed

lemma fl_lower:
  assumes "0 < x" "exponent_of x \<noteq> -1074" shows "2 powr (of_int (exponent_of x) + 52) \<le> fl x"
proof -
  let ?u = "2 powr of_int (exponent_of x) :: real"
  have "?u * 2 powr 52 \<le> x" using exponent_bounds(2) [OF assms] by (simp add: powr_add)
  then have "of_int (2 ^ 52) \<le> x / ?u" by (simp add: pos_le_divide_eq mult.commute powr_numeral)
  then have "2 ^ 52 \<le> round_even (x / ?u)" by (rule round_even_ge)
  then have "real_of_int (2 ^ 52) \<le> of_int (round_even (x / ?u))" by (simp only: of_int_le_iff)
  then have "2 ^ 52 * ?u \<le> of_int (round_even (x / ?u)) * ?u" by (intro mult_right_mono) simp_all
  then show ?thesis using assms by (simp add: fl_def powr_add powr_numeral mult.commute)
qed

lemma fl_mono: assumes "0 \<le> x" "x \<le> y" shows "fl x \<le> fl y"
proof (cases "x = 0")
  case True
  then show ?thesis using fl_nonneg assms by simp
next
  case False
  then have x: "0 < x" and y: "0 < y" using assms by auto
  have e: "exponent_of x \<le> exponent_of y" by (rule exponent_mono [OF x assms(2)])
  show ?thesis
  proof (cases "exponent_of x = exponent_of y")
    case True
    let ?u = "2 powr of_int (exponent_of y) :: real"
    have "round_even (x / ?u) \<le> round_even (y / ?u)"
      by (rule round_even_mono) (use assms(2) in \<open>simp add: divide_right_mono\<close>)
    then show ?thesis using x y by (simp add: fl_def True mult_right_mono)
  next
    case False
    then have lt: "exponent_of x + 53 \<le> exponent_of y + 52" using e by linarith
    have "-1074 \<le> exponent_of x" by (simp add: exponent_of_def)
    then have ne: "exponent_of y \<noteq> -1074" using lt by linarith
    have "fl x \<le> 2 powr (of_int (exponent_of x) + 53)" by (rule fl_upper [OF x])
    also have "\<dots> \<le> 2 powr (of_int (exponent_of y) + 52)" using lt by simp
    also have "\<dots> \<le> fl y" by (rule fl_lower [OF y ne])
    finally show ?thesis .
  qed
qed

text \<open>Numbers with at most 53 significant bits are represented exactly.\<close>

lemma fl_exact:
  assumes "x = of_int k * 2 powr of_int e" "0 < k" "k \<le> 2 ^ 53" "-1074 \<le> e"
  shows "fl x = x"
proof -
  have x: "0 < x" using assms by simp
  have "exponent_of x \<le> e \<or> k = 2 ^ 53"
  proof (cases "k = 2 ^ 53")
    case False
    with assms(3) have "k < 2 ^ 53" by simp
    then have "real_of_int k < 2 powr 53" by (simp add: powr_numeral flip: of_int_less_iff)
    then have "x < 2 powr 53 * 2 powr of_int e" using assms(1) by simp
    then have "x < 2 powr (of_int (e + 53))" by (simp add: powr_add mult.commute)
    then have "log 2 x < of_int (e + 53)" using x by (simp add: log_less_iff)
    then have "\<lfloor>log 2 x\<rfloor> < e + 53" by (simp only: floor_less_iff)
    then show ?thesis using x assms(4) by (simp add: exponent_of_def)
  qed simp
  then show ?thesis
  proof
    assume le: "exponent_of x \<le> e"
    define d where "d = nat (e - exponent_of x)"
    have "x / 2 powr of_int (exponent_of x) = of_int k * 2 powr (of_int e - of_int (exponent_of x))"
      by (simp add: assms(1) powr_diff)
    also have "of_int e - of_int (exponent_of x) = real d" using le by (simp add: d_def)
    finally have "x / 2 powr of_int (exponent_of x) = of_int (k * 2 ^ d)" by (simp add: powr_realpow)
    then have "round_even (x / 2 powr of_int (exponent_of x)) = k * 2 ^ d" by (simp only: round_even_of_int)
    moreover have "of_int (k * 2 ^ d) = x / 2 powr of_int (exponent_of x)" using \<open>x / 2 powr of_int (exponent_of x) = of_int (k * 2 ^ d)\<close> by simp
    ultimately show ?thesis using x by (simp add: fl_def)
  next
    assume "k = 2 ^ 53"
    then have x_eq: "x = 2 powr of_int (e + 53)" by (simp add: assms(1) powr_add powr_numeral)
    then have "log 2 x = of_int (e + 53)" by simp
    then have "\<lfloor>log 2 x\<rfloor> = e + 53" by (simp only: floor_of_int)
    then have ex: "exponent_of x = e + 1" using assms(4) x by (simp add: exponent_of_def)
    have "x / 2 powr of_int (exponent_of x) = 2 powr (of_int (e + 53) - of_int (e + 1))"
      unfolding ex powr_diff by (simp only: x_eq)
    also have "\<dots> = of_int (2 ^ 52)" by (simp add: powr_numeral)
    finally have "x / 2 powr of_int (exponent_of x) = of_int (2 ^ 52)" .
    then show ?thesis using x by (simp only: fl_def round_even_of_int) (simp add: field_simps)
  qed
qed

lemma fl_form:
  assumes "0 < x"
  obtains k where "fl x = of_int k * 2 powr of_int (exponent_of x)" "0 \<le> k" "k \<le> 2 ^ 53"
proof -
  let ?u = "2 powr of_int (exponent_of x) :: real"
  have "x < ?u * 2 powr 53" using exponent_bounds(1) [OF assms] by (simp add: powr_add)
  then have "x / ?u \<le> of_int (2 ^ 53)" by (simp add: pos_divide_le_eq mult.commute powr_numeral)
  then have "round_even (x / ?u) \<le> 2 ^ 53" by (rule round_even_le)
  moreover have "0 \<le> round_even (x / ?u)" by (rule round_even_ge) (use assms in simp)
  ultimately show thesis using assms by (intro that [of "round_even (x / ?u)"]) (simp_all add: fl_def)
qed

lemma exponent_ge: "-1074 \<le> exponent_of x"
  by (simp add: exponent_of_def)

lemma fl_fl: assumes "0 \<le> x" shows "fl (fl x) = fl x"
proof (cases "x = 0")
  case False
  with assms have "0 < x" by simp
  then obtain k where k: "fl x = of_int k * 2 powr of_int (exponent_of x)" "0 \<le> k" "k \<le> 2 ^ 53"
    by (rule fl_form)
  show ?thesis
  proof (cases "k = 0")
    case True
    with k(1) show ?thesis by simp
  next
    case False
    with k(2) have "0 < k" by simp
    then show ?thesis using k exponent_ge by (intro fl_exact)
  qed
qed simp

lemma fl_int: assumes "0 \<le> n" "n \<le> 2 ^ 53" shows "fl (of_int n) = of_int n"
proof (cases "n = 0")
  case False
  with assms have "0 < n" by simp
  with assms(2) show ?thesis using fl_exact [of "of_int n" n 0] by simp
qed simp

lemma fl_error: assumes "0 \<le> x" "x \<le> b" "1 \<le> b" shows "fl x \<le> x + b / 2 ^ 53"
proof (cases "x = 0")
  case True
  then show ?thesis using assms by simp
next
  case False
  with assms have x: "0 < x" by simp
  let ?u = "2 powr of_int (exponent_of x) :: real"
  have "of_int (round_even y) \<le> y + 1 / 2" for y
    unfolding round_even_def Let_def by (cases "y - of_int \<lfloor>y\<rfloor> < 1 / 2") (simp_all, linarith+)
  then have "of_int (round_even (x / ?u)) \<le> x / ?u + 1 / 2" .
  then have "of_int (round_even (x / ?u)) * ?u \<le> (x / ?u + 1 / 2) * ?u" by (intro mult_right_mono) simp_all
  moreover have "(x / ?u + 1 / 2) * ?u = x + ?u / 2" by (simp add: distrib_right)
  ultimately have "fl x \<le> x + ?u / 2" using x by (simp add: fl_def)
  moreover have "?u \<le> b / 2 ^ 52"
  proof (cases "exponent_of x = -1074")
    case True
    have "?u \<le> 2 powr (-52)" using True by simp
    also have "\<dots> = 1 / 2 ^ 52" by (simp add: powr_minus powr_numeral field_simps)
    finally show ?thesis using assms(3) by (simp add: field_simps)
  next
    case False
    then have "?u * 2 powr 52 \<le> x" using exponent_bounds(2) [OF x False] by (simp add: powr_add)
    then show ?thesis using assms(2) by (simp add: powr_numeral field_simps)
  qed
  ultimately show ?thesis by (simp add: field_simps)
qed

lemma fl_minus_one:
  assumes "fl t = t" "1 \<le> t" "t < 2 ^ 53" shows "fl (t - 1) = t - 1"
proof (cases "t = 1")
  case False
  have t: "0 < t" using assms(2) by simp
  obtain k where k: "t = of_int k * 2 powr of_int (exponent_of t)" "0 \<le> k" "k \<le> 2 ^ 53"
    using fl_form [OF t] assms(1) by metis
  have "log 2 t < 53" using assms(3) t by (simp add: log_less_iff powr_numeral)
  then have e: "exponent_of t \<le> 0" using t by (simp add: exponent_of_def)
  define d where "d = nat (- exponent_of t)"
  have one: "1 = of_int (2 ^ d) * (2 powr of_int (exponent_of t) :: real)"
    using e by (simp add: d_def powr_realpow [symmetric] flip: powr_add)
  then have eq: "t - 1 = of_int (k - 2 ^ d) * 2 powr of_int (exponent_of t)"
    using k(1) by (simp add: algebra_simps)
  have "0 < t - 1" using False assms(2) by simp
  then have "0 < k - 2 ^ d" unfolding eq by (simp add: zero_less_mult_iff)
  moreover have "k - 2 ^ d \<le> 2 ^ 53"
  proof -
    have "(0 :: int) < 2 ^ d" by simp
    with k(3) show ?thesis by linarith
  qed
  ultimately show ?thesis using eq exponent_ge by (intro fl_exact)
qed simp

section \<open>The token bucket\<close>

definition limiter_ok :: "limiter \<Rightarrow> bool" where
  "limiter_ok l \<longleftrightarrow> 1 \<le> rate l \<and> 1 \<le> burst l \<and> burst l < 2 ^ 53 \<and> fl (burst l) = burst l \<and>
     0 \<le> tokens l \<and> tokens l \<le> burst l \<and> fl (tokens l) = tokens l"

text \<open>What a call at \<open>now\<close> adds before it looks for a token, as computed, and the resulting level.\<close>

definition refill :: "int \<Rightarrow> limiter \<Rightarrow> real" where
  "refill now l = fl (max 0 (seconds (time_sub now (last_time l))) * rate l)"

definition filled :: "int \<Rightarrow> limiter \<Rightarrow> real" where
  "filled now l = min (burst l) (fl (tokens l + refill now l))"

lemma refill_nonneg: "limiter_ok l \<Longrightarrow> 0 \<le> refill now l"
  by (simp add: refill_def limiter_ok_def fl_nonneg)

lemma filled_bounds:
  assumes "limiter_ok l"
  shows "tokens l \<le> filled now l" "filled now l \<le> burst l" "0 \<le> filled now l" "fl (filled now l) = filled now l"
    "filled now l \<le> tokens l + refill now l + burst l / 2 ^ 53"
proof -
  let ?y = "tokens l + refill now l"
  have y: "0 \<le> ?y" "tokens l \<le> ?y" using assms refill_nonneg [of l now] by (auto simp: limiter_ok_def)
  have "tokens l \<le> fl ?y" using fl_mono [of "tokens l" ?y] y assms by (simp add: limiter_ok_def)
  then show a: "tokens l \<le> filled now l" using assms by (simp add: filled_def limiter_ok_def)
  show "filled now l \<le> burst l" by (simp add: filled_def)
  show "0 \<le> filled now l" using a assms by (simp add: limiter_ok_def)
  show "fl (filled now l) = filled now l"
    using assms fl_fl [OF y(1)] by (auto simp: filled_def limiter_ok_def min_def)
  show "filled now l \<le> ?y + burst l / 2 ^ 53"
  proof (cases "?y \<le> burst l")
    case True
    then have "fl ?y \<le> ?y + burst l / 2 ^ 53" using y(1) assms by (intro fl_error) (simp_all add: limiter_ok_def)
    then show ?thesis by (simp add: filled_def)
  next
    case False
    moreover have "0 \<le> burst l / 2 ^ 53" using assms by (simp add: limiter_ok_def)
    ultimately show ?thesis unfolding filled_def by linarith
  qed
qed

lemma retry_after:
  assumes "limiter_ok l" "0 \<le> t" "t < 1"
  shows "\<lfloor>max 1 (of_int \<lceil>fl (fl (1 - t) / rate l)\<rceil> :: real)\<rfloor> = 1"
proof -
  have one: "fl 1 = 1" using fl_int [of 1] by simp
  have "fl (1 - t) \<le> 1" using fl_mono [of "1 - t" 1] assms(2,3) one by simp
  moreover have "0 \<le> fl (1 - t)" using assms(3) by (intro fl_nonneg) simp
  ultimately have "0 \<le> fl (1 - t) / rate l" "fl (1 - t) / rate l \<le> 1"
    using assms(1) by (simp_all add: limiter_ok_def divide_le_eq)
  then have "fl (fl (1 - t) / rate l) \<le> 1" using fl_mono [of "fl (1 - t) / rate l" 1] one by simp
  then have "\<lceil>fl (fl (1 - t) / rate l)\<rceil> \<le> 1" by (simp add: ceiling_le_iff)
  then have "max 1 (of_int \<lceil>fl (fl (1 - t) / rate l)\<rceil> :: real) = 1" by simp
  then show ?thesis by simp
qed

lemma allow_eq:
  assumes "limiter_ok l"
  shows "allow now l =
     (if 1 \<le> filled now l then ((True, 0), l\<lparr>tokens := filled now l - 1, last_time := now\<rparr>)
      else ((False, 1), l\<lparr>tokens := filled now l, last_time := now\<rparr>))"
proof -
  note f = filled_bounds [OF assms, of now]
  have "fl (filled now l - 1) = filled now l - 1" if "1 \<le> filled now l"
    using that f assms by (intro fl_minus_one) (auto simp: limiter_ok_def)
  then show ?thesis
    using retry_after [OF assms f(3)]
    by (auto simp: allow_def Let_def simp flip: refill_def filled_def)
qed

lemma allow_ok:
  assumes "limiter_ok l" shows "limiter_ok (snd (allow now l))"
proof -
  note f = filled_bounds [OF assms, of now]
  have "fl (filled now l - 1) = filled now l - 1" if "1 \<le> filled now l"
    using that f assms by (intro fl_minus_one) (auto simp: limiter_ok_def)
  then show ?thesis using f assms unfolding allow_eq [OF assms] by (auto simp: limiter_ok_def)
qed

lemma NewLimiter_ok:
  assumes "NewLimiter now r b = Inr l" "r < 2 ^ 53" "b < 2 ^ 53" shows "limiter_ok l" "tokens l = of_int b" "last_time l = now"
proof -
  have rb: "0 < r" "0 < b" using assms(1) by (auto simp: NewLimiter_def split: if_splits)
  have "fl (of_int r) = of_int r" "fl (of_int b) = of_int b" using rb assms(2,3) by (simp_all add: fl_int)
  moreover have "real_of_int b < 2 ^ 53" using assms(3) by (simp flip: of_int_less_iff)
  ultimately show "limiter_ok l" "tokens l = of_int b" "last_time l = now"
    using assms(1) rb by (auto simp: NewLimiter_def limiter_ok_def split: if_splits)
qed

section \<open>Sequences of requests\<close>

text \<open>The calls of a sequence of requests at the given ts: the answers and the final state.\<close>

fun allow_all :: "int list \<Rightarrow> limiter \<Rightarrow> bool list \<times> limiter" where
  "allow_all [] l = ([], l)"
| "allow_all (now # ts) l =
     (case allow now l of ((ok, _), l1) \<Rightarrow> (case allow_all ts l1 of (oks, l2) \<Rightarrow> (ok # oks, l2)))"

definition admitted :: "int list \<Rightarrow> limiter \<Rightarrow> nat" where
  "admitted ts l = length (filter id (fst (allow_all ts l)))"

text \<open>The computed refills of the same sequence.\<close>

fun refills :: "int list \<Rightarrow> limiter \<Rightarrow> real" where
  "refills [] l = 0"
| "refills (now # ts) l = refill now l + refills ts (snd (allow now l))"

lemma admitted_Cons:
  "admitted (now # ts) l = (if fst (fst (allow now l)) then 1 else 0) + admitted ts (snd (allow now l))"
  by (simp add: admitted_def split: prod.splits)

lemma burst_kept: "burst (snd (allow now l)) = burst l"
  by (simp add: allow_def Let_def)

lemma admitted_bound:
  "limiter_ok l \<Longrightarrow>
     real (admitted ts l) \<le> tokens l + refills ts l + real (length ts) * (burst l / 2 ^ 53)"
proof (induction ts arbitrary: l)
  case Nil
  then show ?case by (simp add: admitted_def limiter_ok_def)
next
  case (Cons now ts)
  let ?l = "snd (allow now l)"
  have IH: "real (admitted ts ?l) \<le> tokens ?l + refills ts ?l + real (length ts) * (burst l / 2 ^ 53)"
    using Cons.IH [OF allow_ok [OF Cons.prems]] by (simp add: burst_kept)
  have f: "filled now l \<le> tokens l + refill now l + burst l / 2 ^ 53" by (rule filled_bounds [OF Cons.prems])
  have "tokens ?l = filled now l - (if fst (fst (allow now l)) then 1 else 0)"
    by (simp add: allow_eq [OF Cons.prems])
  then have "real (admitted (now # ts) l) \<le> filled now l + refills ts ?l + real (length ts) * (burst l / 2 ^ 53)"
    using IH by (simp add: admitted_Cons split: if_splits)
  then show ?case using f by (simp add: algebra_simps add_divide_distrib)
qed

lemma seconds_0 [simp]: "seconds 0 = 0"
  by (simp add: seconds_def quot_int_def Let_def)

lemma filled_same:
  "limiter_ok l \<Longrightarrow> now = last_time l \<Longrightarrow> filled now l = tokens l"
  by (simp add: filled_def refill_def time_sub_def limiter_ok_def)

lemma admitted_instant:
  "limiter_ok l \<Longrightarrow> admitted (replicate n (last_time l)) l = min n (nat \<lfloor>tokens l\<rfloor>)"
proof (induction n arbitrary: l)
  case 0
  then show ?case by (simp add: admitted_def)
next
  case (Suc n)
  let ?l = "snd (allow (last_time l) l)"
  have f: "filled (last_time l) l = tokens l" using filled_same [OF Suc.prems refl] .
  have last: "last_time ?l = last_time l" by (simp add: allow_eq [OF Suc.prems])
  have IH: "admitted (replicate n (last_time l)) ?l = min n (nat \<lfloor>tokens ?l\<rfloor>)"
    using Suc.IH [OF allow_ok [OF Suc.prems], of "last_time l"] last by simp
  show ?case
  proof (cases "1 \<le> tokens l")
    case True
    then have "tokens ?l = tokens l - 1" "fst (fst (allow (last_time l) l))"
      using f by (simp_all add: allow_eq [OF Suc.prems])
    moreover have "1 \<le> \<lfloor>tokens l\<rfloor>" using True by (simp only: one_le_floor)
    then have "Suc (min n (nat (\<lfloor>tokens l\<rfloor> - 1))) = min (Suc n) (nat \<lfloor>tokens l\<rfloor>)" by linarith
    ultimately show ?thesis using IH by (simp add: admitted_Cons)
  next
    case False
    then have "tokens ?l = tokens l" "\<not> fst (fst (allow (last_time l) l))"
      using f by (simp_all add: allow_eq [OF Suc.prems])
    moreover have "\<lfloor>tokens l\<rfloor> = 0" using False Suc.prems by (simp add: floor_eq_iff limiter_ok_def)
    ultimately show ?thesis using IH by (simp add: admitted_Cons)
  qed
qed

lemma allow_all_ok:
  "limiter_ok l \<Longrightarrow> limiter_ok (snd (allow_all ts l)) \<and> burst (snd (allow_all ts l)) = burst l"
proof (induction ts arbitrary: l)
  case (Cons now ts)
  then show ?case
    using Cons.IH [OF allow_ok [OF Cons.prems, of now]] burst_kept [of now l] by (simp add: split_beta)
qed simp

text \<open>
  C14. The token bucket never holds less than zero or more than \<open>burst\<close> tokens, whatever the clock
  does; an admitted request takes exactly one token, a rejected one none, and \<^verbatim>\<open>Retry-After\<close> is
  always one second. A new limiter admits exactly \<open>burst\<close> requests at one instant. Over any
  sequence of requests the number admitted is at most the tokens at the start plus the computed
  refills, up to a rounding slack of at most \<open>burst\<close> units in the 53rd place per request.
\<close>

theorem limiter_bounds:
  assumes "NewLimiter start r b = Inr l" and "r < 2 ^ 53" and "b < 2 ^ 53"
    and "allow_all ts l = (oks, l')"
  shows "0 \<le> tokens l' \<and> tokens l' \<le> burst l \<and>
    fst (allow now l') = (if 1 \<le> filled now l' then (True, 0) else (False, 1)) \<and>
    tokens (snd (allow now l')) = filled now l' - (if 1 \<le> filled now l' then 1 else 0) \<and>
    admitted (replicate n start) l = min n (nat b) \<and>
    real (admitted ts l) \<le> of_int b + refills ts l + real (length ts) * (of_int b / 2 ^ 53)"
proof -
  note l = NewLimiter_ok [OF assms(1-3)]
  have l': "limiter_ok l'" "burst l' = burst l"
    using allow_all_ok [OF l(1), of ts] assms(4) by simp_all
  have "burst l = of_int b"
    using assms(1,3) fl_int [of b] by (auto simp: NewLimiter_def split: if_splits)
  then show ?thesis
    using l' l admitted_bound [OF l(1), of ts] admitted_instant [OF l(1), of n] allow_eq [OF l'(1), of now]
    by (simp add: limiter_ok_def)
qed

theorem limiter_bounds_witness:
  "\<exists>l. NewLimiter 0 5 2 = Inr l \<and> admitted (replicate 3 0) l = 2"
proof -
  obtain l where l: "NewLimiter 0 5 2 = Inr l" by (simp add: NewLimiter_def)
  from limiter_bounds [OF l, of "[]" "[]" l 0 3] l show ?thesis by simp
qed

end
