(* ===== verification/Http_Middleware.thy ===== *)
theory Http_Middleware
  imports Ratelimit
begin

text \<open>
  The middleware: \<^verbatim>\<open>middleware.go\<close>, \<^verbatim>\<open>metrics.go\<close>, \<^verbatim>\<open>cors.go\<close>, \<^verbatim>\<open>auth.go\<close>, \<^verbatim>\<open>timeout.go\<close>,
  \<^verbatim>\<open>router.go\<close>, \<^verbatim>\<open>stack.go\<close> and \<^verbatim>\<open>server.go\<close> of \<^verbatim>\<open>src/internal/platform/httpserver\<close>, the handlers of
  \<^verbatim>\<open>src/internal/platform/logging/http.go\<close> and of \<^verbatim>\<open>src/internal/platform/telemetry/tracing.go\<close>.
  A middleware takes a handler to a handler; its deferred functions run on the outcome that
  \<open>wrap\<close> delivers.
\<close>

section \<open>middleware.go\<close>

text \<open>\<^verbatim>\<open>stackTrace\<close>: the frames of the stack, at most 64; with none, the zero frame is printed.\<close>

fun trace_lines :: "(string \<times> string \<times> int) list \<Rightarrow> string" where
  "trace_lines [] = []"
| "trace_lines ((f, file, line) # fs) = f @ [CHR 0x0A] @ file @ '':'' @ Itoa line @ [CHR 0x0A] @ trace_lines fs"

definition stackTrace :: "(string \<times> string \<times> int) list \<Rightarrow> string" where
  "stackTrace fs = trace_lines (if fs = [] then [([], [], 0)] else take 64 fs)"

definition log_panic :: "request \<Rightarrow> unit prog" where
  "log_panic r =
     Sys id (\<lambda>s. log_event
       \<lparr>log_ctx = ctx r, log_level = LevelError, log_msg = ''HTTP handler panic'',
        log_attrs = [(''error_code'', LString ''INTERNAL_ERROR''), (''stack_trace'', LString (stackTrace (frames s)))]\<rparr>)"

definition clear_header :: "header \<Rightarrow> header" where
  "clear_header h = fold header_del (filter (\<lambda>k. k \<noteq> ''X-Request-Id'') (map fst h)) h"

definition recoverPanics :: "handler \<Rightarrow> handler" where
  "recoverPanics next r =
     bind (wrap (next r) commitWriter False) (\<lambda>(res, committed).
       case res of
         Inr _ \<Rightarrow> Ret ()
       | Inl failure \<Rightarrow>
           if failure = ErrAbortHandler then Panic ErrAbortHandler
           else seq (log_panic r)
             (if committed then Panic ErrAbortHandler
              else seq (update_header clear_header) (WriteError r (Some (CodeErr ErrInternal)))))"

section \<open>logging/http.go\<close>

definition hex_encode :: "string \<Rightarrow> string" where
  "hex_encode bs = concat (map (\<lambda>c. [hex_digit (of_char c div 16), hex_digit (of_char c mod 16)]) bs)"

definition WithRequestID :: "reqctx \<Rightarrow> string \<Rightarrow> reqctx" where
  "WithRequestID c i = c\<lparr>requestID := i\<rparr>"

definition WithTraceID :: "reqctx \<Rightarrow> string \<Rightarrow> reqctx" where
  "WithTraceID c i = c\<lparr>traceID := i\<rparr>"

definition RequestIDMiddleware :: "handler \<Rightarrow> handler" where
  "RequestIDMiddleware next r =
     bind rand_read (\<lambda>i.
       let rid = hex_encode i; r' = r\<lparr>ctx := WithRequestID (ctx r) rid\<rparr>
       in seq (set_header ''X-Request-ID'' rid) (next r'))"

definition access_entry :: "request \<Rightarrow> bool \<Rightarrow> int \<Rightarrow> int \<Rightarrow> log_entry" where
  "access_entry r completed tracked elapsed =
     (let st = (if tracked = 0 \<and> completed then 200 else tracked);
          attrs = [(''method'', LString (Method r)), (''path'', LString (Path r)), (''status_code'', LInt st),
                   (''duration_ms'', LFloat (fl (fl (of_int elapsed) / 1000000)))];
          (level, more_attrs) =
            (if \<not> completed then (LevelError, [(''error_code'', LString ''request_aborted'')])
             else if st \<ge> 500 then (LevelError, [(''error_code'', LString ''http_server_error'')])
             else if st \<ge> 400 then (LevelWarn, [(''error_code'', LString ''http_client_error'')])
             else (LevelInfo, []))
      in \<lparr>log_ctx = ctx r, log_level = level, log_msg = ''HTTP request completed'', log_attrs = attrs @ more_attrs\<rparr>)"

definition Access :: "handler \<Rightarrow> handler" where
  "Access next r =
     bind time_now (\<lambda>start.
     bind (wrap (next r) responseWriter 0) (\<lambda>(res, tracked).
     bind time_now (\<lambda>now.
       seq (log_event (access_entry r (\<not> isl res) tracked (time_sub now start))) (resume res))))"

definition HTTP :: "handler \<Rightarrow> handler" where
  "HTTP next = RequestIDMiddleware (Access next)"

definition Middleware :: "handler \<Rightarrow> handler" where
  "Middleware next = HTTP (recoverPanics next)"

section \<open>metrics.go\<close>

definition update_metrics :: "(metrics \<Rightarrow> metrics) \<Rightarrow> unit prog" where
  "update_metrics u = update_sys (\<lambda>s. s\<lparr>metrics_of := u (metrics_of s)\<rparr>)"

definition status_class :: "int \<Rightarrow> nat" where
  "status_class tracked =
     (let st = (if tracked = 0 then 500 else tracked); c = quot_int st 100
      in if c < 1 \<or> c > 5 then 0 else nat c)"

definition count_request :: "nat \<Rightarrow> metrics \<Rightarrow> metrics" where
  "count_request c m = m\<lparr>requests := (requests m)[c := requests m ! c + 1]\<rparr>"

definition Metrics_Wrap :: "handler \<Rightarrow> handler" where
  "Metrics_Wrap next r =
     bind time_now (\<lambda>start.
     seq (update_metrics (\<lambda>m. m\<lparr>inflight := inflight m + 1\<rparr>))
     (bind (wrap (next r) metricWriter 0) (\<lambda>(res, tracked0).
       let tracked = (if \<not> isl res \<and> tracked0 = 0 then 200 else tracked0)
       in seq (update_metrics (\<lambda>m. m\<lparr>inflight := inflight m - 1\<rparr>))
          (seq (update_metrics (count_request (status_class tracked)))
          (bind time_now (\<lambda>now.
             seq (update_metrics (\<lambda>m. m\<lparr>durationNS := durationNS m + word_of_int (time_sub now start)\<rparr>))
                 (resume res)))))))"

text \<open>\<^verbatim>\<open>Metrics.ServeHTTP\<close>; \<open>fmt_g\<close> is the \<^verbatim>\<open>%g\<close> verb.\<close>

definition class_line :: "nat \<Rightarrow> 64 word \<Rightarrow> string" where
  "class_line c v =
     ''http_requests_total{status_class='' @ [CHR 0x22] @ Itoa (int c) @ ''xx'' @ [CHR 0x22] @ ''} '' @
       Itoa (uint v) @ [CHR 0x0A]"

fun write_all :: "string list \<Rightarrow> unit prog" where
  "write_all [] = Ret ()"
| "write_all (b # bs) = bind (do_write b) (\<lambda>_. write_all bs)"

definition Metrics_ServeHTTP :: "(real \<Rightarrow> string) \<Rightarrow> handler" where
  "Metrics_ServeHTTP fmt_g r =
     seq (set_header ''Content-Type'' ''text/plain; version=0.0.4; charset=utf-8'')
     (seq (do_write_header 200)
     (if Method r = ''HEAD'' then Ret ()
      else Sys id (\<lambda>s. let m = metrics_of s in write_all (
        [''# TYPE http_requests_total counter'' @ [CHR 0x0A]] @
        map (\<lambda>(c, v). class_line c v) (enumerate 0 (requests m)) @
        [''# TYPE http_request_duration_seconds summary'' @ [CHR 0x0A],
         ''http_request_duration_seconds_sum '' @ fmt_g (fl (fl (of_int (uint (durationNS m))) / 1000000000)) @ [CHR 0x0A] @
           ''http_request_duration_seconds_count '' @ Itoa (uint (sum_list (requests m))) @ [CHR 0x0A],
         ''# TYPE http_requests_inflight gauge'' @ [CHR 0x0A] @
           ''http_requests_inflight '' @ Itoa (sint (inflight m)) @ [CHR 0x0A]]))))"

section \<open>telemetry/tracing.go\<close>

definition update_span :: "nat \<Rightarrow> (span \<Rightarrow> span) \<Rightarrow> unit prog" where
  "update_span i u = update_sys (\<lambda>s. s\<lparr>spans := (spans s)[i := u (spans s ! i)]\<rparr>)"

text \<open>\<^verbatim>\<open>tracer.Start\<close>: a new span, its index and its trace identifier.\<close>

definition start_span :: "(nat \<times> string) prog" where
  "start_span =
     Sys (\<lambda>s. s\<lparr>spans := spans s @ [\<lparr>span_status = None, span_failed = False, span_ended = False\<rparr>]\<rparr>)
         (\<lambda>s. Ret (length (spans s), trace_ids s (length (spans s))))"

definition HTTPTracing :: "handler \<Rightarrow> handler" where
  "HTTPTracing next r =
     bind start_span (\<lambda>(i, tid).
       let r' = r\<lparr>ctx := WithTraceID (ctx r) tid\<rparr>
       in bind (wrap (next r') traceWriter 0) (\<lambda>(res, tracked).
            let st = (if tracked = 0 \<and> \<not> isl res then 200 else tracked)
            in seq (update_span i (\<lambda>sp. sp\<lparr>span_status := Some st\<rparr>))
               (seq (if isl res \<or> st \<ge> 500 then update_span i (\<lambda>sp. sp\<lparr>span_failed := True\<rparr>) else Ret ())
               (seq (update_span i (\<lambda>sp. sp\<lparr>span_ended := True\<rparr>)) (resume res)))))"

section \<open>cors.go\<close>

text \<open>The parts of a \<^verbatim>\<open>*url.URL\<close> that are looked at.\<close>

record url_parts =
  u_scheme :: string
  u_host :: string
  u_user :: bool
  u_path :: string
  u_query :: string
  u_fragment :: string

definition explicit_origin :: "(string \<Rightarrow> url_parts option) \<Rightarrow> string \<Rightarrow> bool" where
  "explicit_origin url_parse origin \<longleftrightarrow>
     (case url_parse origin of
        None \<Rightarrow> False
      | Some u \<Rightarrow>
          \<not> ((u_scheme u \<noteq> ''http'' \<and> u_scheme u \<noteq> ''https'') \<or> u_host u = [] \<or> u_user u \<or> u_path u \<noteq> [] \<or>
             u_query u \<noteq> [] \<or> u_fragment u \<noteq> [] \<or> Contains origin ''*''))"

definition cors_methods :: "string list" where
  "cors_methods = [''GET'', ''HEAD'', ''POST'', ''PUT'', ''PATCH'', ''DELETE'', ''OPTIONS'']"

definition cors_headers :: "string list" where
  "cors_headers = [''authorization'', ''content-type'']"

definition forbidden_header :: "(bytes \<Rightarrow> bytes) \<Rightarrow> string \<Rightarrow> bool" where
  "forbidden_header uni header =
     (let name = ToLower uni (TrimSpace header) in name \<noteq> [] \<and> name \<notin> set cors_headers)"

definition cors_handler :: "(bytes \<Rightarrow> bytes) \<Rightarrow> string set \<Rightarrow> handler \<Rightarrow> handler" where
  "cors_handler uni allowed next r =
     seq (update_header (header_add ''Vary'' ''Origin''))
     (let origin = header_get (r_header r) ''Origin''; method = header_get (r_header r) ''Access-Control-Request-Method''
      in if origin = [] then next r
         else if origin \<notin> allowed then WriteError r (Some (CodeErr ErrForbidden))
         else
           seq (set_header ''Access-Control-Allow-Origin'' origin)
           (seq (set_header ''Access-Control-Expose-Headers'' ''X-Request-ID, Retry-After, Location'')
           (if Method r = ''OPTIONS'' \<and> method \<noteq> []
            then
              seq (update_header (header_add ''Vary'' ''Access-Control-Request-Method''))
              (seq (update_header (header_add ''Vary'' ''Access-Control-Request-Headers''))
              (if method \<notin> set cors_methods then WriteError r (Some (CodeErr ErrForbidden))
               else if \<exists>header \<in> set (Split (header_get (r_header r) ''Access-Control-Request-Headers'') '',''). forbidden_header uni header
               then WriteError r (Some (CodeErr ErrForbidden))
               else
                 seq (set_header ''Access-Control-Allow-Methods'' ''GET, HEAD, POST, PUT, PATCH, DELETE, OPTIONS'')
                 (seq (set_header ''Access-Control-Allow-Headers'' ''Authorization, Content-Type'')
                 (seq (set_header ''Access-Control-Max-Age'' ''600'') (do_write_header 204)))))
            else next r)))"

definition CORS :: "(bytes \<Rightarrow> bytes) \<Rightarrow> (string \<Rightarrow> url_parts option) \<Rightarrow> string list \<Rightarrow> handler \<Rightarrow> gerror + handler" where
  "CORS uni url_parse origins next =
     (if list_all (explicit_origin url_parse) origins then Inr (cors_handler uni (set origins) next)
      else Inl (NewErr ''CORS origins must be explicit http(s) origins without paths''))"

section \<open>auth.go\<close>

type_synonym authenticator = "reqctx \<Rightarrow> string \<Rightarrow> gerror + principal"
type_synonym authorizer = "reqctx \<Rightarrow> principal \<Rightarrow> string \<Rightarrow> gerror option"

definition CurrentPrincipal :: "reqctx \<Rightarrow> principal option" where
  "CurrentPrincipal c = ctx_principal c"

abbreviation realm_challenge :: string where
  "realm_challenge \<equiv> ''Bearer realm='' @ [CHR 0x22] @ ''api'' @ [CHR 0x22]"

text \<open>The token of a request with exactly one well-formed bearer credential.\<close>

definition bearer_token :: "header \<Rightarrow> string option" where
  "bearer_token h =
     (case Fields (header_get h ''Authorization'') of
        [scheme, token] \<Rightarrow>
          if length (header_values h ''Authorization'') = 1 \<and> EqualFold scheme ''Bearer'' then Some token else None
      | _ \<Rightarrow> None)"

definition Protected :: "authenticator option \<Rightarrow> authorizer option \<Rightarrow> string \<Rightarrow> handler \<Rightarrow> handler" where
  "Protected auth policy permission next r =
     (case (auth, policy) of
        (Some authenticate, Some authorize) \<Rightarrow>
          if permission = [] then WriteError r (Some (CodeErr ErrInternal))
          else
            (case bearer_token (r_header r) of
               None \<Rightarrow>
                 seq (set_header ''WWW-Authenticate'' realm_challenge) (WriteError r (Some (CodeErr ErrUnauthorized)))
             | Some token \<Rightarrow>
                 (case authenticate (ctx r) token of
                    Inl e \<Rightarrow>
                      if CodeOf (Some e) = ErrUnauthorized
                      then seq (set_header ''WWW-Authenticate''
                             (realm_challenge @ '', error='' @ [CHR 0x22] @ ''invalid_token'' @ [CHR 0x22]))
                             (WriteError r (Some (CodeErr ErrUnauthorized)))
                      else WriteError r (Some (CodeErr ErrInternal))
                  | Inr p \<Rightarrow>
                      if Subject p = [] then WriteError r (Some (CodeErr ErrInternal))
                      else
                        let r' = r\<lparr>ctx := (ctx r)\<lparr>ctx_principal := Some p\<rparr>\<rparr>
                        in (case authorize (ctx r') p permission of
                              Some e \<Rightarrow>
                                if CodeOf (Some e) = ErrForbidden then WriteError r' (Some (CodeErr ErrForbidden))
                                else WriteError r' (Some (CodeErr ErrInternal))
                            | None \<Rightarrow> next r')))
      | _ \<Rightarrow> WriteError r (Some (CodeErr ErrInternal)))"

section \<open>timeout.go\<close>

text \<open>
  \<^verbatim>\<open>http.TimeoutHandler\<close> runs its handler on a \<^verbatim>\<open>timeoutWriter\<close>, a buffer with its own header map,
  until the handler ends or the context is done, whichever is first.
\<close>

record tw =
  tw_header :: header
  tw_buf :: string
  tw_wrote :: bool
  tw_code :: int
  tw_err :: "gerror option"

definition new_tw :: tw where
  "new_tw = \<lparr>tw_header = [], tw_buf = [], tw_wrote = False, tw_code = 0, tw_err = None\<rparr>"

definition tw_write_header :: "int \<Rightarrow> tw \<Rightarrow> reply \<times> tw" where
  "tw_write_header code t =
     (if invalid_code code then (Panicked (PanicValue ''invalid WriteHeader code''), t)
      else if tw_err t \<noteq> None \<or> tw_wrote t then (Done, t)
      else (Done, t\<lparr>tw_wrote := True, tw_code := code\<rparr>))"

fun tw_call :: "op \<Rightarrow> tw \<Rightarrow> reply \<times> tw" where
  "tw_call (WriteHeader code) t = tw_write_header code t"
| "tw_call (Write data) t =
     (case tw_err t of
        Some e \<Rightarrow> (Failed e, t)
      | None \<Rightarrow>
          let t1 = (if \<not> tw_wrote t then snd (tw_write_header 200 t) else t)
          in (Done, t1\<lparr>tw_buf := tw_buf t1 @ data\<rparr>))"
| "tw_call Flush t = (Failed ErrNotSupported, t)"
| "tw_call Hijack t = (Failed ErrNotSupported, t)"

datatype 'a outcome = Finished "pval + 'a" | Interrupted "'a prog"

primrec buffered :: "'a prog \<Rightarrow> nat option \<Rightarrow> tw \<Rightarrow> ('a outcome \<times> tw) prog" where
  "buffered (Ret a) n t =
     (if n = Some 0 then Ret (Interrupted (Ret a), t) else Ret (Finished (Inr a), t))"
| "buffered (Panic v) n t =
     (if n = Some 0 then Ret (Interrupted (Panic v), t) else Ret (Finished (Inl v), t))"
| "buffered (Call op k) n t =
     (if n = Some 0 then Ret (Interrupted (Call op k), t)
      else case tw_call op t of (r, t') \<Rightarrow> buffered (k r) (map_option (\<lambda>i. i - 1) n) t')"
| "buffered (Hdr u k) n t =
     (if n = Some 0 then Ret (Interrupted (Hdr u k), t)
      else buffered (k (tw_header t)) (map_option (\<lambda>i. i - 1) n) (t\<lparr>tw_header := u (tw_header t)\<rparr>))"
| "buffered (Sys u k) n t =
     (if n = Some 0 then Ret (Interrupted (Sys u k), t)
      else Sys u (\<lambda>s. buffered (k s) (map_option (\<lambda>i. i - 1) n) t))"

definition copy_header :: "header \<Rightarrow> header \<Rightarrow> header" where
  "copy_header src dst = src @ filter (\<lambda>(k, _). k \<notin> fst ` set src) dst"

text \<open>
  \<^verbatim>\<open>http.TimeoutHandler\<close> starts the handler in a goroutine and waits for its end or for the context.
  After an interruption it sends the timeout response and returns; the rest of the handler is left
  to its goroutine, where it goes on as \<open>abandoned\<close>, with the writes to the buffer failing, at some
  later time, next to whatever the process does then. A panic of it stays in the goroutine.
\<close>

definition abandoned :: "gerror \<Rightarrow> 'a prog \<Rightarrow> tw \<Rightarrow> ('a outcome \<times> tw) prog" where
  "abandoned e rest t = buffered rest None (t\<lparr>tw_err := Some e\<rparr>)"

definition TimeoutHandler :: "handler \<Rightarrow> string \<Rightarrow> handler" where
  "TimeoutHandler next text r =
     Sys id (\<lambda>s.
       bind (buffered (next r) (map_option fst (deadline s)) new_tw) (\<lambda>(out, t).
         case out of
           Finished (Inl v) \<Rightarrow> Panic v
         | Finished (Inr _) \<Rightarrow>
             seq (update_header (copy_header (tw_header t)))
             (seq (do_write_header (if tw_wrote t then tw_code t else 200))
             (bind (do_write (tw_buf t)) (\<lambda>_. Ret ())))
         | Interrupted rest \<Rightarrow>
             seq (do_write_header 503)
               (if snd (the (deadline s)) then bind (do_write text) (\<lambda>_. Ret ()) else Ret ())))"

fun jsonTimeoutWriter :: "bool \<Rightarrow> unit method_table" where
  "jsonTimeoutWriter head _ (WriteHeader st) =
     bind (get_header ''Content-Type'') (\<lambda>ct.
       seq (if st = 503 \<and> ct = [] \<or> ct = ''text/html; charset=utf-8''
            then set_header ''Content-Type'' ''application/json'' else Ret ())
           (pass (WriteHeader st) ()))"
| "jsonTimeoutWriter head _ (Write p) = (if head then Ret (Done, ()) else pass (Write p) ())"
| "jsonTimeoutWriter head _ Flush = Ret (Failed ErrNotSupported, ())"
| "jsonTimeoutWriter head _ Hijack = Ret (Failed ErrNotSupported, ())"

definition timeout_text :: "request \<Rightarrow> string" where
  "timeout_text r =
     json_print (ErrorResponse False 503
       \<lparr>ed_code = ''REQUEST_TIMEOUT'', ed_details = [], ed_message = ''Request timed out'',
        ed_request_id = requestID (ctx r)\<rparr>) @ [CHR 0x0A]"

definition timeout_handler :: "handler \<Rightarrow> handler" where
  "timeout_handler next r =
     seq (set_header ''Cache-Control'' ''no-store'')
     (bind (wrap (TimeoutHandler next (timeout_text r) r) (jsonTimeoutWriter (Method r = ''HEAD'')) ())
       (\<lambda>(res, _). resume res))"

definition Timeout :: "int \<Rightarrow> handler \<Rightarrow> pval + handler" where
  "Timeout duration next =
     (if duration \<le> 0 then Inl (PanicValue ''HTTP handler timeout must be positive'') else Inr (timeout_handler next))"

section \<open>router.go\<close>

text \<open>
  \<^verbatim>\<open>mux.Handler(r)\<close> of a \<^verbatim>\<open>http.ServeMux\<close> is an argument: the matching pattern, empty when there is
  none, and the handler to run. A generated response to a routing failure passes through
  \<^verbatim>\<open>routingResponse\<close>.
\<close>

definition attempt :: "'a prog \<Rightarrow> (pval + 'a) prog" where
  "attempt p = bind (wrap p (\<lambda>s op. pass op s) ()) (\<lambda>(res, _). Ret res)"

definition respond_with :: "unit prog \<Rightarrow> (reply \<times> bool) prog" where
  "respond_with p = bind (attempt p) (\<lambda>res. Ret (case res of Inl v \<Rightarrow> Panicked v | Inr _ \<Rightarrow> Done, True))"

fun routingResponse :: "request \<Rightarrow> bool method_table" where
  "routingResponse r mapped (WriteHeader st) =
     (if st = 404 then respond_with (NotFound r)
      else if st = 405 then respond_with (MethodNotAllowed r)
      else pass (WriteHeader st) mapped)"
| "routingResponse r mapped (Write data) = (if mapped then Ret (Done, mapped) else pass (Write data) mapped)"
| "routingResponse r mapped Flush = Ret (Failed ErrNotSupported, mapped)"
| "routingResponse r mapped Hijack = Ret (Failed ErrNotSupported, mapped)"

definition Router_ServeHTTP :: "(request \<Rightarrow> handler \<times> string) \<Rightarrow> handler" where
  "Router_ServeHTTP mux r =
     (case mux r of (h, pattern) \<Rightarrow>
        if pattern \<noteq> [] then h r
        else bind (wrap (h r) (routingResponse r) False) (\<lambda>(res, _). resume res))"

section \<open>stack.go\<close>

record middleware_options =
  mo_origins :: "string list"
  mo_timeout :: int
  mo_rate :: int
  mo_burst :: int
  mo_tracing :: "(handler \<Rightarrow> handler) option"
  mo_metrics :: bool

definition is_probe :: "request \<Rightarrow> bool" where
  "is_probe r \<longleftrightarrow>
     (Method r = ''GET'' \<or> Method r = ''HEAD'') \<and>
     (Path r = ''/health/live'' \<or> Path r = ''/health/ready'' \<or> Path r = ''/metrics'')"

definition dispatch :: "handler \<Rightarrow> handler" where
  "dispatch next r = (if is_probe r then next r else Limiter_Wrap next r)"

text \<open>The layers around the CORS handler.\<close>

definition outer_layers :: "middleware_options \<Rightarrow> handler \<Rightarrow> handler" where
  "outer_layers opts cors =
     (let h1 = recoverPanics cors;
          h2 = (if mo_metrics opts then Metrics_Wrap h1 else h1);
          h3 = Access h2;
          h4 = (case mo_tracing opts of None \<Rightarrow> h3 | Some tracing \<Rightarrow> tracing h3)
      in RequestIDMiddleware h4)"

text \<open>\<^verbatim>\<open>stack\<close> also returns the limiter that the requests share.\<close>

definition stack ::
  "(bytes \<Rightarrow> bytes) \<Rightarrow> (string \<Rightarrow> url_parts option) \<Rightarrow> int \<Rightarrow> handler \<Rightarrow> middleware_options \<Rightarrow> gerror + handler \<times> limiter" where
  "stack uni url_parse now next opts =
     (if mo_timeout opts \<le> 0 then Inl (NewErr ''handler timeout must be positive'')
      else bind_sum (NewLimiter now (mo_rate opts) (mo_burst opts)) (\<lambda>l.
        bind_sum (CORS uni url_parse (mo_origins opts) (timeout_handler (recoverPanics (dispatch next)))) (\<lambda>cors.
          Inr (outer_layers opts cors, l))))"

section \<open>server.go\<close>

record server_config =
  ReadTimeout :: int
  WriteTimeout :: int
  IdleTimeout :: int
  ReadHeaderTimeout :: int
  MaxHeaderBytes :: int

text \<open>
  \<^verbatim>\<open>New\<close>: the handler of the server, with the limiter when a stack is used. \<open>present\<close> says that
  handler, logger and base context are not nil.
\<close>

definition New ::
  "(bytes \<Rightarrow> bytes) \<Rightarrow> (string \<Rightarrow> url_parts option) \<Rightarrow> int \<Rightarrow> server_config \<Rightarrow> bool \<Rightarrow> handler \<Rightarrow>
   middleware_options list \<Rightarrow> gerror + handler \<times> limiter option" where
  "New uni url_parse now cfg present next options =
     (if ReadTimeout cfg \<le> 0 \<or> WriteTimeout cfg \<le> 0 \<or> IdleTimeout cfg \<le> 0 \<or> ReadHeaderTimeout cfg \<le> 0 \<or>
         MaxHeaderBytes cfg \<le> 0
      then Inl (NewErr ''HTTP timeouts and MaxHeaderBytes must be positive'')
      else if \<not> present then Inl (NewErr ''HTTP handler, logger and base context are required'')
      else
        (case options of
           [] \<Rightarrow> Inr (Middleware next, None)
         | [opts] \<Rightarrow>
             if mo_timeout opts \<ge> WriteTimeout cfg
             then Inl (NewErr ''handler timeout must be shorter than WriteTimeout'')
             else bind_sum (stack uni url_parse now next opts) (\<lambda>(h, l). Inr (h, Some l))
         | _ \<Rightarrow> Inl (NewErr ''only one middleware options value is supported'')))"

end
