(* ===== verification/Http_Claims.thy ===== *)
theory Http_Claims
  imports Http_Middleware
begin

text \<open>
  Properties of the middleware, each for every handler: recovery from panics, access log,
  metrics, tracing, deadlines, authentication, cross-origin requests, routing and the assembled
  stack.
\<close>

section \<open>What is written before commitment\<close>

text \<open>A response on which nothing final was sent has no body yet.\<close>

definition clean :: "resp \<Rightarrow> bool" where
  "clean q \<longleftrightarrow> (status q = None \<longrightarrow> written q = 0 \<and> body q = [])"

lemma clean_write_header: "clean q \<Longrightarrow> clean (snd (base_write_header code q))"
  by (simp add: clean_def base_write_header_def)

lemma clean_call: "clean q \<Longrightarrow> base_call op q = (r, q') \<Longrightarrow> clean q'"
proof (cases op)
  case (WriteHeader code)
  then show "clean q \<Longrightarrow> base_call op q = (r, q') \<Longrightarrow> clean q'"
    using clean_write_header [of q code] by simp
next
  case (Write data)
  then show "clean q \<Longrightarrow> base_call op q = (r, q') \<Longrightarrow> clean q'"
    using status_after(2) [of q data] by (cases "hijacked q") (auto simp: clean_def base_write_def)
next
  case Flush
  then show "clean q \<Longrightarrow> base_call op q = (r, q') \<Longrightarrow> clean q'"
    using clean_write_header [of q 200]
    by (auto simp: clean_def base_flush_def connection_io_def implicit_header_def Let_def split: option.splits if_splits)
next
  case Hijack
  then show "clean q \<Longrightarrow> base_call op q = (r, q') \<Longrightarrow> clean q'"
    by (auto simp: clean_def base_hijack_def connection_io_def Let_def split: option.splits if_splits)
qed

lemma head_io_call:
  "base_call op q = (r, q') \<Longrightarrow> head_request q' = head_request q \<and> io_failure q' = io_failure q"
  by (cases op) (auto simp: base_write_header_def base_write_def base_flush_def base_hijack_def connection_io_def
      implicit_header_def Let_def split: option.splits if_splits)

lemma run_keeps:
  "run p q w = (res, q', w') \<Longrightarrow> clean q \<Longrightarrow>
     clean q' \<and> head_request q' = head_request q \<and> io_failure q' = io_failure q"
proof (induction p arbitrary: q w)
  case (Call op k)
  obtain r q1 where c: "base_call op q = (r, q1)" by (cases "base_call op q")
  with Call.prems have "run (k r) q1 w = (res, q', w')" "clean q1" using clean_call by auto
  from Call.IH [OF rangeI this] head_io_call [OF c] show ?case by auto
next
  case (Hdr u k)
  then show ?case by (fastforce simp: clean_def)
next
  case (Sys u k)
  then show ?case by fastforce
qed (auto simp: clean_def)

section \<open>Clearing the header map\<close>

lemma upper_lower_cases:
  "is_lower c \<Longrightarrow> is_upper (upper_char c) \<and> lower_char (upper_char c) = c"
  "is_upper c \<Longrightarrow> is_lower (lower_char c) \<and> upper_char (lower_char c) = c"
  by (auto simp: is_lower_def is_upper_def upper_char_def lower_char_def)

lemma upper_char_idem [simp]: "upper_char (upper_char c) = upper_char c" "lower_char (lower_char c) = lower_char c"
  by (auto simp: is_lower_def is_upper_def upper_char_def lower_char_def)

lemma case_dash: "(if up then upper_char c else lower_char c) = CHR ''-'' \<longleftrightarrow> c = CHR ''-''"
proof -
  have d: "upper_char CHR ''-'' = CHR ''-''" "lower_char CHR ''-'' = CHR ''-''" by code_simp+
  have "upper_char c = CHR ''-'' \<Longrightarrow> c = CHR ''-''"
    using upper_lower_cases(1) [of c] d(2) by (auto simp: upper_char_def is_upper_def split: if_splits)
  moreover have "lower_char c = CHR ''-'' \<Longrightarrow> c = CHR ''-''"
    using upper_lower_cases(2) [of c] d(1) by (auto simp: lower_char_def is_lower_def split: if_splits)
  ultimately show ?thesis using d by auto
qed

lemma canonical_chars_idem: "canonical_chars up (canonical_chars up k) = canonical_chars up k"
  by (induction up k rule: canonical_chars.induct) (simp_all add: case_dash split del: if_split, auto)

lemma token_char_case: "token_char c \<Longrightarrow> token_char (upper_char c) \<and> token_char (lower_char c)"
  using upper_lower_cases [of c] by (auto simp: token_char_def upper_char_def lower_char_def split: if_splits)

lemma canonical_chars_token: "list_all token_char k \<Longrightarrow> list_all token_char (canonical_chars up k)"
  by (induction up k rule: canonical_chars.induct) (simp_all add: token_char_case)

lemma CanonicalHeaderKey_idem [simp]: "CanonicalHeaderKey (CanonicalHeaderKey k) = CanonicalHeaderKey k"
  by (simp add: CanonicalHeaderKey_def canonical_chars_token canonical_chars_idem)

lemma header_values_fold_del:
  "header_values (fold header_del ks h) k =
     (if CanonicalHeaderKey k \<in> CanonicalHeaderKey ` set ks then [] else header_values h k)"
  by (induction ks arbitrary: h) auto

lemma clear_header_other:
  assumes "CanonicalHeaderKey k \<noteq> ''X-Request-Id''" shows "header_values (clear_header h) k = []"
proof (cases "CanonicalHeaderKey k \<in> fst ` set h")
  case True
  with assms have "CanonicalHeaderKey k \<in> set (filter (\<lambda>k. k \<noteq> ''X-Request-Id'') (map fst h))" by auto
  then have "CanonicalHeaderKey k \<in> CanonicalHeaderKey ` set (filter (\<lambda>k. k \<noteq> ''X-Request-Id'') (map fst h))"
    by (metis CanonicalHeaderKey_idem image_eqI)
  then show ?thesis unfolding clear_header_def header_values_fold_del by (rule if_P)
next
  case False
  then have "header_values h k = []" by (simp add: header_values_def map_of_eq_None_iff [THEN iffD2])
  then show ?thesis by (simp add: clear_header_def header_values_fold_del)
qed

lemma clear_header_id:
  assumes "\<forall>k \<in> fst ` set h. CanonicalHeaderKey k = k"
  shows "header_values (clear_header h) ''X-Request-Id'' = header_values h ''X-Request-Id''"
proof -
  have "''X-Request-Id'' \<notin> CanonicalHeaderKey ` set (filter (\<lambda>k. k \<noteq> ''X-Request-Id'') (map fst h))"
    using assms by auto
  then show ?thesis unfolding clear_header_def header_values_fold_del canonical_keys by (rule if_not_P)
qed

section \<open>Recovery\<close>

definition panic_entry :: "request \<Rightarrow> sys \<Rightarrow> log_entry" where
  "panic_entry r w =
     \<lparr>log_ctx = ctx r, log_level = LevelError, log_msg = ''HTTP handler panic'',
      log_attrs = [(''error_code'', LString ''INTERNAL_ERROR''), (''stack_trace'', LString (stackTrace (frames w)))]\<rparr>"

definition logged :: "log_entry \<Rightarrow> sys \<Rightarrow> sys" where
  "logged e w = w\<lparr>logs := logs w @ [e]\<rparr>"

lemma run_log_panic [http_run]: "run (log_panic r) q w = (Inr (), q, logged (panic_entry r w) w)"
  by (simp add: log_panic_def run_log_event panic_entry_def logged_def)

lemma run_recoverPanics:
  assumes "uncommitted q" "run (next r) q w = (res, q1, w1)"
  shows "run (recoverPanics next r) q w =
    (case res of
       Inr _ \<Rightarrow> (Inr (), q1, w1)
     | Inl ErrAbortHandler \<Rightarrow> (Inl ErrAbortHandler, q1, w1)
     | Inl (PanicValue v) \<Rightarrow>
         if uncommitted q1
         then run (WriteError r (Some (CodeErr ErrInternal))) (q1\<lparr>live := clear_header (live q1)\<rparr>)
                (logged (panic_entry r w1) w1)
         else (Inl ErrAbortHandler, q1, logged (panic_entry r w1) w1))"
proof -
  have "committed_ok False q" using assms(1) by (simp add: committed_ok_def uncommitted_def)
  from commit.transparent [OF this assms(2)] obtain c where
    c: "run (wrap (next r) commitWriter False) q w = (Inr (res, c), q1, w1)" "committed_ok c q1" by blast
  then have "c \<longleftrightarrow> \<not> uncommitted q1" by (auto simp: committed_ok_def uncommitted_def)
  with c(1) show ?thesis
    by (auto simp: recoverPanics_def run_bind run_seq http_run split: sum.splits pval.splits)
qed

text \<open>
  C7. Recovery contains every panic of a handler. A handler that returns is not disturbed. A panic
  other than \<^verbatim>\<open>http.ErrAbortHandler\<close> is logged once, without its value; if nothing final was sent
  the client gets the internal error as JSON, with no header of the handler but the request ID;
  otherwise nothing is appended to the response and the connection is aborted.
\<close>

theorem recoverPanics_contains:
  assumes "uncommitted q" and "clean q" and "head_request q \<longleftrightarrow> Method r = ''HEAD''"
    and "run (next r) q w = (res, q1, w1)" and "run (recoverPanics next r) q w = (res', q', w')"
  shows "case res of
      Inr _ \<Rightarrow> res' = Inr () \<and> q' = q1 \<and> w' = w1
    | Inl ErrAbortHandler \<Rightarrow> res' = Inl ErrAbortHandler \<and> q' = q1 \<and> w' = w1
    | Inl (PanicValue v) \<Rightarrow>
        w' = logged (panic_entry r w1) w1 \<and>
        (if uncommitted q1
         then res' = Inr () \<and> status q' = Some 500 \<and>
           header_get (sent q') ''Content-Type'' = ''application/json'' \<and>
           (\<forall>k. CanonicalHeaderKey k \<notin> {''X-Request-Id'', ''Content-Type'', ''Cache-Control'', ''X-Content-Type-Options''} \<longrightarrow>
              header_values (sent q') k = []) \<and>
           body q' = (if Method r = ''HEAD'' \<or> io_failure q1 (io_count q1) \<noteq> None then []
                      else error_text r 500 ErrInternal ''Internal server error'' [])
         else res' = Inl ErrAbortHandler \<and> q' = q1)"
proof (cases "\<exists>v. res = Inl (PanicValue v) \<and> uncommitted q1")
  case False
  then show ?thesis
    using assms(5) run_recoverPanics [of q "next" r w res q1 w1, OF assms(1,4)] by (cases res; cases "projl res") auto
next
  case True
  then obtain v where v: "res = Inl (PanicValue v)" and un: "uncommitted q1" by blast
  let ?q = "q1\<lparr>live := clear_header (live q1)\<rparr>"
  have keep: "clean q1" "head_request q1 = head_request q" using run_keeps [OF assms(4,2)] by auto
  have q: "uncommitted ?q" "written ?q = 0" "body ?q = []" "head_request ?q \<longleftrightarrow> Method r = ''HEAD''"
    using un keep assms(3) by (auto simp: uncommitted_def clean_def)
  have "run (WriteError r (Some (CodeErr ErrInternal))) ?q (logged (panic_entry r w1) w1) = (res', q', w')"
    using assms(5) run_recoverPanics [of q "next" r w res q1 w1, OF assms(1,4)] v un by simp
  from error_response [OF q classify_internal this]
  have out: "res' = Inr ()" "w' = logged (panic_entry r w1) w1" "status q' = Some 500"
    "sent q' = error_header (clear_header (live q1))"
    "body q' = (if Method r = ''HEAD'' \<or> io_failure q1 (io_count q1) \<noteq> None then []
                else error_text r 500 ErrInternal ''Internal server error'' [])"
    by simp_all
  have "header_values (sent q') k = []"
    if "CanonicalHeaderKey k \<notin> {''X-Request-Id'', ''Content-Type'', ''Cache-Control'', ''X-Content-Type-Options''}" for k
    unfolding out(4) error_header_def using that clear_header_other [of k "live q1"] by simp
  then show ?thesis using v un out by (simp add: error_header_values)
qed

text \<open>A handler that sets a header and panics.\<close>

definition crashing :: handler where
  "crashing r = seq (set_header ''Allow'' ''x'') (Panic (PanicValue ''boom''))"

theorem recoverPanics_contains_witness:
  "\<exists>q'. run (recoverPanics crashing demo_request) open_response demo_sys =
     (Inr (), q', logged (panic_entry demo_request demo_sys) demo_sys) \<and> status q' = Some 500 \<and>
     header_values (sent q') ''Allow'' = []"
proof -
  let ?q1 = "open_response\<lparr>live := header_set ''Allow'' ''x'' (live open_response)\<rparr>"
  have run: "run (crashing demo_request) open_response demo_sys = (Inl (PanicValue ''boom''), ?q1, demo_sys)"
    by (simp add: crashing_def run_seq http_run)
  have "clean open_response" "uncommitted ?q1"
    by (simp_all add: open_response_def new_response_def clean_def uncommitted_def)
  moreover obtain res' q' w' where
    run': "run (recoverPanics crashing demo_request) open_response demo_sys = (res', q', w')"
    by (metis prod_cases3)
  ultimately show ?thesis
    using recoverPanics_contains [of open_response demo_request crashing, OF open_response_facts(1) _ open_response_facts(4) run run'] run' by simp
qed

end
