(* ===== verification/Http_Observe.thy ===== *)
theory Http_Observe
  imports Http_Claims
begin

text \<open>
  What the observing middleware records: one access log entry, one counted request and one ended
  span per request, with the status the client was sent, for every handler; and that it changes
  nothing else.
\<close>

section \<open>The access log\<close>

definition tick :: "sys \<Rightarrow> sys" where
  "tick w = w\<lparr>clock_reads := Suc (clock_reads w)\<rparr>"

definition now_of :: "sys \<Rightarrow> int" where
  "now_of w = clock w (clock_reads w)"

lemma run_now: "run time_now q w = (Inr (now_of w), q, tick w)"
  by (simp add: run_time_now now_of_def tick_def)

lemma uncommitted_status_ok: "uncommitted q \<Longrightarrow> status_ok 0 q"
  by (simp add: uncommitted_def status_ok_def)

text \<open>The status of a response as a number, 0 when none was sent.\<close>

definition status_number :: "resp \<Rightarrow> int" where
  "status_number q = (case status q of None \<Rightarrow> 0 | Some st \<Rightarrow> st)"

lemma status_ok_number: "status_ok st q \<Longrightarrow> \<not> hijacked q \<Longrightarrow> status_number q = st"
  by (auto simp: status_ok_def status_number_def split: if_splits)

lemma run_Access:
  assumes "uncommitted q" "run (next r) q (tick w) = (res, q1, w1)"
  shows "\<exists>st. (hijacked q1 \<or> st = status_number q1) \<and>
    run (Access next r) q w =
      (res, q1, logged (access_entry r (\<not> isl res) st (time_sub (now_of w1) (now_of w))) (tick w1))"
proof -
  from response.transparent [OF uncommitted_status_ok [OF assms(1)] assms(2)] obtain st where
    st: "run (wrap (next r) responseWriter 0) q (tick w) = (Inr (res, st), q1, w1)" "status_ok st q1" by blast
  have "run (Access next r) q w =
      (res, q1, logged (access_entry r (\<not> isl res) st (time_sub (now_of w1) (now_of w))) (tick w1))"
    by (simp add: Access_def run_bind run_seq run_now st(1) run_log_event run_resume logged_def)
  then show ?thesis using status_ok_number [OF st(2)] by blast
qed

text \<open>
  The access log is faithful: whatever the handler does, the client sees exactly what the
  handler alone would have sent, and one entry is written, after everything the handler logged,
  carrying the request's own context and the status the client received (200 when the handler
  returned without sending one); a request that panicked is an error \<^verbatim>\<open>request_aborted\<close>, a status
  of 500 or more an error, one of 400 or more a warning.
\<close>

theorem Access_logs_once:
  assumes "uncommitted q" and "run (next r) q (tick w) = (res, q1, w1)" and "\<not> hijacked q1"
    and "run (Access next r) q w = (res', q', w')"
  shows "res' = res \<and> q' = q1 \<and>
    (\<exists>e. logs w' = logs w1 @ [e] \<and> log_ctx e = ctx r \<and>
       (let st = (if status_number q1 = 0 \<and> \<not> isl res then 200 else status_number q1)
        in map_of (log_attrs e) ''status_code'' = Some (LInt st) \<and>
           map_of (log_attrs e) ''path'' = Some (LString (Path r)) \<and>
           log_level e = (if isl res \<or> st \<ge> 500 then LevelError else if st \<ge> 400 then LevelWarn else LevelInfo) \<and>
           map_of (log_attrs e) ''error_code'' =
             (if isl res then Some (LString ''request_aborted'')
              else if st \<ge> 500 then Some (LString ''http_server_error'')
              else if st \<ge> 400 then Some (LString ''http_client_error'') else None)))"
proof -
  let ?e = "access_entry r (\<not> isl res) (status_number q1) (time_sub (now_of w1) (now_of w))"
  have "run (Access next r) q w = (res, q1, logged ?e (tick w1))"
    using run_Access [of q "next" r w, OF assms(1,2)] assms(3) by auto
  with assms(4) have "res' = res" "q' = q1" "logs w' = logs w1 @ [?e]"
    by (auto simp: logged_def tick_def)
  then show ?thesis
    by (intro conjI exI [of _ ?e]) (simp_all add: access_entry_def Let_def)
qed

theorem Access_logs_once_witness:
  "\<exists>e w'. run (Access (\<lambda>r. do_write_header 404) demo_request) open_response demo_sys =
       (Inr (), open_response\<lparr>status := Some 404, sent := [], content_length := None\<rparr>, w') \<and>
     logs w' = [e] \<and> log_level e = LevelWarn"
proof -
  let ?q = "open_response\<lparr>status := Some 404, sent := [], content_length := None\<rparr>"
  have run: "run ((\<lambda>r. do_write_header 404) demo_request) open_response (tick demo_sys) = (Inr (), ?q, tick demo_sys)"
    by (simp add: run_do_write_header base_write_header_def invalid_code_def open_response_def new_response_def
        sent_header_def declared_length_def)
  obtain res' q' w' where run': "run (Access (\<lambda>r. do_write_header 404) demo_request) open_response demo_sys = (res', q', w')"
    by (metis prod_cases3)
  have "\<not> hijacked ?q" "logs (tick demo_sys) = []"
    by (simp_all add: open_response_def new_response_def tick_def demo_sys_def)
  with Access_logs_once [OF open_response_facts(1) run _ run'] run'
  show ?thesis by (auto simp: status_number_def)
qed

section \<open>Metrics\<close>

definition entered :: "sys \<Rightarrow> sys" where
  "entered w = (tick w)\<lparr>metrics_of := (metrics_of w)\<lparr>inflight := inflight (metrics_of w) + 1\<rparr>\<rparr>"

lemma run_update_metrics [http_run]:
  "run (update_metrics u) q w = (Inr (), q, w\<lparr>metrics_of := u (metrics_of w)\<rparr>)"
  by (simp add: update_metrics_def run_update_sys)

definition left_with :: "nat \<Rightarrow> int \<Rightarrow> metrics \<Rightarrow> metrics" where
  "left_with c elapsed m =
     (count_request c (m\<lparr>inflight := inflight m - 1\<rparr>))\<lparr>durationNS := durationNS m + word_of_int elapsed\<rparr>"

lemma run_Metrics_Wrap:
  assumes "uncommitted q" "run (next r) q (entered w) = (res, q1, w1)"
  shows "\<exists>st. (hijacked q1 \<or> st = status_number q1) \<and>
    run (Metrics_Wrap next r) q w =
      (res, q1, (tick w1)\<lparr>metrics_of :=
         left_with (status_class (if \<not> isl res \<and> st = 0 then 200 else st)) (time_sub (now_of w1) (now_of w)) (metrics_of w1)\<rparr>)"
proof -
  from metric.transparent [OF uncommitted_status_ok [OF assms(1)] assms(2)] obtain st where
    st: "run (wrap (next r) metricWriter 0) q (entered w) = (Inr (res, st), q1, w1)" "status_ok st q1" by blast
  have "run (Metrics_Wrap next r) q w =
      (res, q1, (tick w1)\<lparr>metrics_of :=
         left_with (status_class (if \<not> isl res \<and> st = 0 then 200 else st)) (time_sub (now_of w1) (now_of w)) (metrics_of w1)\<rparr>)"
    using st(1)
    by (simp add: Metrics_Wrap_def run_bind run_seq run_time_now run_update_metrics run_resume Let_def
        left_with_def count_request_def entered_def tick_def now_of_def)
  then show ?thesis using status_ok_number [OF st(2)] by blast
qed

lemma status_class_bound: "status_class st < 6"
  by (simp add: status_class_def Let_def nat_less_iff)

lemma sum_list_bump: "c < length xs \<Longrightarrow> sum_list (xs[c := xs ! c + 1]) = sum_list xs + (1 :: 64 word)"
  by (induction xs arbitrary: c) (auto simp: algebra_simps split: nat.splits)

text \<open>
  A request is counted exactly once, in the class of the status the client received, also when
  the handler panics (as a server error if nothing was sent); the gauge of requests in flight is
  back at its value, and the response is what the handler alone would have sent.
\<close>

theorem Metrics_counts_once:
  assumes "uncommitted q" and "run (next r) q (entered w) = (res, q1, w1)" and "\<not> hijacked q1"
    and "metrics_of w1 = metrics_of (entered w)" and "length (requests (metrics_of w)) = 6"
    and "run (Metrics_Wrap next r) q w = (res', q', w')"
  shows "res' = res \<and> q' = q1 \<and> inflight (metrics_of w') = inflight (metrics_of w) \<and>
    (let c = status_class (if \<not> isl res \<and> status_number q1 = 0 then 200 else status_number q1);
         before = requests (metrics_of w); after = requests (metrics_of w')
     in c < 6 \<and> after = before[c := before ! c + 1] \<and> sum_list after = sum_list before + 1)"
proof -
  let ?c = "status_class (if \<not> isl res \<and> status_number q1 = 0 then 200 else status_number q1)"
  let ?d = "time_sub (now_of w1) (now_of w)"
  have out: "res' = res" "q' = q1" "metrics_of w' = left_with ?c ?d (metrics_of w1)"
    using run_Metrics_Wrap [of q "next" r w, OF assms(1,2)] assms(3,6) by auto
  have "sum_list ((requests (metrics_of w))[?c := requests (metrics_of w) ! ?c + 1]) =
      sum_list (requests (metrics_of w)) + 1"
    by (rule sum_list_bump) (simp only: assms(5) status_class_bound)
  then show ?thesis
    using out assms(4) status_class_bound [of "if \<not> isl res \<and> status_number q1 = 0 then 200 else status_number q1"]
    unfolding Let_def by (simp add: left_with_def count_request_def entered_def)
qed

theorem Metrics_counts_once_witness:
  "\<exists>w'. run (Metrics_Wrap (\<lambda>r. Panic ErrAbortHandler) demo_request) open_response demo_sys =
       (Inl ErrAbortHandler, open_response, w') \<and>
     requests (metrics_of w') = [0, 0, 0, 0, 0, 1] \<and> inflight (metrics_of w') = 0"
proof -
  have run: "run ((\<lambda>r. Panic ErrAbortHandler) demo_request) open_response (entered demo_sys) =
      (Inl ErrAbortHandler, open_response, entered demo_sys)" by simp
  obtain res' q' w' where run':
    "run (Metrics_Wrap (\<lambda>r. Panic ErrAbortHandler) demo_request) open_response demo_sys = (res', q', w')"
    by (metis prod_cases3)
  have "\<not> hijacked open_response" "status_number open_response = 0"
    "metrics_of demo_sys = \<lparr>requests = [0, 0, 0, 0, 0, 0], durationNS = 0, inflight = 0\<rparr>"
    by (simp_all add: open_response_def new_response_def status_number_def demo_sys_def numeral_eq_Suc)
  moreover have "status_class 0 = 5" by (simp add: status_class_def quot_int_def)
  ultimately show ?thesis
    using Metrics_counts_once [OF open_response_facts(1) run _ refl _ run'] run' by (simp add: Let_def)
qed

section \<open>Tracing\<close>

lemma run_update_span [http_run]:
  "run (update_span i u) q w = (Inr (), q, w\<lparr>spans := (spans w)[i := u (spans w ! i)]\<rparr>)"
  by (simp add: update_span_def run_update_sys)

definition span_opened :: "sys \<Rightarrow> sys" where
  "span_opened w = w\<lparr>spans := spans w @ [\<lparr>span_status = None, span_failed = False, span_ended = False\<rparr>]\<rparr>"

definition traced :: "request \<Rightarrow> sys \<Rightarrow> request" where
  "traced r w = r\<lparr>ctx := WithTraceID (ctx r) (trace_ids w (length (spans w)))\<rparr>"

lemma run_HTTPTracing:
  assumes "uncommitted q" "run (next (traced r w)) q (span_opened w) = (res, q1, w1)"
  shows "\<exists>st. (hijacked q1 \<or> st = status_number q1) \<and>
    run (HTTPTracing next r) q w =
      (res, q1, let i = length (spans w); code = (if st = 0 \<and> \<not> isl res then 200 else st);
                    sp = spans w1 ! i;
                    sp' = sp\<lparr>span_status := Some code, span_failed := span_failed sp \<or> isl res \<or> code \<ge> 500, span_ended := True\<rparr>
                in w1\<lparr>spans := (spans w1)[i := sp']\<rparr>)"
proof -
  from trace.transparent [OF uncommitted_status_ok [OF assms(1)] assms(2)] obtain st where
    st: "run (wrap (next (traced r w)) traceWriter 0) q (span_opened w) = (Inr (res, st), q1, w1)" "status_ok st q1" by blast
  let ?i = "length (spans w)" and ?code = "if st = 0 \<and> \<not> isl res then 200 else st"
  have start: "run (HTTPTracing next r) q w = run (bind (wrap (next (traced r w)) traceWriter 0) (\<lambda>(res, tracked).
      let st = (if tracked = 0 \<and> \<not> isl res then 200 else tracked)
      in seq (update_span ?i (\<lambda>sp. sp\<lparr>span_status := Some st\<rparr>))
         (seq (if isl res \<or> st \<ge> 500 then update_span ?i (\<lambda>sp. sp\<lparr>span_failed := True\<rparr>) else Ret ())
         (seq (update_span ?i (\<lambda>sp. sp\<lparr>span_ended := True\<rparr>)) (resume res))))) q (span_opened w)"
    by (simp add: HTTPTracing_def start_span_def traced_def span_opened_def Let_def)
  have "run (HTTPTracing next r) q w =
      (res, q1, let sp = spans w1 ! ?i;
                    sp' = sp\<lparr>span_status := Some ?code, span_failed := span_failed sp \<or> isl res \<or> ?code \<ge> 500, span_ended := True\<rparr>
                in w1\<lparr>spans := (spans w1)[?i := sp']\<rparr>)"
  proof (cases "?i < length (spans w1)")
    case True
    then show ?thesis
      unfolding start by (simp add: run_bind st(1) Let_def run_seq run_update_span run_resume)
  next
    case False
    then have "(spans w1)[?i := x] = spans w1" for x by (simp add: list_update_beyond)
    then show ?thesis
      unfolding start by (simp add: run_bind st(1) Let_def run_seq run_update_span run_resume)
  qed
  then show ?thesis using status_ok_number [OF st(2)] unfolding Let_def by blast
qed

text \<open>
  Every request has one span: opened before the handler runs, with the trace ID in the request's
  context, and ended after it, also after a panic, with the status the client received; it is
  marked failed exactly for a panic or a status of 500 or more. The response is untouched.
\<close>

theorem HTTPTracing_one_span:
  assumes "uncommitted q" and "run (next (traced r w)) q (span_opened w) = (res, q1, w1)" and "\<not> hijacked q1"
    and "spans w1 = spans (span_opened w)" and "run (HTTPTracing next r) q w = (res', q', w')"
  shows "res' = res \<and> q' = q1 \<and>
    (let code = (if status_number q1 = 0 \<and> \<not> isl res then 200 else status_number q1)
     in spans w' = spans w @ [\<lparr>span_status = Some code, span_failed = (isl res \<or> code \<ge> 500), span_ended = True\<rparr>])"
  using run_HTTPTracing [of q "next" r w, OF assms(1,2)] assms(3-5)
  by (auto simp: Let_def span_opened_def)

theorem HTTPTracing_one_span_witness:
  "\<exists>w'. run (HTTPTracing (\<lambda>r. Ret ()) demo_request) open_response demo_sys = (Inr (), open_response, w') \<and>
     spans w' = [\<lparr>span_status = Some 200, span_failed = False, span_ended = True\<rparr>]"
proof -
  have run: "run ((\<lambda>r. Ret ()) (traced demo_request demo_sys)) open_response (span_opened demo_sys) =
      (Inr (), open_response, span_opened demo_sys)" by simp
  obtain res' q' w' where run': "run (HTTPTracing (\<lambda>r. Ret ()) demo_request) open_response demo_sys = (res', q', w')"
    by (metis prod_cases3)
  have "\<not> hijacked open_response" "status_number open_response = 0" "spans demo_sys = []"
    by (simp_all add: open_response_def new_response_def status_number_def demo_sys_def)
  with HTTPTracing_one_span [OF open_response_facts(1) run _ refl run'] run' show ?thesis by simp
qed

section \<open>Observing layers\<close>

text \<open>
  The contract the observing middleware shares: the handler inside runs once, on the request and the
  state \<open>pass\<close> gives, the client gets exactly its response and its panic, and the layer logs after it
  what \<open>own\<close> says. A stack of such layers is understood through this contract alone.
\<close>

locale observer =
  fixes layer :: "handler \<Rightarrow> handler"
    and pass :: "request \<Rightarrow> sys \<Rightarrow> request \<times> sys"
    and own :: "request \<Rightarrow> log_entry list \<Rightarrow> bool"
  assumes observes: "uncommitted q \<Longrightarrow> run (next (fst (pass r w))) q (snd (pass r w)) = (res, q1, w1) \<Longrightarrow>
    \<exists>w' es. run (layer next r) q w = (res, q1, w') \<and> logs w' = logs w1 @ es \<and> own r es"
begin

lemma observed:
  assumes "uncommitted q"
  obtains res q1 w1 w' es where "run (next (fst (pass r w))) q (snd (pass r w)) = (res, q1, w1)"
    "run (layer next r) q w = (res, q1, w')" "logs w' = logs w1 @ es" "own r es"
  using observes [OF assms] by (metis prod_cases3)

lemma same_result: "uncommitted q \<Longrightarrow> fst (run (layer next r) q w) = fst (run (next (fst (pass r w))) q (snd (pass r w)))"
  by (erule observed [of q "next" r w]) simp

lemma same_response:
  "uncommitted q \<Longrightarrow> fst (snd (run (layer next r) q w)) = fst (snd (run (next (fst (pass r w))) q (snd (pass r w))))"
  by (erule observed [of q "next" r w]) simp

lemma own_entries:
  "uncommitted q \<Longrightarrow> \<exists>es. own r es \<and>
    logs (snd (snd (run (layer next r) q w))) = logs (snd (snd (run (next (fst (pass r w))) q (snd (pass r w))))) @ es"
  by (erule observed [of q "next" r w]) auto

end

definition completion :: "request \<Rightarrow> log_entry list \<Rightarrow> bool" where
  "completion r es \<longleftrightarrow> (\<exists>e. es = [e] \<and> log_ctx e = ctx r \<and> log_msg e = ''HTTP request completed'')"

interpretation access_layer: observer Access "\<lambda>r w. (r, tick w)" completion
proof
  fix q r w res q1 w1 and "next" :: handler
  assume "uncommitted q" "run (next (fst (r, tick w))) q (snd (r, tick w)) = (res, q1, w1)"
  from run_Access [of q "next" r w, OF this(1) this(2) [simplified]]
  show "\<exists>w' es. run (Access next r) q w = (res, q1, w') \<and> logs w' = logs w1 @ es \<and> completion r es"
    by (auto simp: completion_def logged_def tick_def access_entry_def Let_def)
qed

interpretation metrics_layer: observer Metrics_Wrap "\<lambda>r w. (r, entered w)" "\<lambda>r es. es = []"
proof
  fix q r w res q1 w1 and "next" :: handler
  assume "uncommitted q" "run (next (fst (r, entered w))) q (snd (r, entered w)) = (res, q1, w1)"
  from run_Metrics_Wrap [of q "next" r w, OF this(1) this(2) [simplified]]
  show "\<exists>w' es. run (Metrics_Wrap next r) q w = (res, q1, w') \<and> logs w' = logs w1 @ es \<and> es = []"
    by (auto simp: tick_def)
qed

interpretation tracing_layer: observer HTTPTracing "\<lambda>r w. (traced r w, span_opened w)" "\<lambda>r es. es = []"
proof
  fix q r w res q1 w1 and "next" :: handler
  assume "uncommitted q" "run (next (fst (traced r w, span_opened w))) q (snd (traced r w, span_opened w)) = (res, q1, w1)"
  from run_HTTPTracing [of q "next" r w, OF this(1) this(2) [simplified]]
  show "\<exists>w' es. run (HTTPTracing next r) q w = (res, q1, w') \<and> logs w' = logs w1 @ es \<and> es = []"
    by (auto simp: Let_def)
qed

end
