(* ===== verification/Http_Guard.thy ===== *)
theory Http_Guard
  imports Http_Observe
begin

text \<open>
  What the guarding middleware lets through: authentication and authorisation, cross-origin
  requests, deadlines, generated routing failures, and the assembled stack.
\<close>

lemma sent_after_write: "status q = Some st \<Longrightarrow> sent (snd (base_write data q)) = sent q"
  by (simp add: base_write_def implicit_header_def connection_io_def Let_def split: option.splits)

section \<open>Authentication and authorisation\<close>

definition with_principal :: "principal \<Rightarrow> request \<Rightarrow> request" where
  "with_principal p r = r\<lparr>ctx := (ctx r)\<lparr>ctx_principal := Some p\<rparr>\<rparr>"

definition authorised ::
  "authenticator option \<Rightarrow> authorizer option \<Rightarrow> string \<Rightarrow> request \<Rightarrow> principal \<Rightarrow> bool" where
  "authorised auth policy permission r p \<longleftrightarrow>
     (\<exists>authenticate authorize token.
        auth = Some authenticate \<and> policy = Some authorize \<and> permission \<noteq> [] \<and>
        bearer_token (r_header r) = Some token \<and> authenticate (ctx r) token = Inr p \<and> Subject p \<noteq> [] \<and>
        authorize (ctx (with_principal p r)) p permission = None)"

text \<open>
  The class of a refusal: unauthorized when there is no bearer credential or the authenticator
  rejects it as such, forbidden when the policy denies a named principal as such, and internal
  otherwise: for missing wiring, an empty subject and every other failure of the two.
\<close>

definition wired :: "authenticator option \<Rightarrow> authorizer option \<Rightarrow> string \<Rightarrow> bool" where
  "wired auth policy permission \<longleftrightarrow> auth \<noteq> None \<and> policy \<noteq> None \<and> permission \<noteq> []"

definition unauthenticated :: "authenticator \<Rightarrow> request \<Rightarrow> bool" where
  "unauthenticated authenticate r \<longleftrightarrow>
     (case bearer_token (r_header r) of
        None \<Rightarrow> True
      | Some token \<Rightarrow> (\<exists>e. authenticate (ctx r) token = Inl e \<and> CodeOf (Some e) = ErrUnauthorized))"

definition denied :: "authenticator \<Rightarrow> authorizer \<Rightarrow> string \<Rightarrow> request \<Rightarrow> bool" where
  "denied authenticate authorize permission r \<longleftrightarrow>
     (\<exists>token p e. bearer_token (r_header r) = Some token \<and> authenticate (ctx r) token = Inr p \<and> Subject p \<noteq> [] \<and>
        authorize (ctx (with_principal p r)) p permission = Some e \<and> CodeOf (Some e) = ErrForbidden)"

definition refusal :: "authenticator option \<Rightarrow> authorizer option \<Rightarrow> string \<Rightarrow> request \<Rightarrow> string" where
  "refusal auth policy permission r =
     (if wired auth policy permission \<and> unauthenticated (the auth) r then ErrUnauthorized
      else if wired auth policy permission \<and> denied (the auth) (the policy) permission r then ErrForbidden
      else ErrInternal)"

text \<open>A refusal does not depend on the wrapped handler; an unauthorized one carries a challenge.\<close>

definition challenge :: "request \<Rightarrow> string" where
  "challenge r = realm_challenge @
     (if bearer_token (r_header r) = None then [] else '', error='' @ [CHR 0x22] @ ''invalid_token'' @ [CHR 0x22])"

definition refused :: "(handler \<Rightarrow> unit prog) \<Rightarrow> request \<Rightarrow> string \<Rightarrow> bool" where
  "refused P r c \<longleftrightarrow>
     (\<forall>next. P next =
        (if c = ErrUnauthorized then seq (set_header ''WWW-Authenticate'' (challenge r)) (WriteError r (Some (CodeErr c)))
         else WriteError r (Some (CodeErr c))))"

lemma seq_Ret [simp]: "seq (Ret ()) p = p"
  by (simp add: seq_def)

lemma WriteError_principal [simp]: "WriteError (with_principal p r) e = WriteError r e"
  by (simp add: WriteError_def write_json_def with_principal_def split: option.split prod.split)

lemma classify_refusal:
  "fst (classify (Some (CodeErr ErrUnauthorized))) = 401"
  "classify (Some (CodeErr ErrForbidden)) = (403, ErrForbidden, ''Access forbidden'')"
  by (simp_all add: classify_def CodeOf_classified)

definition refusal_status :: "string \<Rightarrow> int" where
  "refusal_status c = (if c = ErrUnauthorized then 401 else if c = ErrForbidden then 403 else 500)"

lemma run_refused:
  assumes "refused P r c" "c \<in> {ErrUnauthorized, ErrForbidden, ErrInternal}" "uncommitted q"
  shows "\<exists>q' h. run (P next) q w = (Inr (), q', w) \<and>
    run (WriteError r (Some (CodeErr c))) (q\<lparr>live := h\<rparr>) w = (Inr (), q', w) \<and> status q' = Some (refusal_status c) \<and>
    header_values (sent q') ''WWW-Authenticate'' =
      (if c = ErrUnauthorized then [challenge r] else header_values (live q) ''WWW-Authenticate'')"
proof -
  define h where "h = (if c = ErrUnauthorized then header_set ''WWW-Authenticate'' (challenge r) (live q) else live q)"
  have run: "run (P next) q w = run (WriteError r (Some (CodeErr c))) (q\<lparr>live := h\<rparr>) w"
    using assms(1) by (auto simp: refused_def h_def run_seq run_set_header)
  have un: "uncommitted (q\<lparr>live := h\<rparr>)" using assms(3) by (simp add: uncommitted_def)
  have "refusal_status ErrUnauthorized = 401" "refusal_status ErrForbidden = 403" "refusal_status ErrInternal = 500"
    by (simp_all add: refusal_status_def)
  then have "fst (classify (Some (CodeErr c))) = refusal_status c"
    using assms(2) classify_internal classify_refusal by (elim insertE) (simp_all only: fst_conv empty_iff)
  then obtain code msg where cl: "classify (Some (CodeErr c)) = (refusal_status c, code, msg)" by (metis prod.collapse)
  from run_WriteError [OF un cl, of r w] obtain q' where q': "run (WriteError r (Some (CodeErr c))) (q\<lparr>live := h\<rparr>) w = (Inr (), q', w)"
    "q' = (let q1 = commit_with (refusal_status c) (error_header h) (q\<lparr>live := h\<rparr>)
           in if Method r = ''HEAD'' then q1
              else snd (base_write (error_text r (refusal_status c) code msg (validation_details (CodeErr c))) q1))"
    by simp
  have "status q' = Some (refusal_status c)" "sent q' = error_header h"
    using assms(3) q'(2) by (auto simp: Let_def commit_with_def uncommitted_def status_after(2) sent_after_write)
  moreover have "header_values (error_header h) ''WWW-Authenticate'' = header_values h ''WWW-Authenticate''"
    by (simp add: error_header_def)
  ultimately have "header_values (sent q') ''WWW-Authenticate'' =
      (if c = ErrUnauthorized then [challenge r] else header_values (live q) ''WWW-Authenticate'')" by (simp add: h_def)
  with \<open>status q' = _\<close> run q'(1) show ?thesis by metis
qed

lemma Protected_cases:
  "(\<exists>p. authorised auth policy permission r p \<and> (\<forall>next. Protected auth policy permission next r = next (with_principal p r))) \<or>
   ((\<forall>p. \<not> authorised auth policy permission r p) \<and>
    refused (\<lambda>next. Protected auth policy permission next r) r (refusal auth policy permission r))"
proof (cases "wired auth policy permission")
  case False
  then have "Protected auth policy permission next r = WriteError r (Some (CodeErr ErrInternal))" for "next"
    by (auto simp: Protected_def wired_def split: option.splits)
  moreover have "refusal auth policy permission r = ErrInternal" using False by (simp add: refusal_def)
  ultimately show ?thesis using False by (auto simp: refused_def authorised_def wired_def)
next
  case True
  then obtain authenticate authorize where
    wired: "auth = Some authenticate" "policy = Some authorize" "permission \<noteq> []" by (auto simp: wired_def)
  note cls = refusal_def unauthenticated_def denied_def True [unfolded wired]
  show ?thesis
  proof (cases "bearer_token (r_header r)")
    case None
    with wired show ?thesis by (simp add: Protected_def authorised_def refused_def challenge_def cls)
  next
    case token: (Some token)
    show ?thesis
    proof (cases "authenticate (ctx r) token")
      case (Inl e)
      with wired token show ?thesis
        by (cases "CodeOf (Some e) = ErrUnauthorized") (simp_all add: Protected_def authorised_def refused_def challenge_def cls)
    next
      case p: (Inr p)
      consider "Subject p = []" | "Subject p \<noteq> []" "authorize (ctx (with_principal p r)) p permission = None"
        | e where "Subject p \<noteq> []" "authorize (ctx (with_principal p r)) p permission = Some e" by blast
      then show ?thesis
      proof cases
        case 1
        with wired token p show ?thesis by (simp add: Protected_def authorised_def refused_def cls)
      next
        case 2
        with wired token p show ?thesis
          by (intro disjI1 exI [of _ p]) (simp add: Protected_def authorised_def with_principal_def Let_def)
      next
        case (3 e)
        have "WriteError (r\<lparr>ctx := (ctx r)\<lparr>ctx_principal := Some p\<rparr>\<rparr>) x = WriteError r x" for x
          using WriteError_principal [of p r x] by (simp add: with_principal_def)
        with 3 wired token p show ?thesis
          by (cases "CodeOf (Some e) = ErrForbidden")
            (simp_all add: Protected_def authorised_def refused_def cls Let_def with_principal_def)
      qed
    qed
  qed
qed

text \<open>
  C16. \<^verbatim>\<open>Protected\<close> fails closed, with the error of the right class. The wrapped handler runs only when an
  authenticator, a policy and a permission are wired, for a request with exactly one bearer
  credential that the authenticator accepts for a named principal whom the policy grants the
  permission; and then it sees that principal in its context. In every other case what happens does
  not depend on the wrapped handler: the response is that of \<^verbatim>\<open>WriteError\<close>, with 401 and a challenge when
  the credential is missing, malformed or rejected, with 403 when the policy denies the permission,
  and with 500 otherwise: for missing wiring, for an empty subject, and for every other failure of
  the authenticator or the policy.
\<close>

theorem Protected_fails_closed:
  assumes "uncommitted q"
  shows "(\<exists>p. authorised auth policy permission r p \<and>
            Protected auth policy permission next r = next (r\<lparr>ctx := (ctx r)\<lparr>ctx_principal := Some p\<rparr>\<rparr>)) \<or>
         ((\<forall>p. \<not> authorised auth policy permission r p) \<and>
          (\<forall>next'. Protected auth policy permission next' r = Protected auth policy permission next r) \<and>
          (\<exists>c q' h. c = (if wired auth policy permission \<and> unauthenticated (the auth) r then ErrUnauthorized
                       else if wired auth policy permission \<and> denied (the auth) (the policy) permission r then ErrForbidden
                       else ErrInternal) \<and>
             run (Protected auth policy permission next r) q w = (Inr (), q', w) \<and>
             run (WriteError r (Some (CodeErr c))) (q\<lparr>live := h\<rparr>) w = (Inr (), q', w) \<and>
             status q' = Some (if c = ErrUnauthorized then 401 else if c = ErrForbidden then 403 else 500) \<and>
             header_values (sent q') ''WWW-Authenticate'' =
               (if c = ErrUnauthorized then [challenge r] else header_values (live q) ''WWW-Authenticate'')))"
  using Protected_cases [of auth policy permission r]
proof
  assume "\<exists>p. authorised auth policy permission r p \<and>
    (\<forall>next. Protected auth policy permission next r = next (with_principal p r))"
  then show ?thesis unfolding with_principal_def by blast
next
  let ?c = "refusal auth policy permission r"
  assume a: "(\<forall>p. \<not> authorised auth policy permission r p) \<and> refused (\<lambda>next. Protected auth policy permission next r) r ?c"
  then have "\<forall>next'. Protected auth policy permission next' r = Protected auth policy permission next r"
    unfolding refused_def by metis
  moreover have "?c \<in> {ErrUnauthorized, ErrForbidden, ErrInternal}" by (simp add: refusal_def)
  ultimately show ?thesis
    using a run_refused [of "\<lambda>next. Protected auth policy permission next r" r ?c q "next" w] assms
    unfolding refusal_status_def refusal_def [symmetric] by blast
qed

definition demo_auth :: authenticator where
  "demo_auth c token = (if token = ''t'' then Inr \<lparr>Subject = ''alice''\<rparr> else Inl (CodeErr ErrUnauthorized))"

definition demo_policy :: authorizer where
  "demo_policy c p permission = (if permission = ''read'' then None else Some (CodeErr ErrForbidden))"

definition token_request :: "string \<Rightarrow> request" where
  "token_request v = demo_request\<lparr>r_header := [(''Authorization'', [v])]\<rparr>"

theorem Protected_fails_closed_witness:
  "Protected (Some demo_auth) (Some demo_policy) ''read'' (\<lambda>r. Ret ()) (token_request ''bearer  t'') = Ret () \<and>
   (\<exists>q'. run (Protected (Some demo_auth) (Some demo_policy) ''write'' (\<lambda>r. Ret ()) (token_request ''Bearer t''))
           open_response demo_sys = (Inr (), q', demo_sys) \<and> status q' = Some 403)"
proof -
  have b: "bearer_token (r_header (token_request ''bearer  t'')) = Some ''t''"
    "bearer_token (r_header (token_request ''Bearer t'')) = Some ''t''" by code_simp+
  have "authorised (Some demo_auth) (Some demo_policy) ''read'' (token_request ''bearer  t'') \<lparr>Subject = ''alice''\<rparr>"
    using b(1) by (simp add: authorised_def demo_auth_def demo_policy_def)
  moreover have "\<not> authorised (Some demo_auth) (Some demo_policy) ''write'' (token_request ''Bearer t'') p" for p
    by (simp add: authorised_def demo_policy_def)
  moreover have "\<not> unauthenticated (the (Some demo_auth)) (token_request ''Bearer t'')"
    "denied (the (Some demo_auth)) (the (Some demo_policy)) ''write'' (token_request ''Bearer t'')"
    using b(2) by (simp_all add: unauthenticated_def denied_def demo_auth_def demo_policy_def CodeOf_classified)
  moreover have "wired (Some demo_auth) (Some demo_policy) ''write''" by (simp add: wired_def)
  ultimately show ?thesis
    using Protected_fails_closed [OF open_response_facts(1), of "Some demo_auth" "Some demo_policy" "''read''"
        "token_request ''bearer  t''" "\<lambda>r. Ret ()"]
      Protected_fails_closed [OF open_response_facts(1), of "Some demo_auth" "Some demo_policy" "''write''"
        "token_request ''Bearer t''" "\<lambda>r. Ret ()" demo_sys] by (simp, blast)
qed

section \<open>Cross-origin requests\<close>

lemma WriteError_summary:
  assumes "uncommitted q" "classify (Some e) = (st, code, msg)"
  shows "\<exists>q'. run (WriteError r (Some e)) q w = (Inr (), q', w) \<and> status q' = Some st \<and> sent q' = error_header (live q)"
  using run_WriteError [OF assms, of r w] assms(1)
  by (auto simp: Let_def commit_with_def uncommitted_def status_after(2) sent_after_write)

lemma classify_forbidden: "classify (Some (CodeErr ErrForbidden)) = (403, ErrForbidden, ''Access forbidden'')"
  by (simp add: classify_def CodeOf_classified)

definition is_preflight :: "request \<Rightarrow> bool" where
  "is_preflight r \<longleftrightarrow> Method r = ''OPTIONS'' \<and> header_get (r_header r) ''Access-Control-Request-Method'' \<noteq> []"

definition acceptable_preflight :: "(bytes \<Rightarrow> bytes) \<Rightarrow> request \<Rightarrow> bool" where
  "acceptable_preflight uni r \<longleftrightarrow>
     header_get (r_header r) ''Access-Control-Request-Method'' \<in> set cors_methods \<and>
     (\<forall>name \<in> set (Split (header_get (r_header r) ''Access-Control-Request-Headers'') '',''). \<not> forbidden_header uni name)"

definition request_origin :: "request \<Rightarrow> string" where
  "request_origin r = header_get (r_header r) ''Origin''"

text \<open>The header fields of the answer to an allowed origin, and the permissions of a preflight.\<close>

definition origin_header :: "request \<Rightarrow> header \<Rightarrow> header" where
  "origin_header r h =
     header_set ''Access-Control-Expose-Headers'' ''X-Request-ID, Retry-After, Location''
       (header_set ''Access-Control-Allow-Origin'' (request_origin r) (header_add ''Vary'' ''Origin'' h))"

abbreviation permission_fields :: "string set" where
  "permission_fields \<equiv> {''Access-Control-Allow-Methods'', ''Access-Control-Allow-Headers'', ''Access-Control-Max-Age''}"

lemma cors_absent:
  "request_origin r = [] \<Longrightarrow>
     run (cors_handler uni allowed next r) q w = run (next r) (q\<lparr>live := header_add ''Vary'' ''Origin'' (live q)\<rparr>) w"
  by (simp add: cors_handler_def request_origin_def run_seq run_update_header)

lemma cors_refuses:
  assumes "uncommitted q" "request_origin r \<noteq> []" "request_origin r \<notin> allowed"
  shows "\<exists>q'. run (cors_handler uni allowed next r) q w = (Inr (), q', w) \<and> status q' = Some 403 \<and>
    sent q' = error_header (header_add ''Vary'' ''Origin'' (live q))"
proof -
  let ?q = "q\<lparr>live := header_add ''Vary'' ''Origin'' (live q)\<rparr>"
  have "cors_handler uni allowed next r =
      seq (update_header (header_add ''Vary'' ''Origin'')) (WriteError r (Some (CodeErr ErrForbidden)))"
    using assms(2,3) by (simp add: cors_handler_def request_origin_def Let_def)
  moreover have "uncommitted ?q" using assms(1) by (simp add: uncommitted_def)
  ultimately show ?thesis
    using WriteError_summary [OF _ classify_forbidden, of ?q r w] by (auto simp: run_seq run_update_header)
qed

lemma cors_allowed:
  assumes "request_origin r \<noteq> []" "request_origin r \<in> allowed" "\<not> is_preflight r"
  shows "run (cors_handler uni allowed next r) q w = run (next r) (q\<lparr>live := origin_header r (live q)\<rparr>) w"
  using assms by (auto simp: cors_handler_def request_origin_def is_preflight_def origin_header_def run_seq run_update_header
      run_set_header Let_def)

definition preflight_header :: "request \<Rightarrow> header \<Rightarrow> header" where
  "preflight_header r h =
     header_add ''Vary'' ''Access-Control-Request-Headers'' (header_add ''Vary'' ''Access-Control-Request-Method'' (origin_header r h))"

definition permitted_header :: "header \<Rightarrow> header" where
  "permitted_header h =
     header_set ''Access-Control-Max-Age'' ''600'' (header_set ''Access-Control-Allow-Headers'' ''Authorization, Content-Type''
       (header_set ''Access-Control-Allow-Methods'' ''GET, HEAD, POST, PUT, PATCH, DELETE, OPTIONS'' h))"

lemma cors_preflight:
  assumes "uncommitted q" "request_origin r \<noteq> []" "request_origin r \<in> allowed" "is_preflight r"
  shows "\<exists>q'. run (cors_handler uni allowed next r) q w = (Inr (), q', w) \<and>
    (if acceptable_preflight uni r
     then status q' = Some 204 \<and> sent q' = sent_header (permitted_header (preflight_header r (live q)))
     else status q' = Some 403 \<and> sent q' = error_header (preflight_header r (live q)))"
proof -
  let ?q = "q\<lparr>live := preflight_header r (live q)\<rparr>"
  note start = cors_handler_def request_origin_def is_preflight_def acceptable_preflight_def Let_def preflight_header_def
    origin_header_def run_seq run_update_header run_set_header
  have un: "uncommitted ?q" using assms(1) by (simp add: uncommitted_def)
  show ?thesis
  proof (cases "acceptable_preflight uni r")
    case False
    then have "run (cors_handler uni allowed next r) q w = run (WriteError r (Some (CodeErr ErrForbidden))) ?q w"
      using assms(2-4) by (auto simp: start)
    then show ?thesis
      using WriteError_summary [OF un classify_forbidden, of r w] False by auto
  next
    case True
    have "run (cors_handler uni allowed next r) q w =
        run (do_write_header 204) (q\<lparr>live := permitted_header (preflight_header r (live q))\<rparr>) w"
      using assms(2-4) True by (auto simp: start permitted_header_def)
    then show ?thesis
      using assms(1) True by (simp add: run_do_write_header base_write_header_def invalid_code_def uncommitted_def)
  qed
qed

text \<open>
  C18. Cross-origin requests are gated, case by case. A request without an origin reaches the handler
  behind, with \<^verbatim>\<open>Vary: Origin\<close> added and nothing else. A request from an origin that is not configured is
  refused with 403, the handler not run, and no CORS field is added to the response. A request
  from a configured origin that is no preflight reaches the handler, with exactly that origin
  allowed, the exposed fields set, and every other field left alone. A preflight from a configured
  origin is answered on the spot: with 204 and the permitted methods, headers and lifetime when
  the method and the headers it asks for are acceptable, otherwise with 403 and none of these
  permissions. An allowed origin never contains a wildcard.
\<close>

theorem CORS_gate:
  assumes "CORS uni url_parse origins next = Inr h" and "uncommitted q"
  shows "(request_origin r = [] \<longrightarrow>
      run (h r) q w = run (next r) (q\<lparr>live := header_add ''Vary'' ''Origin'' (live q)\<rparr>) w) \<and>
    (request_origin r \<noteq> [] \<and> request_origin r \<notin> set origins \<longrightarrow>
      (\<exists>q'. run (h r) q w = (Inr (), q', w) \<and> status q' = Some 403 \<and>
         (\<forall>k \<in> {''Access-Control-Allow-Origin'', ''Access-Control-Expose-Headers''} \<union> permission_fields.
            header_values (sent q') k = header_values (live q) k))) \<and>
    (request_origin r \<noteq> [] \<and> request_origin r \<in> set origins \<and> \<not> is_preflight r \<longrightarrow>
      (\<exists>hd. run (h r) q w = run (next r) (q\<lparr>live := hd\<rparr>) w \<and>
         header_values hd ''Access-Control-Allow-Origin'' = [request_origin r] \<and>
         header_values hd ''Access-Control-Expose-Headers'' = [''X-Request-ID, Retry-After, Location''] \<and>
         header_values hd ''Vary'' = header_values (live q) ''Vary'' @ [''Origin''] \<and>
         (\<forall>k. CanonicalHeaderKey k \<notin> {''Access-Control-Allow-Origin'', ''Access-Control-Expose-Headers'', ''Vary''} \<longrightarrow>
            header_values hd k = header_values (live q) k))) \<and>
    (request_origin r \<noteq> [] \<and> request_origin r \<in> set origins \<and> is_preflight r \<longrightarrow>
      (\<exists>q'. run (h r) q w = (Inr (), q', w) \<and>
         header_values (sent q') ''Access-Control-Allow-Origin'' = [request_origin r] \<and>
         header_values (sent q') ''Vary'' = header_values (live q) ''Vary'' @
           [''Origin'', ''Access-Control-Request-Method'', ''Access-Control-Request-Headers''] \<and>
         (if acceptable_preflight uni r
          then status q' = Some 204 \<and>
            header_values (sent q') ''Access-Control-Allow-Methods'' = [''GET, HEAD, POST, PUT, PATCH, DELETE, OPTIONS''] \<and>
            header_values (sent q') ''Access-Control-Allow-Headers'' = [''Authorization, Content-Type''] \<and>
            header_values (sent q') ''Access-Control-Max-Age'' = [''600'']
          else status q' = Some 403 \<and>
            (\<forall>k \<in> permission_fields. header_values (sent q') k = header_values (live q) k)))) \<and>
    (request_origin r \<in> set origins \<longrightarrow> \<not> Contains (request_origin r) ''*'')"
proof -
  have h: "h = cors_handler uni (set origins) next" and ok: "list_all (explicit_origin url_parse) origins"
    using assms(1) by (auto simp: CORS_def split: if_splits)
  have wild: "request_origin r \<in> set origins \<longrightarrow> \<not> Contains (request_origin r) ''*''"
    using ok by (auto simp: list_all_iff explicit_origin_def split: option.splits)
  have absent: "request_origin r = [] \<longrightarrow>
      run (h r) q w = run (next r) (q\<lparr>live := header_add ''Vary'' ''Origin'' (live q)\<rparr>) w"
    unfolding h using cors_absent by blast
  have refused: "\<exists>q'. run (h r) q w = (Inr (), q', w) \<and> status q' = Some 403 \<and>
         (\<forall>k \<in> {''Access-Control-Allow-Origin'', ''Access-Control-Expose-Headers''} \<union> permission_fields.
            header_values (sent q') k = header_values (live q) k)"
    if "request_origin r \<noteq> []" "request_origin r \<notin> set origins"
    using cors_refuses [OF assms(2) that, of uni "next" w] unfolding h
    by (elim exE conjE) (intro exI conjI, assumption+, simp add: error_header_def)
  have allowed: "\<exists>hd. run (h r) q w = run (next r) (q\<lparr>live := hd\<rparr>) w \<and>
         header_values hd ''Access-Control-Allow-Origin'' = [request_origin r] \<and>
         header_values hd ''Access-Control-Expose-Headers'' = [''X-Request-ID, Retry-After, Location''] \<and>
         header_values hd ''Vary'' = header_values (live q) ''Vary'' @ [''Origin''] \<and>
         (\<forall>k. CanonicalHeaderKey k \<notin> {''Access-Control-Allow-Origin'', ''Access-Control-Expose-Headers'', ''Vary''} \<longrightarrow>
            header_values hd k = header_values (live q) k)"
    if "request_origin r \<noteq> []" "request_origin r \<in> set origins" "\<not> is_preflight r"
    unfolding h cors_allowed [OF that] by (rule exI [of _ "origin_header r (live q)"]) (simp add: origin_header_def)
  have preflight: "\<exists>q'. run (h r) q w = (Inr (), q', w) \<and>
         header_values (sent q') ''Access-Control-Allow-Origin'' = [request_origin r] \<and>
         header_values (sent q') ''Vary'' = header_values (live q) ''Vary'' @
           [''Origin'', ''Access-Control-Request-Method'', ''Access-Control-Request-Headers''] \<and>
         (if acceptable_preflight uni r
          then status q' = Some 204 \<and>
            header_values (sent q') ''Access-Control-Allow-Methods'' = [''GET, HEAD, POST, PUT, PATCH, DELETE, OPTIONS''] \<and>
            header_values (sent q') ''Access-Control-Allow-Headers'' = [''Authorization, Content-Type''] \<and>
            header_values (sent q') ''Access-Control-Max-Age'' = [''600'']
          else status q' = Some 403 \<and>
            (\<forall>k \<in> permission_fields. header_values (sent q') k = header_values (live q) k))"
    if "request_origin r \<noteq> []" "request_origin r \<in> set origins" "is_preflight r"
  proof -
    from cors_preflight [OF assms(2) that, of uni "next" w] obtain q' where q': "run (h r) q w = (Inr (), q', w)"
      "if acceptable_preflight uni r
       then status q' = Some 204 \<and> sent q' = sent_header (permitted_header (preflight_header r (live q)))
       else status q' = Some 403 \<and> sent q' = error_header (preflight_header r (live q))" unfolding h by blast
    then show ?thesis
      by (intro exI [of _ q'] conjI)
        (cases "acceptable_preflight uni r";
         simp add: sent_header_def permitted_header_def preflight_header_def origin_header_def error_header_def)+
  qed
  from wild absent refused allowed preflight show ?thesis by blast
qed

definition demo_url :: "string \<Rightarrow> url_parts option" where
  "demo_url s = Some \<lparr>u_scheme = ''https'', u_host = s, u_user = False, u_path = [], u_query = [], u_fragment = []\<rparr>"

definition origin_request :: request where
  "origin_request = demo_request\<lparr>r_header := [(''Origin'', [''https://evil''])]\<rparr>"

theorem CORS_gate_witness:
  "\<exists>h q'. CORS (map lower_char) demo_url [''https://a''] (\<lambda>r. Ret ()) = Inr h \<and>
     run (h origin_request) open_response demo_sys = (Inr (), q', demo_sys) \<and> status q' = Some 403"
proof -
  have origin: "request_origin origin_request = ''https://evil''"
    by (simp add: request_origin_def origin_request_def header_get_def header_values_def)
  let ?h = "cors_handler (map lower_char) (set [''https://a'']) (\<lambda>r. Ret ())"
  have h: "CORS (map lower_char) demo_url [''https://a''] (\<lambda>r. Ret ()) = Inr ?h"
    by (simp add: CORS_def explicit_origin_def demo_url_def)
  have "request_origin origin_request \<noteq> [] \<and> request_origin origin_request \<notin> set [''https://a'']" by (simp add: origin)
  with CORS_gate [OF h open_response_facts(1), of origin_request demo_sys] h show ?thesis by blast
qed

end
