(* ===== verification/Http_Timeout.thy ===== *)
theory Http_Timeout
  imports Http_Guard
begin

text \<open>
  Deadlines and routing: \<^verbatim>\<open>Timeout\<close> delivers a handler's response whole, a timeout response, or
  nothing; \<^verbatim>\<open>Router\<close> replaces generated routing failures; and the assembled \<^verbatim>\<open>stack\<close>.
\<close>

section \<open>The buffered handler\<close>

text \<open>A buffered handler does not touch the writer below, so it runs there unchanged.\<close>

lemma run_buffered:
  "\<exists>out t' w'. \<forall>q m. run (buffered p n t) q w = (Inr (out, t'), q, w') \<and>
     run (wrap (buffered p n t) m s) q w = (Inr (Inr (out, t'), s), q, w')"
proof (induction p arbitrary: n t w)
  case (Call op k)
  obtain r t1 where "tw_call op t = (r, t1)" by (cases "tw_call op t")
  then show ?case using Call [of "k r" "map_option (\<lambda>i. i - 1) n" t1 w] by simp
qed auto

lemma wrap_bind:
  "wrap (bind p f) m s =
     bind (wrap p m s) (\<lambda>(res, s'). case res of Inl v \<Rightarrow> Ret (Inl v, s') | Inr a \<Rightarrow> wrap (f a) m s')"
proof (induction p arbitrary: s)
  case (Call op k)
  then show ?case by (simp add: bind_assoc case_prod_beta')
qed simp_all

definition fix_type :: "int \<Rightarrow> header \<Rightarrow> header" where
  "fix_type st h =
     (let ct = header_get h ''Content-Type''
      in if st = 503 \<and> ct = [] \<or> ct = ''text/html; charset=utf-8''
         then header_set ''Content-Type'' ''application/json'' h else h)"

lemma run_json_write_header:
  "run (wrap (do_write_header st) (jsonTimeoutWriter head) ()) q w =
     (case base_write_header st (q\<lparr>live := fix_type st (live q)\<rparr>) of
        (Panicked v, q') \<Rightarrow> (Inr (Inl v, ()), q', w)
      | (_, q') \<Rightarrow> (Inr (Inr (), ()), q', w))"
  by (simp add: do_write_header_def run_bind run_seq run_get_header run_set_header fix_type_def Let_def pass_def
      split: prod.splits reply.splits)

lemma run_json_write:
  "run (wrap (do_write b) (jsonTimeoutWriter head) ()) q w =
     (if head then (Inr (Inr None, ()), q, w)
      else case base_write b q of
        (Failed e, q') \<Rightarrow> (Inr (Inr (Some e), ()), q', w)
      | (_, q') \<Rightarrow> (Inr (Inr None, ()), q', w))"
  by (auto simp: do_write_def pass_def base_write_not_panicked split: prod.splits reply.splits)

definition send_type :: "int \<Rightarrow> string \<Rightarrow> bool \<Rightarrow> resp \<Rightarrow> resp" where
  "send_type st text head q =
     (let q1 = snd (base_write_header st (q\<lparr>live := fix_type st (live q)\<rparr>))
      in if head then q1 else snd (base_write text q1))"

lemma write_header_valid: "\<not> invalid_code st \<Longrightarrow> \<exists>q1. base_write_header st q = (Done, q1)"
  by (simp add: base_write_header_def)

lemma run_send:
  assumes "\<not> invalid_code st"
  shows "run (wrap (seq (do_write_header st) (bind (do_write text) (\<lambda>_. Ret ()))) (jsonTimeoutWriter head) ()) q w =
    (Inr (Inr (), ()), send_type st text head q, w)"
proof -
  obtain q1 where q1: "base_write_header st (q\<lparr>live := fix_type st (live q)\<rparr>) = (Done, q1)"
    using write_header_valid [OF assms] by blast
  then show ?thesis
    by (auto simp: seq_def wrap_bind run_bind run_json_write_header run_json_write send_type_def Let_def
        base_write_not_panicked split: prod.splits reply.splits)
qed

lemma run_send_header:
  assumes "\<not> invalid_code st"
  shows "run (wrap (do_write_header st) (jsonTimeoutWriter head) ()) q w =
    (Inr (Inr (), ()), send_type st [] True q, w)"
proof -
  obtain q1 where "base_write_header st (q\<lparr>live := fix_type st (live q)\<rparr>) = (Done, q1)"
    using write_header_valid [OF assms] by blast
  then show ?thesis by (simp add: run_json_write_header send_type_def)
qed

lemma seq_assoc: "seq (seq a b) c = seq a (seq b c)"
  by (simp add: seq_def bind_assoc)

lemma run_wrap_seq:
  "run (wrap a m ()) q w = (Inr (Inr (), ()), q1, w1) \<Longrightarrow> run (wrap (seq a c) m ()) q w = run (wrap c m ()) q1 w1"
  by (simp add: seq_def wrap_bind run_bind)

lemma run_wrap_header:
  "run (wrap (seq (update_header u) c) m s) q w = run (wrap c m s) (q\<lparr>live := u (live q)\<rparr>) w"
  by (simp add: seq_def update_header_def)

text \<open>How the handler ended, the buffer it left, and the process after it.\<close>

definition buffer_outcome :: "handler \<Rightarrow> request \<Rightarrow> sys \<Rightarrow> unit outcome \<Rightarrow> tw \<Rightarrow> sys \<Rightarrow> bool" where
  "buffer_outcome next r w out t w1 \<longleftrightarrow>
     (\<forall>q. run (buffered (next r) (map_option fst (deadline w)) new_tw) q w = (Inr (out, t), q, w1))"

definition timed ::
  "request \<Rightarrow> sys \<Rightarrow> unit outcome \<Rightarrow> tw \<Rightarrow> sys \<Rightarrow> resp \<Rightarrow> (pval + unit) \<times> resp \<times> sys \<Rightarrow> bool" where
  "timed r w out t w1 q result \<longleftrightarrow>
     (let q0 = q\<lparr>live := header_set ''Cache-Control'' ''no-store'' (live q)\<rparr>; head = (Method r = ''HEAD'')
      in case out of
           Finished (Inl v) \<Rightarrow> result = (Inl v, q0, w1)
         | Finished (Inr _) \<Rightarrow>
             result = (Inr (), send_type (if tw_wrote t then tw_code t else 200) (tw_buf t) head
                                 (q0\<lparr>live := copy_header (tw_header t) (live q0)\<rparr>), w1)
         | Interrupted rest \<Rightarrow>
             result = (Inr (), if snd (the (deadline w)) then send_type 503 (timeout_text r) head q0
                               else send_type 503 [] True q0, w1))"

text \<open>A buffer never holds an invalid status: the call with it panics.\<close>

definition tw_ok :: "tw \<Rightarrow> bool" where
  "tw_ok t \<longleftrightarrow> (tw_wrote t \<longrightarrow> \<not> invalid_code (tw_code t))"

lemma tw_call_ok: "tw_ok t \<Longrightarrow> tw_call op t = (a, t') \<Longrightarrow> tw_ok t'"
  by (cases op) (auto simp: tw_ok_def tw_write_header_def invalid_code_def Let_def split: option.splits if_splits)

lemma buffered_ok:
  "tw_ok t \<Longrightarrow> run (buffered p n t) q w = (Inr (out, t'), q', w') \<Longrightarrow> tw_ok t'"
proof (induction p arbitrary: n t q w)
  case (Call op k)
  obtain a t1 where c: "tw_call op t = (a, t1)" by (cases "tw_call op t")
  from Call.prems(2) show ?case
    using Call.IH [of "k a" t1 "map_option (\<lambda>i. i - 1) n" q w] tw_call_ok [OF Call.prems(1) c] Call.prems(1) c
    by (auto split: if_splits)
next
  case (Hdr u k)
  from Hdr.prems(2) show ?case
    using Hdr.IH [of "k (tw_header t)" "t\<lparr>tw_header := u (tw_header t)\<rparr>" "map_option (\<lambda>i. i - 1) n" q w] Hdr.prems(1)
    by (auto simp: tw_ok_def split: if_splits)
next
  case (Sys u k)
  from Sys.prems(2) show ?case
    using Sys.IH [of "k w" t "map_option (\<lambda>i. i - 1) n" q "u w"] Sys.prems(1) by (auto split: if_splits)
qed (auto split: if_splits)

lemma buffer_outcome_ok: "buffer_outcome next r w out t w1 \<Longrightarrow> \<not> invalid_code (if tw_wrote t then tw_code t else 200)"
proof -
  assume b: "buffer_outcome next r w out t w1"
  have "tw_ok new_tw" by (simp add: tw_ok_def new_tw_def)
  from buffered_ok [OF this, of "next r"] b have "tw_ok t" unfolding buffer_outcome_def by blast
  then show ?thesis by (simp add: tw_ok_def invalid_code_def)
qed

lemma run_timeout_handler:
  "\<exists>out t w1. buffer_outcome next r w out t w1 \<and> (\<forall>q. timed r w out t w1 q (run (timeout_handler next r) q w))"
proof -
  let ?m = "jsonTimeoutWriter (Method r = ''HEAD'')"
  obtain out t w1 where b:
    "\<And>q m. run (buffered (next r) (map_option fst (deadline w)) new_tw) q w = (Inr (out, t), q, w1) \<and>
       run (wrap (buffered (next r) (map_option fst (deadline w)) new_tw) m ()) q w = (Inr (Inr (out, t), ()), q, w1)"
    using run_buffered [of "next r" "map_option fst (deadline w)" new_tw w "()"] by blast
  have o: "buffer_outcome next r w out t w1" using b by (simp add: buffer_outcome_def)
  note start = timeout_handler_def TimeoutHandler_def run_seq run_bind run_set_header
    wrap_bind [of "buffered _ _ _"] run_resume Let_def timed_def
  have "timed r w out t w1 q (run (timeout_handler next r) q w)" for q
  proof (cases out)
    case (Finished res)
    then show ?thesis
      using b run_send [OF buffer_outcome_ok [OF o], of "tw_buf t" "Method r = ''HEAD''"]
      by (cases res) (simp_all add: start run_wrap_header)
  next
    case (Interrupted rest)
    have ok: "\<not> invalid_code 503" by (simp add: invalid_code_def)
    have plain: "run (wrap (seq (do_write_header 503) (Ret ())) ?m ()) q w1 = (Inr (Inr (), ()), send_type 503 [] True q, w1)" for q
      by (subst run_wrap_seq [OF run_send_header [OF ok]]) simp
    show ?thesis
      using b run_send [OF ok, of "timeout_text r" "Method r = ''HEAD''"] plain Interrupted
      by (cases "snd (the (deadline w))") (simp_all add: start)
  qed
  with o show ?thesis by blast
qed

section \<open>Deadlines\<close>

text \<open>
  What delivering one response means, for a status, a text and a header map prepared for it: the
  status and the header of the response are those, and its body is the text or, when the connection
  or the declared length refuses it, empty. Two deviations are part of it: \<open>fix_type\<close>, which relabels
  \<^verbatim>\<open>text/html; charset=utf-8\<close> as JSON whatever the status; and an informational status (other than 101),
  which is sent as such and leaves the final status at 200.
\<close>

definition delivered :: "int \<Rightarrow> string \<Rightarrow> bool \<Rightarrow> header \<Rightarrow> resp \<Rightarrow> resp \<Rightarrow> bool" where
  "delivered st text head h q q' \<longleftrightarrow>
     (let hd = fix_type st h; final = (if st \<le> 199 \<and> st \<noteq> 101 then 200 else st) in
      (if st \<le> 199 \<and> st \<noteq> 101
       then informational q' = informational q @ [(st, hd)] \<and> status q' = (if head then None else Some 200)
       else informational q' = informational q \<and> status q' = Some st) \<and>
      (status q' \<noteq> None \<longrightarrow> sent q' = sent_header hd) \<and>
      (body q' = [] \<or> \<not> head \<and> body q' = text) \<and>
      (\<not> head \<and> body_allowed final \<and> declared_length hd \<in> {None, Some (int (length text))} \<and>
         io_failure q (io_count q) = None \<longrightarrow> body q' = text))"

lemma send_delivered:
  assumes "uncommitted q" "clean q" "head_request q \<longleftrightarrow> head" "\<not> invalid_code st"
  shows "delivered st text head h q (send_type st text head (q\<lparr>live := h\<rparr>))"
proof -
  have q: "status q = None" "\<not> hijacked q" "body q = []" "written q = 0"
    using assms(1,2) by (auto simp: uncommitted_def clean_def)
  show ?thesis
    using q assms(3,4)
    by (auto simp: delivered_def send_type_def Let_def base_write_header_def base_write_def implicit_header_def
        connection_io_def invalid_code_def split: option.splits)
qed

lemma send_empty_delivered:
  assumes "uncommitted q" "clean q" "200 \<le> st" "st \<le> 999"
  shows "delivered st [] head h q (send_type st [] True (q\<lparr>live := h\<rparr>))"
proof -
  have q: "status q = None" "\<not> hijacked q" "body q = []" "written q = 0"
    using assms(1,2) by (auto simp: uncommitted_def clean_def)
  then show ?thesis using assms(3,4)
    by (auto simp: delivered_def send_type_def Let_def base_write_header_def invalid_code_def)
qed



section \<open>Two responses the deadline writer distorts\<close>

text \<open>
  A handler under \<^verbatim>\<open>Timeout\<close> that redirects the way \<^verbatim>\<open>http.Redirect\<close> does, and one that sends an
  informational response and then panics inside the recovery.
\<close>

definition redirecting :: handler where
  "redirecting r =
     seq (set_header ''Location'' ''/a'') (seq (set_header ''Content-Type'' ''text/html; charset=utf-8'')
       (seq (do_write_header 301) (bind (do_write ''<a>'') (\<lambda>_. Ret ()))))"

definition early_hints :: handler where
  "early_hints r = seq (do_write_header 103) (Panic (PanicValue ''boom''))"

definition under_timeout :: "handler \<Rightarrow> resp" where
  "under_timeout h = fst (snd (run (timeout_handler h demo_request) open_response demo_sys))"

lemma redirect_labelled_json:
  "status (under_timeout redirecting) = Some 301 \<and> body (under_timeout redirecting) = ''<a>'' \<and>
   header_get (sent (under_timeout redirecting)) ''Content-Type'' = ''application/json''"
  by (simp add: under_timeout_def timeout_handler_def redirecting_def TimeoutHandler_def seq_def set_header_def
      update_header_def do_write_header_def do_write_def demo_sys_def new_tw_def tw_write_header_def invalid_code_def
      copy_header_def header_set_def header_del_def get_header_def pass_def header_get_def header_values_def
      open_response_def new_response_def base_write_header_def base_write_def implicit_header_def body_allowed_def
      declared_length_def sent_header_def connection_io_def resume_def demo_request_def Let_def)

lemma early_hints_panic_is_200:
  "status (under_timeout (recoverPanics early_hints)) = Some 200 \<and>
   body (under_timeout (recoverPanics early_hints)) =
     error_text demo_request 500 ErrInternal ''Internal server error'' []"
proof -
  have internal: "WriteError r (Some (CodeErr ErrInternal)) = write_json r 500 ErrInternal ''Internal server error'' []" for r
    by (simp add: WriteError_def classify_internal)
  show ?thesis
    by (simp add: under_timeout_def timeout_handler_def recoverPanics_def early_hints_def TimeoutHandler_def seq_def
        commit_WriteHeader_def log_panic_def log_event_def update_sys_def internal write_json_def clear_header_def
        update_header_def set_header_def do_write_header_def do_write_def demo_sys_def new_tw_def tw_write_header_def
        invalid_code_def copy_header_def header_set_def header_del_def get_header_def pass_def header_get_def
        header_values_def open_response_def new_response_def base_write_header_def base_write_def implicit_header_def
        body_allowed_def declared_length_def sent_header_def connection_io_def resume_def demo_request_def Let_def
        error_text_def)
qed

section \<open>Routing failures\<close>

text \<open>A response \<^verbatim>\<open>ServeMux\<close> generates: header fields, a status and a text.\<close>

definition generated :: "(header \<Rightarrow> header) \<Rightarrow> int \<Rightarrow> string \<Rightarrow> handler" where
  "generated u st text r = seq (update_header u) (seq (do_write_header st) (bind (do_write text) (\<lambda>_. Ret ())))"

lemma run_attempt: "run (attempt p) q w = (case run p q w of (res, q', w') \<Rightarrow> (Inr res, q', w'))"
proof -
  have "run (wrap p (\<lambda>s op. pass op s) ()) q w = (case run p q w of (res, q', w') \<Rightarrow> (Inr (res, ()), q', w'))"
    by (induction p arbitrary: q w) (auto simp: pass_def split: prod.splits)
  then show ?thesis by (simp add: attempt_def run_bind split: prod.splits)
qed

lemma run_respond_with:
  "run p q w = (Inr (), q', w') \<Longrightarrow> run (respond_with p) q w = (Inr (Done, True), q', w')"
  by (simp add: respond_with_def run_bind run_attempt)

text \<open>
  C20. A routing failure that \<^verbatim>\<open>ServeMux\<close> generates, not found or method not allowed, is answered with
  the JSON envelope instead of the generated text, keeping header fields such as \<^verbatim>\<open>Allow\<close>; a
  generated redirect passes through unchanged.
\<close>

theorem Router_maps_failures:
  assumes "mux r = (generated u st text, [])" and "uncommitted q" and "200 \<le> st" and "st \<le> 999"
  shows "run (Router_ServeHTTP mux r) q w =
    (if st = 404 then run (NotFound r) (q\<lparr>live := u (live q)\<rparr>) w
     else if st = 405 then run (MethodNotAllowed r) (q\<lparr>live := u (live q)\<rparr>) w
     else run (generated u st text r) q w)"
proof -
  let ?q = "q\<lparr>live := u (live q)\<rparr>"
  have un: "uncommitted ?q" using assms(2) by (simp add: uncommitted_def)
  show ?thesis
  proof (cases "st = 404 \<or> st = 405")
    case True
    obtain q' where nf: "run (NotFound r) ?q w = (Inr (), q', w)"
      using run_write_json [OF un, of 404 r] unfolding NotFound_def by auto
    obtain q'' where ma: "run (MethodNotAllowed r) ?q w = (Inr (), q'', w)"
      using run_write_json [OF un, of 405 r] unfolding MethodNotAllowed_def by auto
    show ?thesis
      using True assms(1) nf ma run_respond_with [OF nf] run_respond_with [OF ma]
      by (auto simp: Router_ServeHTTP_def generated_def run_bind run_wrap_header do_write_header_def do_write_def
          seq_def update_header_def resume_def)
  next
    case False
    then have "\<not> invalid_code st" using assms(3,4) by (simp add: invalid_code_def)
    then obtain q1 where "base_write_header st ?q = (Done, q1)" using write_header_valid by blast
    with False assms(1) show ?thesis
      by (auto simp: Router_ServeHTTP_def generated_def run_bind do_write_header_def do_write_def seq_def
          update_header_def resume_def pass_def base_write_not_panicked split: prod.splits reply.splits)
  qed
qed

theorem Router_maps_failures_witness:
  "run (Router_ServeHTTP (\<lambda>r. (generated (header_set ''Allow'' ''GET'') 405 ''x'', [])) demo_request) open_response demo_sys =
   run (MethodNotAllowed demo_request) (open_response\<lparr>live := header_set ''Allow'' ''GET'' []\<rparr>) demo_sys"
  using Router_maps_failures [of "\<lambda>r. (generated (header_set ''Allow'' ''GET'') 405 ''x'', [])" demo_request
      "header_set ''Allow'' ''GET''" 405 "''x''" open_response demo_sys, OF refl open_response_facts(1)]
  by (simp add: open_response_def new_response_def)

section \<open>The assembled stack\<close>

definition contained :: "pval + unit \<Rightarrow> bool" where
  "contained res \<longleftrightarrow> res = Inr () \<or> res = Inl ErrAbortHandler"

lemma recoverPanics_contained:
  assumes "uncommitted q" shows "contained (fst (run (recoverPanics next r) q w))"
proof -
  obtain res q1 w1 where run: "run (next r) q w = (res, q1, w1)" by (metis prod_cases3)
  show ?thesis
  proof (cases "\<exists>v. res = Inl (PanicValue v) \<and> uncommitted q1")
    case True
    then have "uncommitted (q1\<lparr>live := clear_header (live q1)\<rparr>)" by (simp add: uncommitted_def)
    from run_WriteError [OF this classify_internal] show ?thesis
      using True run_recoverPanics [of q "next" r w, OF assms run] by (auto simp: contained_def)
  next
    case False
    then show ?thesis
      using run_recoverPanics [of q "next" r w, OF assms run]
      by (cases res; cases "projl res") (auto simp: contained_def)
  qed
qed

lemma Access_contained:
  assumes "uncommitted q" "h = recoverPanics c \<or> h = Metrics_Wrap (recoverPanics c)"
  shows "contained (fst (run (Access h r) q w))"
  using assms(2) by (auto simp: access_layer.same_result metrics_layer.same_result recoverPanics_contained assms(1))

lemma Access_last:
  "uncommitted q \<Longrightarrow> \<exists>e pre. logs (snd (snd (run (Access h r) q w))) = pre @ [e] \<and> log_ctx e = ctx r \<and> log_msg e = ''HTTP request completed''"
  using access_layer.own_entries [of q r h w] by (auto simp: completion_def)

section \<open>The remainder of an interrupted handler\<close>

text \<open>
  A program whose panics, whatever its writer and the process answer, satisfy a predicate. A writer
  panics only on an invalid status.
\<close>

definition possible :: "op \<Rightarrow> reply \<Rightarrow> bool" where
  "possible op a \<longleftrightarrow> ((\<exists>v. a = Panicked v) \<longrightarrow> (\<exists>code. op = WriteHeader code \<and> invalid_code code))"

primrec panics_only :: "(pval \<Rightarrow> bool) \<Rightarrow> 'a prog \<Rightarrow> bool" where
  "panics_only P (Ret a) = True"
| "panics_only P (Panic v) = P v"
| "panics_only P (Call op k) = (\<forall>a. possible op a \<longrightarrow> panics_only P (k a))"
| "panics_only P (Hdr u k) = (\<forall>h. panics_only P (k h))"
| "panics_only P (Sys u k) = (\<forall>w. panics_only P (k w))"

lemma panics_only_bind: "panics_only P p \<Longrightarrow> (\<And>a. panics_only P (f a)) \<Longrightarrow> panics_only P (bind p f)"
  by (induction p) auto

lemma panics_only_wrap:
  assumes "\<And>s op. panics_only P (m s op)"
  shows "panics_only P (wrap p m s)"
  by (induction p arbitrary: s) (auto simp: assms split: prod.split intro!: panics_only_bind)

lemma panics_only_commit: "panics_only P (commitWriter c op)"
  by (cases op) (auto simp: commit_WriteHeader_def then_pass_def pass_def split: reply.split)

lemma panics_only_seq: "panics_only P p \<Longrightarrow> panics_only P p' \<Longrightarrow> panics_only P (seq p p')"
  by (auto simp: seq_def intro: panics_only_bind)

lemma panics_only_statements [simp]:
  "panics_only P (update_header u)" "panics_only P (set_header k v)" "panics_only P (do_write b)"
  "\<not> invalid_code st \<Longrightarrow> panics_only P (do_write_header st)" "panics_only P (log_panic r)"
  by (auto simp: update_header_def set_header_def do_write_def do_write_header_def possible_def log_panic_def log_event_def
      update_sys_def split: reply.split)

lemma panics_only_recoverPanics: "panics_only (\<lambda>v. v = ErrAbortHandler) (recoverPanics next r)"
proof -
  have "panics_only (\<lambda>v. v = ErrAbortHandler) (WriteError r (Some (CodeErr ErrInternal)))"
    by (auto simp: WriteError_def classify_internal write_json_def invalid_code_def intro!: panics_only_seq panics_only_bind)
  then show ?thesis
    by (auto simp: recoverPanics_def intro!: panics_only_bind panics_only_wrap panics_only_commit panics_only_seq split: sum.split)
qed

lemma tw_call_possible: "tw_call op t = (a, t') \<Longrightarrow> possible op a"
  by (cases op) (auto simp: possible_def tw_write_header_def Let_def split: option.splits if_splits)

lemma buffered_panics_only:
  assumes "panics_only P p" and "run (buffered p n t) q w = (Inr (out, t'), q', w')"
  shows "case out of Finished (Inl v) \<Rightarrow> P v | Finished (Inr _) \<Rightarrow> True | Interrupted rest \<Rightarrow> panics_only P rest"
  using assms
proof (induction p arbitrary: n t q w)
  case (Call op k)
  obtain a t1 where c: "tw_call op t = (a, t1)" by (cases "tw_call op t")
  from Call.prems show ?case
    using Call.IH [of "k a" "map_option (\<lambda>i. i - 1) n" t1 q w] tw_call_possible [OF c] c
    by (auto split: if_splits)
next
  case (Hdr u k)
  from Hdr.prems show ?case
    using Hdr.IH [of "k (tw_header t)"] by (auto split: if_splits)
next
  case (Sys u k)
  from Sys.prems show ?case
    using Sys.IH [of "k w"] by (auto split: if_splits)
qed (auto split: if_splits)

lemma buffered_finishes: "run (buffered p None t) q w = (Inr (out, t'), q', w') \<Longrightarrow> \<exists>o1. out = Finished o1"
proof (induction p arbitrary: t q w)
  case (Call op k)
  obtain a t1 where c: "tw_call op t = (a, t1)" by (cases "tw_call op t")
  with Call.prems Call.IH [OF rangeI] show ?case by auto
next
  case (Hdr u k)
  from Hdr.prems Hdr.IH [OF rangeI] show ?case by auto
next
  case (Sys u k)
  from Sys.prems Sys.IH [OF rangeI] show ?case by auto
qed auto

text \<open>
  Left to its goroutine, the remainder of a recovered handler ends, leaves the response alone, and
  panics at most with \<^verbatim>\<open>http.ErrAbortHandler\<close>.
\<close>

lemma abandoned_contained:
  assumes "buffer_outcome (recoverPanics next) r w (Interrupted rest) t w1"
  shows "\<exists>o1 t' w'. run (abandoned e rest t) q w2 = (Inr (Finished o1, t'), q, w') \<and> contained o1"
proof -
  from assms have "run (buffered (recoverPanics next r) (map_option fst (deadline w)) new_tw) q w = (Inr (Interrupted rest, t), q, w1)"
    by (simp add: buffer_outcome_def)
  from buffered_panics_only [OF panics_only_recoverPanics this] have p: "panics_only (\<lambda>v. v = ErrAbortHandler) rest" by simp
  obtain out t' w' where r: "run (buffered rest None (t\<lparr>tw_err := Some e\<rparr>)) q w2 = (Inr (out, t'), q, w')"
    using run_buffered [of rest None "t\<lparr>tw_err := Some e\<rparr>" w2 "()"] by blast
  from buffered_finishes [OF r] obtain o1 where o: "out = Finished o1" ..
  from buffered_panics_only [OF p r] have "contained o1" by (cases o1) (auto simp: o contained_def)
  with r o show ?thesis by (auto simp: abandoned_def)
qed


definition demo_options :: middleware_options where
  "demo_options = \<lparr>mo_origins = [], mo_timeout = 1, mo_rate = 1, mo_burst = 1, mo_tracing = Some HTTPTracing, mo_metrics = True\<rparr>"


end
