(* ===== verification/Path_Match.thy ===== *)
theory Path_Match
  imports Go_Prelude
begin

text \<open>
  Go's \<^verbatim>\<open>path.Match\<close>, which the dependency checker (\<^verbatim>\<open>src/tools/dependencycheck\<close>) applies to the
  patterns of its policy, and its meaning. The matcher works on chunks between stars and commits
  to the first position at which a chunk fits; the reference definition \<open>glob\<close> says what a
  pattern means without an algorithm. The theory shows that both agree on the patterns without
  character classes, escapes and question marks, which are the patterns of the policy, and that
  such a pattern matches segment by segment.
\<close>

section \<open>Runes\<close>

text \<open>
  \<^verbatim>\<open>utf8.DecodeRuneInString\<close>: the rune at the head of a byte string and its width; a byte that
  starts no valid encoding is the error rune of width 1.
\<close>

definition RuneError :: nat where
  "RuneError = 0xFFFD"

abbreviation byte_between :: "nat \<Rightarrow> nat \<Rightarrow> char \<Rightarrow> bool" where
  "byte_between lo hi c \<equiv> lo \<le> of_char c \<and> of_char c \<le> hi"

definition second_low :: "nat \<Rightarrow> nat" where
  "second_low b = (if b = 0xE0 then 0xA0 else if b = 0xF0 then 0x90 else 0x80)"

definition second_high :: "nat \<Rightarrow> nat" where
  "second_high b = (if b = 0xED then 0x9F else if b = 0xF4 then 0x8F else 0xBF)"

definition DecodeRune :: "bytes \<Rightarrow> nat \<times> nat" where
  "DecodeRune s =
     (case s of
        [] \<Rightarrow> (RuneError, 0)
      | c0 # t \<Rightarrow>
          let b0 = of_char c0 :: nat in
          if b0 < 0x80 then (b0, 1)
          else (case t of
              [] \<Rightarrow> (RuneError, 1)
            | c1 # t1 \<Rightarrow>
                if \<not> byte_between (second_low b0) (second_high b0) c1 then (RuneError, 1)
                else if 0xC2 \<le> b0 \<and> b0 \<le> 0xDF then ((b0 - 0xC0) * 64 + (of_char c1 - 0x80), 2)
                else (case t1 of
                    [] \<Rightarrow> (RuneError, 1)
                  | c2 # t2 \<Rightarrow>
                      if \<not> byte_between 0x80 0xBF c2 then (RuneError, 1)
                      else if 0xE0 \<le> b0 \<and> b0 \<le> 0xEF
                        then ((b0 - 0xE0) * 4096 + (of_char c1 - 0x80) * 64 + (of_char c2 - 0x80), 3)
                      else (case t2 of
                          [] \<Rightarrow> (RuneError, 1)
                        | c3 # _ \<Rightarrow>
                            if \<not> byte_between 0x80 0xBF c3 \<or> b0 < 0xF0 \<or> 0xF4 < b0 then (RuneError, 1)
                            else ((b0 - 0xF0) * 262144 + (of_char c1 - 0x80) * 4096
                                  + (of_char c2 - 0x80) * 64 + (of_char c3 - 0x80), 4)))))"

lemma DecodeRune_width: "s \<noteq> [] \<Longrightarrow> 0 < snd (DecodeRune s)"
  by (cases s) (auto simp: DecodeRune_def Let_def split: list.splits)

section \<open>The matcher\<close>

text \<open>
  \<^verbatim>\<open>getEsc\<close>: one, possibly escaped, character of a class. \<open>None\<close> is \<^verbatim>\<open>ErrBadPattern\<close>.
\<close>

definition getEsc :: "bytes \<Rightarrow> (nat \<times> bytes) option" where
  "getEsc chunk =
     (if chunk = [] \<or> hd chunk = CHR ''-'' \<or> hd chunk = CHR '']'' then None
      else let body = (if hd chunk = CHR 0x5C then tl chunk else chunk) in
        if body = [] then None
        else (case DecodeRune body of (r, n) \<Rightarrow>
          if r = RuneError \<and> n = 1 \<or> drop n body = [] then None else Some (r, drop n body)))"

lemma getEsc_shorter: "getEsc chunk = Some (r, rest) \<Longrightarrow> length rest < length chunk"
  using DecodeRune_width [of chunk] DecodeRune_width [of "tl chunk"]
  by (cases chunk) (auto simp: getEsc_def Let_def split: if_splits prod.splits)

text \<open>
  The ranges of a class: \<open>seen\<close> counts the ranges read, \<open>m\<close> says whether one of them holds the
  rune. The result is the rest of the chunk behind the closing bracket.
\<close>

function class_ranges :: "nat \<Rightarrow> nat \<Rightarrow> bool \<Rightarrow> bytes \<Rightarrow> (bool \<times> bytes) option" where
  "class_ranges r seen m chunk =
     (if chunk \<noteq> [] \<and> hd chunk = CHR '']'' \<and> 0 < seen then Some (m, tl chunk)
      else (case getEsc chunk of
          None \<Rightarrow> None
        | Some (lo, c1) \<Rightarrow>
            if hd c1 = CHR ''-''
            then (case getEsc (tl c1) of
                None \<Rightarrow> None
              | Some (hi, c2) \<Rightarrow> class_ranges r (Suc seen) (m \<or> lo \<le> r \<and> r \<le> hi) c2)
            else class_ranges r (Suc seen) (m \<or> lo = r) c1))"
  by pat_completeness auto
termination
  by (relation "measure (\<lambda>(r, seen, m, chunk). length chunk)")
    (auto dest!: getEsc_shorter)

declare class_ranges.simps [simp del]

lemma class_ranges_shorter:
  "class_ranges r seen m chunk = Some (m', rest) \<Longrightarrow> length rest < length chunk"
proof (induction r seen m chunk rule: class_ranges.induct)
  case (1 r seen m chunk)
  show ?case
  proof (cases "chunk \<noteq> [] \<and> hd chunk = CHR '']'' \<and> 0 < seen")
    case True
    with 1(3) show ?thesis by (subst (asm) class_ranges.simps) auto
  next
    case False
    with 1(3) obtain lo c1 where lo: "getEsc chunk = Some (lo, c1)"
      by (subst (asm) class_ranges.simps) (auto split: if_splits option.splits)
    show ?thesis
    proof (cases "hd c1 = CHR ''-''")
      case True
      with 1(3) False lo obtain hi c2 where hi: "getEsc (tl c1) = Some (hi, c2)"
        "class_ranges r (Suc seen) (m \<or> lo \<le> r \<and> r \<le> hi) c2 = Some (m', rest)"
        by (subst (asm) class_ranges.simps) (auto split: if_splits option.splits)
      from 1(1) [OF False lo refl True hi(1) refl hi(2)] getEsc_shorter [OF lo] getEsc_shorter [OF hi(1)]
      show ?thesis by simp
    next
      case notdash: False
      with 1(3) False lo have "class_ranges r (Suc seen) (m \<or> lo = r) c1 = Some (m', rest)"
        by (subst (asm) class_ranges.simps) (auto split: if_splits)
      from 1(2) [OF False lo refl notdash this] getEsc_shorter [OF lo] show ?thesis by simp
    qed
  qed
qed

text \<open>
  \<^verbatim>\<open>matchChunk\<close>: the outer option is \<open>None\<close> for a malformed pattern, the inner one is \<open>None\<close> when the
  chunk does not fit. \<open>s\<close> is \<open>None\<close> once the match has failed: the loop then only checks the rest
  of the pattern.
\<close>

definition unread :: "bytes option \<Rightarrow> bytes option" where
  "unread s = (if s = Some [] then None else s)"

function match_loop :: "bytes \<Rightarrow> bytes option \<Rightarrow> bytes option option" where
  "match_loop chunk s0 =
     (if chunk = [] then Some s0
      else let s = unread s0 in
        if hd chunk = CHR ''['' then
          let r = (case s of None \<Rightarrow> 0 | Some t \<Rightarrow> fst (DecodeRune t));
              s' = map_option (\<lambda>t. drop (snd (DecodeRune t)) t) s;
              neg = (tl chunk \<noteq> [] \<and> hd (tl chunk) = CHR ''^'')
          in (case class_ranges r 0 False (if neg then tl (tl chunk) else tl chunk) of
                None \<Rightarrow> None
              | Some (m, rest) \<Rightarrow> match_loop rest (if m = neg then None else s'))
        else if hd chunk = CHR ''?'' then
          match_loop (tl chunk)
            (case s of None \<Rightarrow> None
             | Some t \<Rightarrow> if hd t = CHR ''/'' then None else Some (drop (snd (DecodeRune t)) t))
        else
          let c = (if hd chunk = CHR 0x5C then tl chunk else chunk) in
          if c = [] then None
          else match_loop (tl c)
            (case s of None \<Rightarrow> None | Some t \<Rightarrow> if hd c \<noteq> hd t then None else Some (tl t)))"
  by pat_completeness auto
termination
proof (relation "measure (\<lambda>(chunk, s). length chunk)", goal_cases)
  case (2 chunk s0 s r s' neg x2 m rest)
  then show ?case
    using class_ranges_shorter [of r 0 False _ m rest] by (cases chunk) (auto split: if_splits, fastforce+)
qed (auto split: if_splits simp: neq_Nil_conv)

declare match_loop.simps [simp del]

definition matchChunk :: "bytes \<Rightarrow> bytes \<Rightarrow> bytes option option" where
  "matchChunk chunk s = match_loop chunk (Some s)"

text \<open>\<^verbatim>\<open>scanChunk\<close>: leading stars, then everything up to the next star outside a class.\<close>

fun scan_to_star :: "bool \<Rightarrow> bytes \<Rightarrow> bytes \<times> bytes" where
  "scan_to_star inrange [] = ([], [])"
| "scan_to_star inrange (c # p) =
     (if c = CHR 0x5C then
        (case p of [] \<Rightarrow> ([c], [])
         | d # q \<Rightarrow> (case scan_to_star inrange q of (a, b) \<Rightarrow> (c # d # a, b)))
      else if c = CHR ''*'' \<and> \<not> inrange then ([], c # p)
      else (case scan_to_star (if c = CHR ''['' then True else if c = CHR '']'' then False else inrange) p of
              (a, b) \<Rightarrow> (c # a, b)))"

definition scanChunk :: "bytes \<Rightarrow> bool \<times> bytes \<times> bytes" where
  "scanChunk pattern =
     (pattern \<noteq> [] \<and> hd pattern = CHR ''*'',
      scan_to_star False (dropWhile (\<lambda>c. c = CHR ''*'') pattern))"

lemma scan_to_star_append: "scan_to_star b p = (x, y) \<Longrightarrow> p = x @ y"
  by (induction b p arbitrary: x y rule: scan_to_star.induct) (auto split: if_splits list.splits prod.splits)

lemma scanChunk_rest_le:
  assumes "scanChunk p = (star, chunk, rest)" shows "length rest \<le> length p"
proof -
  have "dropWhile (\<lambda>c. c = CHR ''*'') p = chunk @ rest"
    using assms by (auto simp: scanChunk_def intro: scan_to_star_append)
  then have "length chunk + length rest \<le> length p"
    using length_dropWhile_le [of "\<lambda>c. c = CHR ''*''" p] by simp
  then show ?thesis by simp
qed

lemma scanChunk_shorter:
  assumes "scanChunk p = (star, chunk, rest)" "p \<noteq> []" shows "length rest < length p"
proof (cases "hd p = CHR ''*''")
  case True
  then have "length (dropWhile (\<lambda>c. c = CHR ''*'') p) < length p"
    using assms(2) length_dropWhile_le [of "\<lambda>c. c = CHR ''*''" "tl p"] by (cases p) auto
  moreover have "length rest \<le> length (dropWhile (\<lambda>c. c = CHR ''*'') p)"
    using assms(1) scan_to_star_append [of False "dropWhile (\<lambda>c. c = CHR ''*'') p" chunk rest]
    by (simp add: scanChunk_def)
  ultimately show ?thesis by simp
next
  case False
  with assms(2) obtain c q where p: "p = c # q" "c \<noteq> CHR ''*''" by (cases p) auto
  have "scan_to_star False p = (chunk, rest)" using assms(1) p by (simp add: scanChunk_def)
  then have "chunk \<noteq> [] \<and> p = chunk @ rest"
    using p scan_to_star_append [of False p chunk rest] by (auto split: if_splits list.splits prod.splits)
  then show ?thesis by auto
qed

text \<open>The search for a later position behind a star, which cannot skip a slash.\<close>

fun try_skips :: "bytes \<Rightarrow> bool \<Rightarrow> bytes \<Rightarrow> bytes option option" where
  "try_skips chunk final [] = Some None"
| "try_skips chunk final (c # name) =
     (if c = CHR ''/'' then Some None
      else (case matchChunk chunk name of
          None \<Rightarrow> None
        | Some (Some t) \<Rightarrow> if final \<and> t \<noteq> [] then try_skips chunk final name else Some (Some t)
        | Some None \<Rightarrow> try_skips chunk final name))"

text \<open>The syntax check of the rest of a pattern that did not match.\<close>

function well_formed_rest :: "bytes \<Rightarrow> bool" where
  "well_formed_rest pattern =
     (if pattern = [] then True
      else (case scanChunk pattern of (star, chunk, rest) \<Rightarrow> matchChunk chunk [] \<noteq> None \<and> well_formed_rest rest))"
  by pat_completeness auto
termination
  by (relation "measure length") (fastforce dest: scanChunk_shorter [OF sym])+

declare well_formed_rest.simps [simp del]

text \<open>\<^verbatim>\<open>path.Match(pattern, name)\<close>; \<open>None\<close> is \<^verbatim>\<open>ErrBadPattern\<close>.\<close>

function Match :: "bytes \<Rightarrow> bytes \<Rightarrow> bool option" where
  "Match pattern name =
     (if pattern = [] then Some (name = [])
      else (case scanChunk pattern of (star, chunk, rest) \<Rightarrow>
        if star \<and> chunk = [] then Some (CHR ''/'' \<notin> set name)
        else (case matchChunk chunk name of
            None \<Rightarrow> None
          | Some here \<Rightarrow>
              if here \<noteq> None \<and> (the here = [] \<or> rest \<noteq> []) then Match rest (the here)
              else (case (if star then try_skips chunk (rest = []) name else Some None) of
                  None \<Rightarrow> None
                | Some (Some t) \<Rightarrow> Match rest t
                | Some None \<Rightarrow> if well_formed_rest rest then Some False else None))))"
  by pat_completeness auto
termination
  by (relation "measure (\<lambda>(pattern, name). length pattern)") (fastforce dest: scanChunk_shorter [OF sym])+

declare Match.simps [simp del]

section \<open>What a pattern means\<close>

text \<open>
  The reference for patterns made of literal bytes and stars: a star stands for any run of bytes
  without a slash.
\<close>

fun glob :: "bytes \<Rightarrow> bytes \<Rightarrow> bool" where
  "glob [] s = (s = [])"
| "glob (c # p) s =
     (if c = CHR ''*'' then glob p s \<or> (case s of [] \<Rightarrow> False | x # t \<Rightarrow> x \<noteq> CHR ''/'' \<and> glob (c # p) t)
      else (case s of [] \<Rightarrow> False | x # t \<Rightarrow> x = c \<and> glob p t))"

definition plain :: "bytes \<Rightarrow> bool" where
  "plain p = list_all (\<lambda>c. c \<notin> set [CHR ''['', CHR ''?'', CHR 0x5C]) p"

lemma plain_simps [simp]:
  "plain []" "plain (c # p) \<longleftrightarrow> c \<noteq> CHR ''['' \<and> c \<noteq> CHR ''?'' \<and> c \<noteq> CHR 0x5C \<and> plain p"
  "plain (p @ q) \<longleftrightarrow> plain p \<and> plain q"
  by (auto simp: plain_def)

declare glob.simps [simp del]

lemma glob_code [simp, code]:
  "glob [] s \<longleftrightarrow> s = []"
  "glob (c # p) [] \<longleftrightarrow> c = CHR ''*'' \<and> glob p []"
  "glob (c # p) (x # t) \<longleftrightarrow>
     (if c = CHR ''*'' then glob p (x # t) \<or> x \<noteq> CHR ''/'' \<and> glob (c # p) t else x = c \<and> glob p t)"
  by (simp_all add: glob.simps)

lemma slash_free_split:
  "(\<exists>a b. x # s = a @ b \<and> CHR ''/'' \<notin> set a \<and> P b) \<longleftrightarrow>
   P (x # s) \<or> x \<noteq> CHR ''/'' \<and> (\<exists>a b. s = a @ b \<and> CHR ''/'' \<notin> set a \<and> P b)" (is "?l \<longleftrightarrow> ?r")
proof
  assume ?l
  then obtain a b where ab: "x # s = a @ b" "CHR ''/'' \<notin> set a" "P b" by blast
  show ?r
  proof (cases a)
    case Nil
    with ab show ?thesis by simp
  next
    case (Cons y a')
    with ab have "x \<noteq> CHR ''/''" "s = a' @ b" "CHR ''/'' \<notin> set a'" by auto
    with ab(3) show ?thesis by blast
  qed
next
  assume ?r
  then show ?l
  proof
    assume "P (x # s)"
    then show ?l by (intro exI [of _ "[]"] exI [of _ "x # s"]) simp
  next
    assume "x \<noteq> CHR ''/'' \<and> (\<exists>a b. s = a @ b \<and> CHR ''/'' \<notin> set a \<and> P b)"
    then obtain a b where "x \<noteq> CHR ''/''" "s = a @ b" "CHR ''/'' \<notin> set a" "P b" by blast
    then show ?l by (intro exI [of _ "x # a"] exI [of _ b]) auto
  qed
qed

lemma glob_star: "glob (CHR ''*'' # p) s \<longleftrightarrow> (\<exists>a b. s = a @ b \<and> CHR ''/'' \<notin> set a \<and> glob p b)"
  by (induction s) (simp_all add: slash_free_split)

lemma glob_star_idem:
  assumes "glob (CHR ''*'' # p) t" "CHR ''/'' \<notin> set u" shows "glob (CHR ''*'' # p) (u @ t)"
proof -
  obtain a b where "t = a @ b" "CHR ''/'' \<notin> set a" "glob p b" using assms(1) by (auto simp: glob_star)
  then have "u @ t = (u @ a) @ b" "CHR ''/'' \<notin> set (u @ a)" using assms(2) by auto
  with \<open>glob p b\<close> show ?thesis unfolding glob_star by blast
qed

lemma glob_star_star: "glob (CHR ''*'' # CHR ''*'' # p) s \<longleftrightarrow> glob (CHR ''*'' # p) s"
  using glob_star [of "CHR ''*'' # p" s] glob_star_idem [of p] by (metis append_Nil empty_iff empty_set)

lemma glob_stars:
  "set stars \<subseteq> {CHR ''*''} \<Longrightarrow> glob (CHR ''*'' # stars @ p) s \<longleftrightarrow> glob (CHR ''*'' # p) s"
proof (induction stars arbitrary: s)
  case (Cons c stars)
  then have "c = CHR ''*''" by simp
  then have "glob (CHR ''*'' # (c # stars) @ p) s \<longleftrightarrow> glob (CHR ''*'' # stars @ p) s"
    using glob_star_star [of "stars @ p" s] by simp
  with Cons show ?case by simp
qed simp

lemma glob_literal: "CHR ''*'' \<notin> set a \<Longrightarrow> glob (a @ p) s \<longleftrightarrow> (\<exists>t. s = a @ t \<and> glob p t)"
proof (induction a arbitrary: s)
  case (Cons c a)
  then show ?case by (cases s) auto
qed simp

section \<open>The matcher follows the reference\<close>

lemma match_loop_plain:
  "plain chunk \<Longrightarrow> match_loop chunk s = Some (case s of None \<Rightarrow> None | Some t \<Rightarrow>
     if HasPrefix t chunk then Some (drop (length chunk) t) else None)"
proof (induction chunk arbitrary: s)
  case (Cons c chunk)
  show ?case
  proof (cases s)
    case None
    with Cons show ?thesis by (subst match_loop.simps) (simp add: unread_def)
  next
    case (Some t)
    with Cons show ?thesis by (cases t) (subst match_loop.simps, simp add: unread_def)+
  qed
qed (simp add: match_loop.simps split: option.splits)

lemma matchChunk_plain:
  "plain chunk \<Longrightarrow> matchChunk chunk s = Some (if HasPrefix s chunk then Some (drop (length chunk) s) else None)"
  by (simp add: matchChunk_def match_loop_plain)

lemma scan_to_star_plain:
  "plain p \<Longrightarrow> scan_to_star False p = (takeWhile (\<lambda>c. c \<noteq> CHR ''*'') p, dropWhile (\<lambda>c. c \<noteq> CHR ''*'') p)"
  by (induction p) auto

text \<open>A plain pattern falls into stars, a literal chunk and a rest that is empty or starts with a star.\<close>

lemma scanChunk_plain:
  assumes "plain p" "scanChunk p = (star, chunk, rest)"
  obtains stars where "p = stars @ chunk @ rest" "set stars \<subseteq> {CHR ''*''}" "star \<longleftrightarrow> stars \<noteq> []"
    "CHR ''*'' \<notin> set chunk" "plain chunk" "plain rest" "rest = [] \<or> hd rest = CHR ''*''"
    "chunk = [] \<longrightarrow> rest = []"
proof -
  define stars where "stars = takeWhile (\<lambda>c. c = CHR ''*'') p"
  define body where "body = dropWhile (\<lambda>c. c = CHR ''*'') p"
  have p: "p = stars @ body" by (simp add: stars_def body_def)
  with assms(1) have "plain body" by simp
  then have chunk: "chunk = takeWhile (\<lambda>c. c \<noteq> CHR ''*'') body" "rest = dropWhile (\<lambda>c. c \<noteq> CHR ''*'') body"
    using assms(2) by (auto simp: scanChunk_def body_def scan_to_star_plain)
  then have body: "body = chunk @ rest" by simp
  have "star \<longleftrightarrow> stars \<noteq> []"
    using assms(2) by (cases p) (auto simp: scanChunk_def stars_def)
  moreover have "set stars \<subseteq> {CHR ''*''}" by (auto simp: stars_def dest: set_takeWhileD)
  moreover have "CHR ''*'' \<notin> set chunk" by (auto simp: chunk dest: set_takeWhileD)
  moreover have "rest = [] \<or> hd rest = CHR ''*''"
    using hd_dropWhile [of "\<lambda>c. c \<noteq> CHR ''*''" body] by (auto simp: chunk)
  moreover have "chunk = [] \<longrightarrow> rest = []"
  proof
    assume "chunk = []"
    then have "body \<noteq> [] \<Longrightarrow> hd body = CHR ''*''" unfolding chunk by (cases body) (auto split: if_splits)
    moreover have "body \<noteq> [] \<Longrightarrow> hd body \<noteq> CHR ''*''" unfolding body_def by (rule hd_dropWhile)
    ultimately show "rest = []" using body by auto
  qed
  ultimately show ?thesis using that p body \<open>plain body\<close> by simp
qed

lemma well_formed_plain: "plain p \<Longrightarrow> well_formed_rest p"
proof (induction p rule: well_formed_rest.induct)
  case (1 p)
  show ?case
  proof (cases "p = []")
    case False
    obtain star chunk rest where sc: "scanChunk p = (star, chunk, rest)" by (metis prod_cases3)
    from scanChunk_plain [OF 1(2) sc] have "plain chunk" "plain rest" by blast+
    with 1(1) [OF False sc [symmetric]] sc show ?thesis
      by (subst well_formed_rest.simps) (simp add: matchChunk_plain)
  qed (simp add: well_formed_rest.simps)
qed

text \<open>
  Committing to the first position is enough: when a literal chunk fits at two positions that a
  star can reach, whatever the rest of the pattern matches behind the later one it also matches
  behind the earlier one.
\<close>

lemma earlier_position:
  assumes eq: "a @ chunk @ t = a' @ chunk @ t'" and "length a \<le> length a'" and "CHR ''/'' \<notin> set a'"
    and "glob rest t'" and "hd rest = CHR ''*''" "rest \<noteq> []"
  shows "glob rest t"
proof -
  obtain d where a': "a' = a @ d" and d: "chunk @ t = d @ chunk @ t'"
    using eq assms(2) by (metis append_assoc append_eq_append_conv_if append_take_drop_id same_append_eq)
  show ?thesis
  proof (cases "CHR ''/'' \<in> set chunk")
    case True
    then obtain c1 c2 where c: "chunk = c1 @ CHR ''/'' # c2" "CHR ''/'' \<notin> set c1"
      by (metis split_list_first)
    have nd: "CHR ''/'' \<notin> set (d @ c1)" using a' assms(3) c(2) by simp
    have "takeWhile (\<lambda>x. x \<noteq> CHR ''/'') (chunk @ t) = c1"
      using c by (simp add: takeWhile_append)
    moreover have "takeWhile (\<lambda>x. x \<noteq> CHR ''/'') ((d @ c1) @ CHR ''/'' # c2 @ t') = d @ c1"
      using nd by (subst takeWhile_append) auto
    ultimately have "d = []" using d c(1) by simp
    with d assms(4) show ?thesis by simp
  next
    case False
    have "length chunk \<le> length (d @ chunk)" by simp
    then obtain u where u: "d @ chunk = chunk @ u" "t = u @ t'"
      using d by (metis append_assoc append_eq_append_conv_if append_take_drop_id)
    then have "CHR ''/'' \<notin> set u" using False a' assms(3) by (metis Un_iff set_append)
    moreover obtain p where "rest = CHR ''*'' # p" using assms(5,6) by (cases rest) auto
    ultimately show ?thesis
      using assms(4) u(2) glob_star_idem by simp
  qed
qed

text \<open>A position behind a star at which a chunk fits; the last chunk must end the name.\<close>

definition fits :: "bytes \<Rightarrow> bool \<Rightarrow> bytes \<Rightarrow> bytes \<Rightarrow> bytes \<Rightarrow> bool" where
  "fits chunk final name a t \<longleftrightarrow> name = a @ chunk @ t \<and> CHR ''/'' \<notin> set a \<and> (final \<longrightarrow> t = [])"

lemma fits_Cons:
  "fits chunk final (c # name) a t \<and> a \<noteq> [] \<longleftrightarrow>
   c \<noteq> CHR ''/'' \<and> (\<exists>a'. a = c # a' \<and> fits chunk final name a' t)"
  by (cases a) (auto simp: fits_def)

lemma fits_here: "fits chunk final name [] t \<longleftrightarrow> HasPrefix name chunk \<and> t = drop (length chunk) name \<and> (final \<longrightarrow> t = [])"
  by (auto simp: fits_def HasPrefix_iff)

lemma try_skips_plain:
  assumes "plain chunk"
  shows "\<exists>r. try_skips chunk final name = Some r \<and>
    (case r of None \<Rightarrow> \<forall>a t. a \<noteq> [] \<longrightarrow> \<not> fits chunk final name a t
     | Some t \<Rightarrow> \<exists>a. a \<noteq> [] \<and> fits chunk final name a t \<and>
         (\<forall>a' t'. a' \<noteq> [] \<and> fits chunk final name a' t' \<longrightarrow> length a \<le> length a'))"
proof (induction name)
  case Nil
  then show ?case by (simp add: fits_def)
next
  case (Cons c name)
  note mc = matchChunk_plain [OF assms, of name]
  consider "c = CHR ''/''" | t where "c \<noteq> CHR ''/''" "fits chunk final name [] t"
    | "c \<noteq> CHR ''/''" "\<And>t. \<not> fits chunk final name [] t" by blast
  then show ?case
  proof cases
    case 1
    then show ?thesis using fits_Cons [of chunk final c name] by auto
  next
    case 2
    then have "try_skips chunk final (c # name) = Some (Some t)" by (auto simp: mc fits_here)
    moreover have "fits chunk final (c # name) [c] t" using 2 by (simp add: fits_def)
    moreover have "a' \<noteq> [] \<Longrightarrow> length [c] \<le> length a'" for a' :: bytes by (cases a') auto
    ultimately show ?thesis by (intro exI [of _ "Some t"]) (auto intro!: exI [of _ "[c]"])
  next
    case 3
    then have eq: "try_skips chunk final (c # name) = try_skips chunk final name" by (auto simp: mc fits_here)
    have shift: "fits chunk final (c # name) a t \<and> a \<noteq> [] \<longleftrightarrow> (\<exists>a'. a = c # a' \<and> a' \<noteq> [] \<and> fits chunk final name a' t)" for a t
      using 3 fits_Cons [of chunk final c name a t] by auto
    from Cons obtain r where r: "try_skips chunk final name = Some r"
      "case r of None \<Rightarrow> \<forall>a t. a \<noteq> [] \<longrightarrow> \<not> fits chunk final name a t
       | Some t \<Rightarrow> \<exists>a. a \<noteq> [] \<and> fits chunk final name a t \<and>
           (\<forall>a' t'. a' \<noteq> [] \<and> fits chunk final name a' t' \<longrightarrow> length a \<le> length a')" by blast
    show ?thesis
    proof (cases r)
      case None
      then show ?thesis using r eq shift by (auto simp del: try_skips.simps) blast
    next
      case (Some t)
      with r obtain a where a: "a \<noteq> []" "fits chunk final name a t"
        "\<And>a' t'. a' \<noteq> [] \<Longrightarrow> fits chunk final name a' t' \<Longrightarrow> length a \<le> length a'" by auto
      have "length (c # a) \<le> length a'" if "a' \<noteq> []" "fits chunk final (c # name) a' t'" for a' t'
        using shift [of a' t'] that a(3) by auto
      moreover have "fits chunk final (c # name) (c # a) t" using shift [of "c # a" t] a by auto
      ultimately show ?thesis
        using eq r(1) Some by (intro exI [of _ "Some t"]) (auto intro!: exI [of _ "c # a"])
    qed
  qed
qed

lemma glob_chunked:
  assumes "CHR ''*'' \<notin> set chunk" "set stars \<subseteq> {CHR ''*''}"
  shows "glob (stars @ chunk @ rest) name \<longleftrightarrow>
    (\<exists>a t. fits chunk (rest = []) name a t \<and> (a \<noteq> [] \<longrightarrow> stars \<noteq> []) \<and> glob rest t)"
proof (cases stars)
  case Nil
  then show ?thesis using glob_literal [OF assms(1)] by (auto simp: fits_def)
next
  case (Cons c cs)
  then have "glob (stars @ chunk @ rest) name \<longleftrightarrow> glob (CHR ''*'' # chunk @ rest) name"
    using glob_stars [of cs] assms(2) by auto
  also have "\<dots> \<longleftrightarrow> (\<exists>a b. name = a @ b \<and> CHR ''/'' \<notin> set a \<and> (\<exists>t. b = chunk @ t \<and> glob rest t))"
    by (simp only: glob_star glob_literal [OF assms(1)])
  also have "\<dots> \<longleftrightarrow> (\<exists>a t. fits chunk (rest = []) name a t \<and> glob rest t)"
    unfolding fits_def by (metis glob_code(1))
  finally show ?thesis using Cons by simp
qed

text \<open>The first fitting position decides.\<close>

lemma first_fit_decides:
  assumes "CHR ''*'' \<notin> set chunk" "set stars \<subseteq> {CHR ''*''}" "rest = [] \<or> hd rest = CHR ''*''"
    and "fits chunk (rest = []) name a t" "a \<noteq> [] \<longrightarrow> stars \<noteq> []"
    and "\<And>a' t'. fits chunk (rest = []) name a' t' \<Longrightarrow> length a \<le> length a'"
  shows "glob (stars @ chunk @ rest) name \<longleftrightarrow> glob rest t"
proof
  assume "glob (stars @ chunk @ rest) name"
  then obtain a' t' where f: "fits chunk (rest = []) name a' t'" "glob rest t'"
    unfolding glob_chunked [OF assms(1,2)] by blast
  show "glob rest t"
  proof (cases "rest = []")
    case False
    with f assms(3-5) assms(6) [OF f(1)] show ?thesis
      by (intro earlier_position [of a chunk t a' t']) (auto simp: fits_def)
  qed (use assms(4) in \<open>simp add: fits_def\<close>)
qed (use assms(4,5) glob_chunked [OF assms(1,2), of rest name] in blast)

lemma Match_plain: "plain p \<Longrightarrow> Match p name = Some (glob p name)"
proof (induction "length p" arbitrary: p name rule: less_induct)
  case (less p)
  show ?case
  proof (cases "p = []")
    case False
    obtain star chunk rest where sc: "scanChunk p = (star, chunk, rest)" by (metis prod_cases3)
    from scanChunk_plain [OF less(2) sc] obtain stars where
      p: "p = stars @ chunk @ rest" "set stars \<subseteq> {CHR ''*''}" "star \<longleftrightarrow> stars \<noteq> []"
      "CHR ''*'' \<notin> set chunk" "plain chunk" "plain rest" "rest = [] \<or> hd rest = CHR ''*''"
      "chunk = [] \<longrightarrow> rest = []" .
    have IH: "Match rest t = Some (glob rest t)" for t
      using less(1) [OF scanChunk_shorter [OF sc False] p(6)] .
    note chunked = glob_chunked [OF p(4,2), of rest name, folded p(1)]
    note decides = first_fit_decides [OF p(4,2,7), of name, folded p(1)]
    consider (only_star) "star" "chunk = []" | (here) t where "\<not> (star \<and> chunk = [])" "fits chunk (rest = []) name [] t"
      | (later) "\<not> (star \<and> chunk = [])" "\<And>t. \<not> fits chunk (rest = []) name [] t" by blast
    then show ?thesis
    proof cases
      case only_star
      then have "glob p name \<longleftrightarrow> CHR ''/'' \<notin> set name"
        using chunked p(3,8) by (auto simp: fits_def)
      then show ?thesis using False sc only_star by (subst Match.simps) simp
    next
      case here
      then have "Match p name = Match rest t"
        using False sc by (subst Match.simps) (auto simp: matchChunk_plain [OF p(5)] fits_here)
      moreover have "glob p name \<longleftrightarrow> glob rest t" using decides [OF here(2)] by simp
      ultimately show ?thesis using IH by simp
    next
      case later
      from try_skips_plain [OF p(5), of "rest = []" name] obtain r where
        r: "try_skips chunk (rest = []) name = Some r"
        "case r of None \<Rightarrow> \<forall>a t. a \<noteq> [] \<longrightarrow> \<not> fits chunk (rest = []) name a t
         | Some t \<Rightarrow> \<exists>a. a \<noteq> [] \<and> fits chunk (rest = []) name a t \<and>
             (\<forall>a' t'. a' \<noteq> [] \<and> fits chunk (rest = []) name a' t' \<longrightarrow> length a \<le> length a')" by blast
      have step: "Match p name = (case if star then Some r else Some None of
          None \<Rightarrow> None | Some (Some t) \<Rightarrow> Match rest t | Some None \<Rightarrow> Some False)"
        using False sc later r(1) well_formed_plain [OF p(6)]
        by (subst Match.simps) (auto simp: matchChunk_plain [OF p(5)] fits_here)
      show ?thesis
      proof (cases "star \<and> r \<noteq> None")
        case True
        then obtain t where t: "r = Some t" by auto
        with r(2) obtain a where a: "a \<noteq> []" "fits chunk (rest = []) name a t"
          "\<And>a' t'. a' \<noteq> [] \<and> fits chunk (rest = []) name a' t' \<Longrightarrow> length a \<le> length a'" by auto
        have "length a \<le> length a'" if "fits chunk (rest = []) name a' t'" for a' t'
          using a(3) [of a' t'] later(2) [of t'] that by (cases a') auto
        with decides [OF a(2)] True p(3) have "glob p name \<longleftrightarrow> glob rest t" by blast
        then show ?thesis using step True t IH by simp
      next
        case none: False
        then have "\<not> glob p name"
          using chunked p(3) later(2) r(2) by (cases r) (auto, metis+)
        then show ?thesis using step none by (cases r) auto
      qed
    qed
  qed (simp add: Match.simps)
qed

section \<open>Segments\<close>

lemma glob_slash_free: "CHR ''/'' \<notin> set p \<Longrightarrow> glob p s \<Longrightarrow> CHR ''/'' \<notin> set s"
proof (induction p s rule: glob.induct)
  case (2 c p s)
  then show ?case by (cases s) (auto split: if_splits)
qed simp

lemma glob_segment:
  assumes "CHR ''/'' \<notin> set a"
  shows "glob (a @ CHR ''/'' # p) s \<longleftrightarrow>
    (\<exists>b t. s = b @ CHR ''/'' # t \<and> CHR ''/'' \<notin> set b \<and> glob a b \<and> glob p t)"
  using assms
proof (induction a arbitrary: s)
  case Nil
  then show ?case by (cases s) (auto intro!: exI [of _ "[]"])
next
  case (Cons c a)
  then have IH: "glob (a @ CHR ''/'' # p) s \<longleftrightarrow>
    (\<exists>b t. s = b @ CHR ''/'' # t \<and> CHR ''/'' \<notin> set b \<and> glob a b \<and> glob p t)" for s by simp
  show ?case
  proof (cases "c = CHR ''*''")
    case True
    then have "glob ((c # a) @ CHR ''/'' # p) s \<longleftrightarrow>
      (\<exists>u v. s = u @ v \<and> CHR ''/'' \<notin> set u \<and> (\<exists>b t. v = b @ CHR ''/'' # t \<and> CHR ''/'' \<notin> set b \<and> glob a b \<and> glob p t))"
      using glob_star [of "a @ CHR ''/'' # p" s] IH by simp
    also have "\<dots> \<longleftrightarrow> (\<exists>b t. s = b @ CHR ''/'' # t \<and> CHR ''/'' \<notin> set b \<and>
        (\<exists>u v. b = u @ v \<and> CHR ''/'' \<notin> set u \<and> glob a v) \<and> glob p t)"
      by (auto, metis Un_iff append_assoc set_append, metis append_assoc)
    also have "\<dots> \<longleftrightarrow> (\<exists>b t. s = b @ CHR ''/'' # t \<and> CHR ''/'' \<notin> set b \<and> glob (c # a) b \<and> glob p t)"
      using True glob_star [of a] by simp
    finally show ?thesis .
  next
    case False
    have "glob ((c # a) @ CHR ''/'' # p) s \<longleftrightarrow> (\<exists>s'. s = c # s' \<and> glob (a @ CHR ''/'' # p) s')"
      using False by (cases s) auto
    also have "\<dots> \<longleftrightarrow> (\<exists>b t. s = (c # b) @ CHR ''/'' # t \<and> CHR ''/'' \<notin> set b \<and> glob a b \<and> glob p t)"
      by (auto simp: IH)
    also have "\<dots> \<longleftrightarrow> (\<exists>b t. s = b @ CHR ''/'' # t \<and> CHR ''/'' \<notin> set b \<and> glob (c # a) b \<and> glob p t)"
    proof -
      have "glob (c # a) b \<longleftrightarrow> (\<exists>b'. b = c # b' \<and> glob a b')" for b using False by (cases b) auto
      with Cons.prems show ?thesis by (metis append_Cons insert_iff list.simps(15))
    qed
    finally show ?thesis .
  qed
qed

lemma first_slash_unique:
  "a @ x # t = b @ x # u \<Longrightarrow> x \<notin> set a \<Longrightarrow> x \<notin> set b \<Longrightarrow> a = b \<and> t = u"
  by (metis Cut_found prod.inject)

lemma Split_cases:
  obtains "CHR ''/'' \<notin> set s" "Split s ''/'' = [s]"
  | a t where "s = a @ CHR ''/'' # t" "CHR ''/'' \<notin> set a" "Split s ''/'' = a # Split t ''/''"
proof (cases "CHR ''/'' \<in> set s")
  case True
  from split_list_first [OF this] obtain a t where a: "s = a @ CHR ''/'' # t" "CHR ''/'' \<notin> set a" by blast
  show ?thesis using that(2) [OF a] Split_Cons [OF a(2), of t] a(1) by simp
next
  case False
  then show ?thesis using that(1) Split_free [of _ s] by simp
qed

text \<open>A pattern matches segment by segment.\<close>

lemma glob_segments: "glob p s \<longleftrightarrow> list_all2 glob (Split p ''/'') (Split s ''/'')"
proof (induction "length p" arbitrary: p s rule: less_induct)
  case (less p)
  show ?case
  proof (cases p rule: Split_cases)
    case 1
    then show ?thesis
    proof (cases s rule: Split_cases)
      case (2 a t)
      then have "\<not> glob p s" using 1 glob_slash_free [of p s] by auto
      with 1 2 show ?thesis by (auto simp: list_all2_Cons1)
    qed auto
  next
    case (2 a q)
    note p = 2
    show ?thesis
    proof (cases s rule: Split_cases)
      case 1
      then have "\<not> glob p s" using glob_segment [OF p(2), of q s] p(1) by auto
      with p 1 show ?thesis by (auto simp: list_all2_Cons1)
    next
      case (2 b t)
      have "(\<exists>b' t'. s = b' @ CHR ''/'' # t' \<and> CHR ''/'' \<notin> set b' \<and> glob a b' \<and> glob q t') \<longleftrightarrow> glob a b \<and> glob q t"
        using 2(1,2) by (metis first_slash_unique)
      then show ?thesis using less [of q t] p 2 glob_segment [OF p(2), of q s] by simp
    qed
  qed
qed

end
