(* ===== verification/Depcheck.thy ===== *)
theory Depcheck
  imports Path_Match Apperror "HOL-Library.List_Lexorder" "HOL-Library.Char_ord"
begin

text \<open>
  The dependency checker \<^verbatim>\<open>src/tools/dependencycheck\<close>: the policy, the classification of package
  locations and the decision on one import (\<^verbatim>\<open>main.go\<close>). Packages are slash-separated paths; the
  decision is the text of the violation, empty when the import is allowed, as in the code. The
  set of standard-library packages is the argument \<open>std\<close>, as it is a map argument of the code.
\<close>

section \<open>The policy\<close>

record externalRule =
  Prefix :: string
  Importers :: "string list"
  TestOnly :: bool

record policy =
  Modules :: "string list"
  Platforms :: "string list"
  PureStandardLibrary :: "string list"
  External :: "externalRule list"

record location =
  kind :: string
  loc_module :: string
  layer :: string
  component :: string

abbreviation nowhere :: location where
  "nowhere \<equiv> \<lparr>kind = '''', loc_module = '''', layer = '''', component = ''''\<rparr>"

abbreviation of_kind :: "string \<Rightarrow> location" where
  "of_kind k \<equiv> nowhere\<lparr>kind := k\<rparr>"

definition within :: "string \<Rightarrow> string \<Rightarrow> bool" where
  "within v p = (v = p \<or> HasPrefix v (p @ ''/''))"

fun contains :: "string list \<Rightarrow> string \<Rightarrow> bool" where
  "contains [] v = False"
| "contains (item # items) v = (if item = v then True else contains items v)"

lemma contains_set [simp]: "contains xs v \<longleftrightarrow> v \<in> set xs"
  by (induction xs) auto

text \<open>The loop of \<^verbatim>\<open>matches\<close> over the leading segments, the longest first.\<close>

fun match_leading :: "string \<Rightarrow> string list \<Rightarrow> nat \<Rightarrow> bool" where
  "match_leading base parts 0 = False"
| "match_leading base parts (Suc n) =
     (if Match base (Join (take (Suc n) parts) ''/'') = Some True then True else match_leading base parts n)"

definition matches :: "string \<Rightarrow> string \<Rightarrow> bool" where
  "matches pattern v =
     (if HasSuffix pattern ''/**''
      then (let base = TrimSuffix pattern ''/**''; parts = Split v ''/'' in match_leading base parts (length parts))
      else Match pattern v = Some True)"

section \<open>Locations\<close>

abbreviation layers :: "string list" where
  "layers \<equiv> [''domain'', ''application'', ''contract'', ''infrastructure'', ''transport'']"

definition classify_location :: "policy \<Rightarrow> string \<Rightarrow> location" where
  "classify_location p pkg =
     (let parts = Split pkg ''/'' in
      if 2 \<le> length parts \<and> parts ! 0 = ''cmd'' then of_kind ''cmd''
      else if 2 \<le> length parts \<and> parts ! 0 = ''tools'' then of_kind ''tools''
      else if 2 \<le> length parts \<and> parts ! 0 = ''test'' \<and> contains [''integration'', ''e2e'', ''fixtures''] (parts ! 1)
        then of_kind ''test''
      else if length parts < 2 \<or> parts ! 0 \<noteq> ''internal'' then nowhere
      else if parts ! 1 = ''bootstrap'' then of_kind ''bootstrap''
      else if parts ! 1 = ''platform'' then
        (if 3 \<le> length parts \<and> contains (Platforms p) (parts ! 2)
         then nowhere\<lparr>kind := ''platform'', component := parts ! 2\<rparr> else nowhere)
      else if \<not> contains (Modules p) (parts ! 1) then nowhere
      else if length parts = 2 then nowhere\<lparr>kind := ''module-root'', loc_module := parts ! 1\<rparr>
      else if \<not> contains layers (parts ! 2) then nowhere
      else nowhere\<lparr>kind := ''module'', loc_module := parts ! 1, layer := parts ! 2\<rparr>)"

section \<open>One import\<close>

definition pure_package :: "policy \<Rightarrow> string \<Rightarrow> bool" where
  "pure_package p imported = list_ex (within imported) (PureStandardLibrary p)"

definition check_shared_errors :: "policy \<Rightarrow> string \<Rightarrow> bool \<Rightarrow> (string \<Rightarrow> bool) \<Rightarrow> string" where
  "check_shared_errors p imported test std =
     (if test \<and> imported = ''testing'' then ''''
      else if std imported \<and> pure_package p imported then ''''
      else ''shared errors must depend only on pure standard-library packages'')"

definition check_standard :: "policy \<Rightarrow> location \<Rightarrow> string \<Rightarrow> string \<Rightarrow> bool \<Rightarrow> string" where
  "check_standard p source importer imported test =
     (if (within imported ''testing'' \<or> imported = ''net/http/httptest'') \<and> \<not> test
      then ''standard-library test dependency imported by production code''
      else if within imported ''database/sql'' \<and>
        \<not> (matches ''internal/platform/database/**'' importer
           \<or> matches ''internal/*/infrastructure/postgres/**'' importer \<or> kind source = ''test'' \<and> test)
      then ''SQL access is restricted to PostgreSQL adapters''
      else if kind source = ''module'' \<and> contains [''domain'', ''application'', ''contract''] (layer source) then
        (if test \<and> imported = ''testing'' then ''''
         else if layer source = ''application'' \<and> imported = ''log/slog'' then ''''
         else if pure_package p imported then ''''
         else ''standard-library I/O/framework dependency is not allowed in this layer'')
      else '''')"

text \<open>The table \<^verbatim>\<open>allowed\<close>; a layer without an entry allows nothing.\<close>

definition allowed_layers :: "string \<Rightarrow> string list" where
  "allowed_layers l =
     (if l = ''contract'' then [''contract'']
      else if l = ''domain'' then [''domain'']
      else if l = ''application'' then [''application'', ''domain'', ''contract'']
      else if l = ''infrastructure'' then [''infrastructure'', ''application'', ''domain'', ''contract'']
      else if l = ''transport'' then [''transport'', ''application'', ''domain'', ''contract'']
      else [])"

abbreviation direction_violation :: string where
  "direction_violation \<equiv> ''dependency direction violates architecture policy''"

definition check_module :: "location \<Rightarrow> location \<Rightarrow> string" where
  "check_module source target =
     (if kind target = ''platform'' \<and>
         (component target = ''apperror'' \<or> layer source = ''infrastructure''
          \<or> layer source = ''transport'' \<and> contains [''httpserver'', ''logging'', ''telemetry''] (component target))
      then ''''
      else if kind target = ''module'' then
        (if loc_module source \<noteq> loc_module target then
           (if layer target = ''contract'' \<and> contains [''application'', ''infrastructure''] (layer source) then ''''
            else ''cross-module imports must use a contract from application/infrastructure'')
         else if contains (allowed_layers (layer source)) (layer target) then ''''
         else direction_violation)
      else direction_violation)"

definition check_internal :: "policy \<Rightarrow> string \<Rightarrow> location \<Rightarrow> string \<Rightarrow> string \<Rightarrow> bool \<Rightarrow> string" where
  "check_internal p module source importer imported test =
     (let targetPath = TrimPrefix imported (module @ ''/''); target = classify_location p targetPath in
      if kind target \<in> set ['''', ''module-root'', ''cmd'', ''tools'']
      then ''target is not an importable architecture package''
      else if test \<and> targetPath = importer then ''''
      else if kind source = ''cmd'' then (if kind target = ''bootstrap'' then '''' else direction_violation)
      else if kind source = ''tools'' then ''tooling must not depend on application code''
      else if kind source = ''test'' then (if test \<and> kind target \<noteq> ''test'' then '''' else direction_violation)
      else if kind source = ''bootstrap'' then (if kind target \<noteq> ''test'' then '''' else direction_violation)
      else if kind source = ''platform'' then (if kind target = ''platform'' then '''' else direction_violation)
      else if kind source = ''module'' then check_module source target
      else direction_violation)"

text \<open>The loop that chooses the most specific rule.\<close>

fun choose_rule :: "string \<Rightarrow> externalRule list \<Rightarrow> externalRule option \<Rightarrow> externalRule option" where
  "choose_rule imported [] chosen = chosen"
| "choose_rule imported (rule # rules) chosen =
     choose_rule imported rules
       (if within imported (Prefix rule) \<and>
           (chosen = None \<or> length (Prefix (the chosen)) < length (Prefix rule))
        then Some rule else chosen)"

definition check_external :: "policy \<Rightarrow> location \<Rightarrow> string \<Rightarrow> string \<Rightarrow> bool \<Rightarrow> string" where
  "check_external p source importer imported test =
     (case choose_rule imported (External p) None of
        None \<Rightarrow> ''external package is not approved in dependency-policy.json''
      | Some chosen \<Rightarrow>
          if TestOnly chosen \<and> \<not> test then ''test dependency imported by production code''
          else if kind source = ''module'' \<and> contains [''domain'', ''contract'', ''application''] (layer source)
                  \<and> \<not> TestOnly chosen
            then ''core layers must not depend on external libraries''
          else if list_ex (\<lambda>allowed. matches allowed importer) (Importers chosen) then ''''
          else ''external package is not approved for this importer'')"

definition checkImport :: "policy \<Rightarrow> string \<Rightarrow> string \<Rightarrow> string \<Rightarrow> bool \<Rightarrow> (string \<Rightarrow> bool) \<Rightarrow> string" where
  "checkImport p module importer imported test std =
     (let source = classify_location p importer in
      if kind source = ''platform'' \<and> component source = ''apperror''
        then check_shared_errors p imported test std
      else if std imported then check_standard p source importer imported test
      else if within imported module then check_internal p module source importer imported test
      else check_external p source importer imported test)"

section \<open>Patterns of the policy\<close>

lemma match_leading_iff:
  "match_leading base parts n \<longleftrightarrow> (\<exists>k. 0 < k \<and> k \<le> n \<and> Match base (Join (take k parts) ''/'') = Some True)"
  by (induction n) (auto simp: le_Suc_eq)

lemma Split_segments_free: "x \<in> set (Split v ''/'') \<Longrightarrow> CHR ''/'' \<notin> set x"
  by (rule Split_single_free)

lemma Split_Join_take:
  assumes "0 < k" "k \<le> length (Split v ''/'')"
  shows "Split (Join (take k (Split v ''/'')) ''/'') ''/'' = take k (Split v ''/'')"
  using assms by (intro Split_Join_single) (auto dest: in_set_takeD Split_segments_free)

lemma matches_tree:
  assumes "plain base"
  shows "matches (base @ ''/**'') v \<longleftrightarrow>
    (\<exists>k \<le> length (Split v ''/''). list_all2 glob (Split base ''/'') (take k (Split v ''/'')))"
proof -
  have "matches (base @ ''/**'') v \<longleftrightarrow>
    (\<exists>k. 0 < k \<and> k \<le> length (Split v ''/'') \<and> list_all2 glob (Split base ''/'') (take k (Split v ''/'')))"
    by (auto simp: matches_def Let_def match_leading_iff Match_plain [OF assms] glob_segments Split_Join_take)
  also have "\<dots> \<longleftrightarrow> (\<exists>k \<le> length (Split v ''/''). list_all2 glob (Split base ''/'') (take k (Split v ''/'')))"
  proof -
    have "\<not> list_all2 glob (Split base ''/'') (take 0 (Split v ''/''))" by simp
    then show ?thesis by (metis gr0I)
  qed
  finally show ?thesis .
qed

lemma matches_plain:
  assumes "plain pattern" "\<not> HasSuffix pattern ''/**''"
  shows "matches pattern v \<longleftrightarrow> list_all2 glob (Split pattern ''/'') (Split v ''/'')"
  using assms by (simp add: matches_def Match_plain glob_segments)

lemma glob_literal_eq: "CHR ''*'' \<notin> set p \<Longrightarrow> glob p s \<longleftrightarrow> s = p"
  using glob_literal [of p "[]" s] by simp

lemma glob_literals:
  "\<forall>p \<in> set ps. CHR ''*'' \<notin> set p \<Longrightarrow> list_all2 glob ps ss \<longleftrightarrow> ss = ps"
  by (induction ps arbitrary: ss) (auto simp: list_all2_Cons1 glob_literal_eq)

text \<open>A package is within a prefix when the segments of the prefix come first.\<close>

lemma Split_append_slash: "Split (a @ ''/'' @ b) ''/'' = Split a ''/'' @ Split b ''/''"
proof (induction "length a" arbitrary: a rule: less_induct)
  case less
  show ?case
  proof (cases a rule: Split_cases)
    case 1
    then show ?thesis using Split_Cons [of "CHR ''/''" a b] by simp
  next
    case (2 c t)
    then show ?thesis using less [of t] Split_Cons [of "CHR ''/''" c "t @ ''/'' @ b"] by simp
  qed
qed

lemma within_segments: "within v p \<longleftrightarrow> prefix (Split p ''/'') (Split v ''/'')"
proof
  assume "within v p"
  then show "prefix (Split p ''/'') (Split v ''/'')"
    by (auto simp: within_def HasPrefix_iff Split_append_slash [simplified])
next
  assume "prefix (Split p ''/'') (Split v ''/'')"
  then obtain zs where zs: "Split v ''/'' = Split p ''/'' @ zs" by (auto simp: prefix_def)
  have v: "v = Join (Split p ''/'' @ zs) ''/''" using zs Join_Split [of v "''/''"] by simp
  have "Join (xs @ zs) ''/'' = Join xs ''/'' @ ''/'' @ Join zs ''/''" if "xs \<noteq> []" "zs \<noteq> []" for xs
    using that by (induction xs rule: induct_list012) (auto simp: Join_Cons)
  then show "within v p"
    using v Split_nonempty [of p "''/''"] by (cases "zs = []") (auto simp: within_def HasPrefix_iff)
qed

lemma set_Split: "x \<in> set (Split s [c]) \<Longrightarrow> set x \<subseteq> set s"
proof (induction "length s" arbitrary: s rule: less_induct)
  case less
  show ?case
  proof (cases "c \<in> set s")
    case True
    from split_list_first [OF this] obtain a t where a: "s = a @ c # t" "c \<notin> set a" by blast
    then have "x = a \<or> x \<in> set (Split t [c])" using less(2) Split_Cons [of c a t] by auto
    then show ?thesis using less(1) [of t] a by auto
  qed (use less(2) Split_free [of c s] in auto)
qed

lemma matches_literal_tree:
  assumes "plain base" "CHR ''*'' \<notin> set base" shows "matches (base @ ''/**'') v \<longleftrightarrow> within v base"
proof -
  have "CHR ''*'' \<notin> set x" if "x \<in> set (Split base ''/'')" for x
    using set_Split [OF that] assms(2) by blast
  then have "matches (base @ ''/**'') v \<longleftrightarrow> (\<exists>k \<le> length (Split v ''/''). take k (Split v ''/'') = Split base ''/'')"
    by (simp add: matches_tree [OF assms(1)] glob_literals)
  also have "\<dots> \<longleftrightarrow> prefix (Split base ''/'') (Split v ''/'')"
    by (metis append_eq_conv_conj prefix_def prefix_length_le take_is_prefix)
  finally show ?thesis by (simp add: within_segments)
qed

section \<open>Rules for external packages\<close>

lemma choose_rule_best:
  assumes "\<forall>c. chosen = Some c \<longrightarrow> within imported (Prefix c)"
  shows "case choose_rule imported rules chosen of
      None \<Rightarrow> chosen = None \<and> (\<forall>r \<in> set rules. \<not> within imported (Prefix r))
    | Some r \<Rightarrow> within imported (Prefix r) \<and> (r \<in> set rules \<or> chosen = Some r) \<and>
        (\<forall>r' \<in> set rules \<union> set_option chosen. within imported (Prefix r') \<longrightarrow> length (Prefix r') \<le> length (Prefix r))"
  using assms
proof (induction rules arbitrary: chosen)
  case Nil
  then show ?case by (cases chosen) auto
next
  case (Cons rule rules)
  define c' where "c' = (if within imported (Prefix rule) \<and>
           (chosen = None \<or> length (Prefix (the chosen)) < length (Prefix rule)) then Some rule else chosen)"
  have "\<forall>c. c' = Some c \<longrightarrow> within imported (Prefix c)" using Cons.prems by (auto simp: c'_def)
  from Cons.IH [OF this] Cons.prems show ?case
    by (cases chosen) (auto simp: c'_def [symmetric] split: option.splits, (auto simp: c'_def split: if_splits)+)
qed

text \<open>
  Rules with the same prefix are ordered by position; the first of the most specific ones decides.
\<close>

definition governs :: "string \<Rightarrow> externalRule list \<Rightarrow> externalRule \<Rightarrow> bool" where
  "governs imported rules r \<longleftrightarrow> r \<in> set rules \<and> within imported (Prefix r) \<and>
     (\<forall>r' \<in> set rules. within imported (Prefix r') \<longrightarrow> length (Prefix r') \<le> length (Prefix r))"

lemma choose_rule_governs:
  "choose_rule imported rules None = Some r \<Longrightarrow> governs imported rules r"
  "choose_rule imported rules None = None \<Longrightarrow> r \<in> set rules \<Longrightarrow> \<not> within imported (Prefix r)"
  using choose_rule_best [of None imported rules] by (auto simp: governs_def)

section \<open>The architecture\<close>

text \<open>
  Production imports between packages of the repository that the checker accepts. A package of
  the repository is named by its path below the module path.
\<close>

definition internal_edge :: "policy \<Rightarrow> string \<Rightarrow> (string \<Rightarrow> bool) \<Rightarrow> string \<Rightarrow> string \<Rightarrow> bool" where
  "internal_edge p module std a b \<longleftrightarrow>
     (\<exists>imported. checkImport p module a imported False std = '''' \<and> \<not> std imported \<and> within imported module
        \<and> b = TrimPrefix imported (module @ ''/''))"

text \<open>The architecture as heights: imports never go up.\<close>

definition height :: "location \<Rightarrow> nat" where
  "height l =
     (if kind l = ''platform'' then 0
      else if kind l = ''module'' then
        (if layer l = ''contract'' \<or> layer l = ''domain'' then 1 else if layer l = ''application'' then 2 else 3)
      else if kind l = ''bootstrap'' then 4 else 5)"

text \<open>The unit of a package: its module and layer, or its kind.\<close>

definition arch_unit :: "location \<Rightarrow> string \<times> string \<times> string" where
  "arch_unit l = (kind l, loc_module l, layer l)"

definition core :: "location \<Rightarrow> bool" where
  "core l \<longleftrightarrow> kind l = ''module'' \<and> layer l \<in> {''domain'', ''application'', ''contract''}"

definition shared_errors :: "location \<Rightarrow> bool" where
  "shared_errors l \<longleftrightarrow> kind l = ''platform'' \<and> component l = ''apperror''"

text \<open>The shapes of location that the classification gives.\<close>

definition location_ok :: "location \<Rightarrow> bool" where
  "location_ok l \<longleftrightarrow>
     (kind l \<noteq> ''module'' \<longrightarrow> layer l = '''') \<and>
     (kind l \<notin> {''module'', ''module-root''} \<longrightarrow> loc_module l = '''') \<and>
     (kind l = ''module'' \<longrightarrow> layer l \<in> set layers) \<and>
     kind l \<in> {'''', ''cmd'', ''tools'', ''test'', ''bootstrap'', ''platform'', ''module-root'', ''module''}"

lemma if_both: "(b \<Longrightarrow> P x) \<Longrightarrow> (\<not> b \<Longrightarrow> P y) \<Longrightarrow> P (if b then x else y)"
  by simp

lemma location_ok_simps [simp]:
  "location_ok nowhere"
  "k \<in> {''cmd'', ''tools'', ''test'', ''bootstrap''} \<Longrightarrow> location_ok (of_kind k)"
  "location_ok (nowhere\<lparr>kind := ''platform'', component := c\<rparr>)"
  "location_ok (nowhere\<lparr>kind := ''module-root'', loc_module := m\<rparr>)"
  "l \<in> set layers \<Longrightarrow> location_ok (nowhere\<lparr>kind := ''module'', loc_module := m, layer := l\<rparr>)"
  by (auto simp: location_ok_def)

lemma classify_location_ok: "location_ok (classify_location p pkg)"
  unfolding classify_location_def Let_def contains_set
  by (intro if_both [where P = location_ok] location_ok_simps) simp_all

lemma classify_location_fields:
  "kind (classify_location p pkg) \<noteq> ''module'' \<Longrightarrow> layer (classify_location p pkg) = ''''"
  "kind (classify_location p pkg) \<notin> {''module'', ''module-root''} \<Longrightarrow> loc_module (classify_location p pkg) = ''''"
  "kind (classify_location p pkg) = ''module'' \<Longrightarrow> layer (classify_location p pkg) \<in> set layers"
  "kind (classify_location p pkg) \<in> {'''', ''cmd'', ''tools'', ''test'', ''bootstrap'', ''platform'', ''module-root'', ''module''}"
  using classify_location_ok [of p pkg] unfolding location_ok_def by simp_all

text \<open>What an accepted production import between packages says about the two locations.\<close>

definition permitted :: "location \<Rightarrow> location \<Rightarrow> bool" where
  "permitted s t \<longleftrightarrow>
     kind s = ''cmd'' \<and> kind t = ''bootstrap''
     \<or> kind s = ''bootstrap'' \<and> kind t \<in> {''bootstrap'', ''platform'', ''module''}
     \<or> kind s = ''platform'' \<and> kind t = ''platform'' \<and> \<not> shared_errors s
     \<or> kind s = ''module'' \<and> kind t = ''platform'' \<and> (shared_errors t \<or> layer s \<in> {''infrastructure'', ''transport''})
     \<or> kind s = ''module'' \<and> kind t = ''module'' \<and> loc_module s \<noteq> loc_module t \<and> layer t = ''contract''
         \<and> layer s \<in> {''application'', ''infrastructure''}
     \<or> kind s = ''module'' \<and> kind t = ''module'' \<and> loc_module s = loc_module t \<and> layer t \<in> set (allowed_layers (layer s))"

lemma check_internal_permitted:
  assumes "check_internal p module s a imported False = ''''" "\<not> shared_errors s"
    "kind s \<in> {'''', ''cmd'', ''tools'', ''test'', ''bootstrap'', ''platform'', ''module-root'', ''module''}"
  shows "permitted s (classify_location p (TrimPrefix imported (module @ ''/'')))"
proof -
  define t where "t = classify_location p (TrimPrefix imported (module @ ''/''))"
  have "kind t \<in> {'''', ''cmd'', ''tools'', ''test'', ''bootstrap'', ''platform'', ''module-root'', ''module''}"
    unfolding t_def by (rule classify_location_fields(4))
  with assms show ?thesis
    unfolding check_internal_def t_def [symmetric] Let_def permitted_def
    by (elim insertE emptyE) (simp_all add: check_module_def shared_errors_def split: if_splits, auto)
qed

lemma internal_edge_permitted:
  assumes "internal_edge p module std a b"
  shows "permitted (classify_location p a) (classify_location p b)"
proof -
  define s where "s = classify_location p a"
  from assms obtain imported where i: "checkImport p module a imported False std = ''''" "\<not> std imported"
    "within imported module" "b = TrimPrefix imported (module @ ''/'')"
    by (auto simp: internal_edge_def)
  have ns: "\<not> shared_errors s"
    using i(1,2) by (auto simp: checkImport_def check_shared_errors_def shared_errors_def s_def Let_def)
  then have "check_internal p module s a imported False = ''''"
    using i(1-3) by (auto simp: checkImport_def shared_errors_def s_def Let_def)
  from check_internal_permitted [OF this ns] show ?thesis
    using classify_location_fields(4) [of p a] by (simp add: s_def i(4))
qed

lemma internal_edge_height:
  assumes "internal_edge p module std a b"
  shows "height (classify_location p b) < height (classify_location p a)
    \<or> arch_unit (classify_location p b) = arch_unit (classify_location p a)"
proof -
  define s where "s = classify_location p a"
  define t where "t = classify_location p b"
  note f = classify_location_fields(1-3) [of p a, folded s_def] classify_location_fields(1-3) [of p b, folded t_def]
  from internal_edge_permitted [OF assms, folded s_def t_def]
  have "height t < height s \<or> arch_unit t = arch_unit s"
    unfolding permitted_def
    by (elim disjE conjE) (use f in \<open>auto simp: height_def arch_unit_def allowed_layers_def split: if_splits\<close>)
  then show ?thesis by (simp add: s_def t_def)
qed

lemma internal_path_height:
  assumes "(internal_edge p module std)\<^sup>+\<^sup>+ a b"
  shows "height (classify_location p b) < height (classify_location p a)
    \<or> arch_unit (classify_location p b) = arch_unit (classify_location p a)"
  using assms
proof (induction rule: tranclp_induct)
  case (step b c)
  have "height l = height l'" if "arch_unit l = arch_unit l'" for l l'
    using that by (auto simp: arch_unit_def height_def)
  with step.IH internal_edge_height [OF step.hyps(2)] show ?case by (metis order.strict_trans)
qed (rule internal_edge_height)

lemma core_edge:
  assumes "internal_edge p module std a b" "core (classify_location p a) \<or> shared_errors (classify_location p a)"
  shows "core (classify_location p b) \<or> shared_errors (classify_location p b)"
  using internal_edge_permitted [OF assms(1)] assms(2)
  by (auto simp: permitted_def core_def allowed_layers_def shared_errors_def)

lemma core_path:
  assumes "(internal_edge p module std)\<^sup>*\<^sup>* a b" "core (classify_location p a)"
  shows "core (classify_location p b) \<or> shared_errors (classify_location p b)"
  using assms by (induction rule: rtranclp_induct) (auto dest: core_edge)

end
