(* ===== verification/Depcheck_Scan.thy ===== *)
theory Depcheck_Scan
  imports Depcheck
begin

text \<open>
  The rest of \<^verbatim>\<open>src/tools/dependencycheck\<close>: the context policy on syntax trees (\<^verbatim>\<open>context.go\<close>), the
  walk over the source tree and the command (\<^verbatim>\<open>main.go\<close>). A syntax tree keeps the node kinds the
  checker looks at; every other kind is \<open>OtherNode\<close> with its children. A source position is its
  line. A file of the tree carries the result of parsing it.
\<close>

section \<open>Syntax trees\<close>

datatype node =
    Ident nat string
  | SelectorExpr nat node string
  | FuncType nat "field list" "field list option" "field list"
  | StructType nat "field list"
  | OtherNode nat "node list"
and field = Field (field_line: nat) (field_names: "string list") (field_type: node)

text \<open>
  \<open>FuncType\<close> has its type parameters, its parameters (\<open>None\<close> for a nil list) and its results.
  An import has its line, its optional name and what \<^verbatim>\<open>strconv.Unquote\<close> makes of its path.
\<close>

record import_spec =
  spec_line :: nat
  spec_name :: "string option"
  spec_path :: "string option"

record go_file =
  file_imports :: "import_spec list"
  file_decls :: "node list"

text \<open>\<^verbatim>\<open>ast.Inspect\<close> with a visitor that never prunes: all nodes, parents first.\<close>

fun inspect :: "node \<Rightarrow> node list" and inspect_field :: "field \<Rightarrow> node list" where
  "inspect (Ident l n) = [Ident l n]"
| "inspect (SelectorExpr l x sel) = SelectorExpr l x sel # inspect x"
| "inspect (FuncType l tps ps rs) =
     FuncType l tps ps rs # concat (map inspect_field tps)
       @ (case ps of None \<Rightarrow> [] | Some fs \<Rightarrow> concat (map inspect_field fs)) @ concat (map inspect_field rs)"
| "inspect (StructType l fs) = StructType l fs # concat (map inspect_field fs)"
| "inspect (OtherNode l ns) = OtherNode l ns # concat (map inspect ns)"
| "inspect_field (Field l names t) = inspect t"

section \<open>The context policy\<close>

definition report :: "string \<Rightarrow> nat \<Rightarrow> string \<Rightarrow> string" where
  "report rel line reason = rel @ '':'' @ Itoa (int line) @ '': context policy: '' @ reason"

text \<open>The loop over the imports: the alias under which the file knows the package, if any.\<close>

fun context_imports :: "string \<Rightarrow> string \<Rightarrow> import_spec list \<Rightarrow> string \<times> string list" where
  "context_imports rel alias [] = (alias, [])"
| "context_imports rel alias (spec # specs) =
     (if spec_path spec \<noteq> Some ''context'' then context_imports rel alias specs
      else let alias' = (case spec_name spec of None \<Rightarrow> ''context'' | Some n \<Rightarrow> n) in
        case context_imports rel alias' specs of (a, vs) \<Rightarrow>
          (a, (if alias' = ''.'' then [report rel (spec_line spec) ''dot import of context is not allowed''] else []) @ vs))"

fun isContext :: "string \<Rightarrow> node \<Rightarrow> bool" where
  "isContext alias (SelectorExpr l (Ident l' n) sel) = (n = alias \<and> sel = ''Context'')"
| "isContext alias _ = False"

fun check_params :: "string \<Rightarrow> string \<Rightarrow> nat \<Rightarrow> field list \<Rightarrow> string list" where
  "check_params rel alias i [] = []"
| "check_params rel alias i (f # fs) =
     (if \<not> isContext alias (field_type f) then []
      else (if i \<noteq> 0 \<or> 1 < length (field_names f)
            then [report rel (field_line f) ''context.Context must be the first, single parameter''] else [])
        @ (if length (field_names f) = 1 \<and> hd (field_names f) \<noteq> ''ctx''
            then [report rel (field_line f) ''name the context parameter ctx''] else []))
     @ check_params rel alias (Suc i) fs"

definition check_selector :: "string \<Rightarrow> nat \<Rightarrow> string \<Rightarrow> string list" where
  "check_selector rel l sel =
     (if sel = ''TODO'' then [report rel l ''context.TODO is not allowed in production code'']
      else if sel = ''Background'' then
        (if \<not> HasPrefix rel ''cmd/'' then [report rel l ''create root contexts only at cmd entry points''] else [])
      else if sel = ''WithoutCancel'' then
        (if rel \<noteq> ''internal/bootstrap/api.go'' \<and> rel \<noteq> ''internal/bootstrap/app.go''
         then [report rel l ''detaching cancellation is reserved for bootstrap draining and bounded cleanup''] else [])
      else [])"

fun check_node :: "string \<Rightarrow> string \<Rightarrow> node \<Rightarrow> string list" where
  "check_node rel alias (FuncType l tps ps rs) =
     (case ps of None \<Rightarrow> [] | Some fs \<Rightarrow> check_params rel alias 0 fs)"
| "check_node rel alias (StructType l fs) =
     concat (map (\<lambda>f. if isContext alias (field_type f)
       then [report rel (field_line f) ''pass context to methods instead of storing it in a struct''] else []) fs)"
| "check_node rel alias (SelectorExpr l (Ident l' n) sel) = (if n \<noteq> alias then [] else check_selector rel l sel)"
| "check_node rel alias _ = []"

definition checkContexts :: "go_file \<Rightarrow> string \<Rightarrow> string list" where
  "checkContexts file rel =
     (if HasSuffix rel ''_test.go'' \<or> \<not> (HasPrefix rel ''internal/'' \<or> HasPrefix rel ''cmd/'') then []
      else case context_imports rel '''' (file_imports file) of (alias, violations) \<Rightarrow>
        if alias = '''' then violations
        else violations @ concat (map (check_node rel alias) (concat (map inspect (file_decls file)))))"

section \<open>The source tree\<close>

text \<open>
  What \<^verbatim>\<open>filepath.WalkDir\<close> meets: a file with its name, whether it is a symbolic link, and the
  result of parsing it; a directory with its name, its entries in lexical order, and the error
  of reading it, if any.
\<close>

datatype entry =
    File string bool "gerror + go_file"
  | Dir string "entry list" "gerror option"

definition skipped_dir :: "string \<Rightarrow> bool" where
  "skipped_dir name = (HasPrefix name ''.'' \<or> contains [''vendor'', ''node_modules'', ''testdata''] name)"

text \<open>\<^verbatim>\<open>path.Dir\<close> of a clean relative path.\<close>

definition path_Dir :: "string \<Rightarrow> string" where
  "path_Dir rel = (let parts = Split rel ''/'' in if length parts < 2 then ''.'' else Join (butlast parts) ''/'')"

text \<open>The loop over the imports of a file.\<close>

fun check_imports ::
  "(string \<Rightarrow> string) \<Rightarrow> string \<Rightarrow> string \<Rightarrow> import_spec list \<Rightarrow> string list \<times> gerror option" where
  "check_imports decide rel pkg [] = ([], None)"
| "check_imports decide rel pkg (spec # specs) =
     (case spec_path spec of
        None \<Rightarrow> ([], Some (Sentinel ''strconv.ErrSyntax''))
      | Some imported \<Rightarrow>
          let reason = decide imported; (vs, err) = check_imports decide rel pkg specs in
          ((if reason \<noteq> ''''
            then [rel @ '':'' @ Itoa (int (spec_line spec)) @ '': '' @ pkg @ '' -> '' @ imported @ '': '' @ reason]
            else []) @ vs, err))"

text \<open>The callback of the walk on a file: the violations it adds and the error it returns.\<close>

definition visit_file ::
  "policy \<Rightarrow> string \<Rightarrow> (string \<Rightarrow> bool) \<Rightarrow> string \<Rightarrow> string \<Rightarrow> bool \<Rightarrow> gerror + go_file \<Rightarrow> string list \<times> gerror option" where
  "visit_file p module std rel name symlink parsed =
     (let v1 = (if name = ''go.mod'' \<and> rel \<noteq> ''go.mod'' then [rel @ '': nested Go modules require a policy change''] else []);
          v2 = (if name = ''go.work'' then [rel @ '': Go workspaces require a policy change''] else [])
      in if \<not> HasSuffix rel ''.go'' then (v1 @ v2, None)
      else if symlink then (v1 @ v2 @ [rel @ '': Go source symlinks are not supported''], None)
      else let pkg = path_Dir rel; loc = classify_location p pkg;
               v3 = (if kind loc = '''' then [rel @ '': unregistered module, layer or package location''] else [])
      in case parsed of
           Inl e \<Rightarrow> (v1 @ v2 @ v3, Some (WrapErr (''parse '' @ rel @ '': '' @ Error e) e))
         | Inr file \<Rightarrow>
             let v4 = (if kind loc = ''module-root'' \<and> (name \<noteq> ''doc.go'' \<or> file_decls file \<noteq> [])
                       then [rel @ '': module root is documentation-only; use an explicit layer''] else []);
                 test = HasSuffix rel ''_test.go'';
                 v5 = checkContexts file rel;
                 v6 = (if kind loc = ''test'' \<and> \<not> test \<and> file_decls file \<noteq> []
                       then [rel @ '': integration/e2e helpers must use _test.go''] else []);
                 (v7, err) = check_imports (\<lambda>imported. checkImport p module pkg imported test std) rel pkg (file_imports file)
             in (v1 @ v2 @ v3 @ v4 @ v5 @ v6 @ v7, err))"

text \<open>
  The walk below a directory with relative path \<open>dir\<close> (\<open>[]\<close> for the root): entries in order,
  stopping at the first error.
\<close>

definition join_path :: "string \<Rightarrow> string \<Rightarrow> string" where
  "join_path dir name = (if dir = '''' then name else dir @ ''/'' @ name)"

fun walk_entry ::
  "(string \<Rightarrow> string \<Rightarrow> bool \<Rightarrow> gerror + go_file \<Rightarrow> string list \<times> gerror option) \<Rightarrow> string \<Rightarrow> entry \<Rightarrow> string list \<times> gerror option"
and walk_entries ::
  "(string \<Rightarrow> string \<Rightarrow> bool \<Rightarrow> gerror + go_file \<Rightarrow> string list \<times> gerror option) \<Rightarrow> string \<Rightarrow> entry list \<Rightarrow> string list \<times> gerror option"
where
  "walk_entry visit dir (File name symlink parsed) = visit (join_path dir name) name symlink parsed"
| "walk_entry visit dir (Dir name entries err) =
     (if skipped_dir name then ([], None)
      else case err of Some e \<Rightarrow> ([], Some e) | None \<Rightarrow> walk_entries visit (join_path dir name) entries)"
| "walk_entries visit dir [] = ([], None)"
| "walk_entries visit dir (e # es) =
     (case walk_entry visit dir e of
        (vs, Some err) \<Rightarrow> (vs, Some err)
      | (vs, None) \<Rightarrow> (case walk_entries visit dir es of (vs', err) \<Rightarrow> (vs @ vs', err)))"

text \<open>\<^verbatim>\<open>scan\<close>: the violations in lexical order and the error of the walk.\<close>

definition scan :: "gerror + entry list \<Rightarrow> string \<Rightarrow> policy \<Rightarrow> (string \<Rightarrow> bool) \<Rightarrow> string list \<times> gerror option" where
  "scan root module p std =
     (case root of
        Inl e \<Rightarrow> ([], Some e)
      | Inr entries \<Rightarrow>
          (case walk_entries (visit_file p module std) '''' entries of (vs, err) \<Rightarrow> (sort vs, err)))"

section \<open>The command\<close>

text \<open>
  The outside world of \<^verbatim>\<open>run\<close>: the working directory, the policy file and its decoding, the output
  of \<^verbatim>\<open>go mod edit -json\<close> and its decoding (module path and number of replace directives), the
  output of \<^verbatim>\<open>go list std\<close>, and the source tree.
\<close>

record world =
  getwd :: "gerror + string"
  read_policy :: "gerror + string"
  decode_policy :: "string \<Rightarrow> gerror + policy"
  go_mod_edit :: "gerror + string"
  decode_mod :: "string \<Rightarrow> gerror + string \<times> nat"
  go_list_std :: "gerror + string"
  source_tree :: "gerror + entry list"

definition passed_text :: string where
  "passed_text = ''Dependency policy passed (including tests, generated files and build-tagged source).''"

text \<open>\<^verbatim>\<open>run\<close>: the line it prints, or the error.\<close>

definition depcheck_run :: "world \<Rightarrow> gerror + string" where
  "depcheck_run W =
     bind_sum (getwd W) (\<lambda>root.
     bind_sum (case read_policy W of Inl e \<Rightarrow> Inl (WrapErr (''run from repository root: '' @ Error e) e) | Inr d \<Rightarrow> Inr d) (\<lambda>data.
     bind_sum (decode_policy W data) (\<lambda>p.
     bind_sum (go_mod_edit W) (\<lambda>modData.
     bind_sum (decode_mod W modData) (\<lambda>(path, replaces).
     if 0 < replaces then Inl (NewErr ''go.mod replace directives require an explicit policy change'')
     else bind_sum (go_list_std W) (\<lambda>stdData.
       let std = (\<lambda>pkg. contains (Fields stdData) pkg) in
       case scan (source_tree W) path p std of
         (_, Some e) \<Rightarrow> Inl e
       | (violations, None) \<Rightarrow>
           if violations \<noteq> []
           then Inl (NewErr (''dependency policy violations:'' @ [CHR 0x0A] @ Join violations [CHR 0x0A]))
           else Inr passed_text))))))"

text \<open>\<^verbatim>\<open>main\<close>: standard output, standard error and the exit status.\<close>

definition depcheck_main :: "world \<Rightarrow> string \<times> string \<times> nat" where
  "depcheck_main W =
     (case depcheck_run W of Inl e \<Rightarrow> ('''', Error e @ [CHR 0x0A], 1) | Inr out \<Rightarrow> (out @ [CHR 0x0A], '''', 0))"

end
