(* ===== verification/Depcheck_Claims.thy ===== *)
theory Depcheck_Claims
  imports Depcheck_Scan
begin

text \<open>
  What the dependency checker guarantees: the meaning of its patterns, the choice of the rule for
  an external package, that a passing run has looked at every Go file, and what follows for the
  import graph of a repository that passes.
\<close>

section \<open>Patterns and rules\<close>

text \<open>
  C24. Patterns mean what the comment on \<^verbatim>\<open>matches\<close> says. For patterns of literal text and stars:
  without a trailing \<^verbatim>\<open>/**\<close> a pattern matches exactly the packages with as many segments, each
  matched by its segment of the pattern, a star standing for any text within one segment; with
  it, exactly the packages some leading segments of which match the part before it. When that
  part has no star, these are the package itself and its descendants.
\<close>

theorem matches_spec:
  assumes "plain pattern"
  shows "(matches pattern v \<longleftrightarrow>
    (if HasSuffix pattern ''/**''
     then \<exists>k \<le> length (Split v ''/''). list_all2 glob (Split (TrimSuffix pattern ''/**'') ''/'') (take k (Split v ''/''))
     else list_all2 glob (Split pattern ''/'') (Split v ''/''))) \<and>
    (CHR ''*'' \<notin> set pattern \<longrightarrow> (matches (pattern @ ''/**'') v \<longleftrightarrow> within v pattern))"
proof
  show "matches pattern v \<longleftrightarrow>
    (if HasSuffix pattern ''/**''
     then \<exists>k \<le> length (Split v ''/''). list_all2 glob (Split (TrimSuffix pattern ''/**'') ''/'') (take k (Split v ''/''))
     else list_all2 glob (Split pattern ''/'') (Split v ''/''))"
  proof (cases "HasSuffix pattern ''/**''")
    case True
    then obtain base where b: "pattern = base @ ''/**''" by (auto simp: HasSuffix_iff)
    moreover from b assms have "plain base" by simp
    ultimately show ?thesis using matches_tree [of base v] TrimSuffix_append [of base "''/**''"] True by simp
  next
    case False
    then show ?thesis using matches_plain [OF assms False] by simp
  qed
qed (simp add: matches_literal_tree [OF assms])

theorem matches_spec_witness:
  "matches ''internal/*/infrastructure/postgres/**'' ''internal/importjob/infrastructure/postgres/x''
   \<and> \<not> matches ''internal/*/infrastructure/postgres/**'' ''internal/a/b/infrastructure/postgres''
   \<and> matches ''internal/bootstrap/**'' ''internal/bootstrap''"
proof -
  have "matches ''internal/bootstrap/**'' ''internal/bootstrap''"
    using matches_spec [of "''internal/bootstrap''" "''internal/bootstrap''"] by (simp add: within_def)
  moreover have "Split ''internal/importjob/infrastructure/postgres/x'' ''/'' =
      [''internal'', ''importjob'', ''infrastructure'', ''postgres'', ''x'']"
    "Split ''internal/*/infrastructure/postgres'' ''/'' = [''internal'', ''*'', ''infrastructure'', ''postgres'']"
    by code_simp+
  then have "matches ''internal/*/infrastructure/postgres/**'' ''internal/importjob/infrastructure/postgres/x''"
    using matches_spec [of "''internal/*/infrastructure/postgres/**''"]
    by (simp add: HasSuffix_def TrimSuffix_def exI [of _ 4])
  moreover have "\<not> matches ''internal/*/infrastructure/postgres/**'' ''internal/a/b/infrastructure/postgres''"
    by code_simp
  ultimately show ?thesis by blast
qed

text \<open>
  External packages are governed by the most specific rule of the policy. A production import
  of a package that is neither standard nor of the repository is accepted exactly when some rule
  covers it and the first rule with the longest covering prefix is not for tests only, lists a
  pattern that matches the importer, and the importer is neither in a core layer nor the
  shared-errors package.
\<close>

theorem external_governed:
  assumes "\<not> std imported" and "\<not> within imported module"
  shows "checkImport p module importer imported False std = '''' \<longleftrightarrow>
    \<not> core (classify_location p importer) \<and> \<not> shared_errors (classify_location p importer) \<and>
    (\<exists>r. choose_rule imported (External p) None = Some r \<and> governs imported (External p) r \<and>
       \<not> TestOnly r \<and> (\<exists>a \<in> set (Importers r). matches a importer))"
proof (cases "shared_errors (classify_location p importer)")
  case True
  then show ?thesis using assms(1) by (simp add: checkImport_def check_shared_errors_def shared_errors_def)
next
  case False
  then have "checkImport p module importer imported False std =
      check_external p (classify_location p importer) importer imported False"
    using assms by (auto simp: checkImport_def shared_errors_def Let_def)
  with False show ?thesis
    using choose_rule_governs(1) [of imported "External p"]
    by (auto simp: check_external_def core_def list_ex_iff split: option.splits)
qed

section \<open>A passing run has seen every file\<close>

text \<open>The files of a tree that are not below a skipped directory, with their relative paths.\<close>

inductive located :: "string \<Rightarrow> entry list \<Rightarrow> string \<Rightarrow> string \<Rightarrow> bool \<Rightarrow> gerror + go_file \<Rightarrow> bool" where
  here: "File name symlink parsed \<in> set es \<Longrightarrow> located dir es (join_path dir name) name symlink parsed"
| below: "Dir d es' err \<in> set es \<Longrightarrow> \<not> skipped_dir d \<Longrightarrow> located (join_path dir d) es' rel name symlink parsed \<Longrightarrow>
    located dir es rel name symlink parsed"

inductive_simps located_Nil: "located dir [] rel name symlink parsed"

lemma located_unfold:
  "located dir es rel name symlink parsed \<longleftrightarrow>
   rel = join_path dir name \<and> File name symlink parsed \<in> set es \<or>
   (\<exists>d es' err. Dir d es' err \<in> set es \<and> \<not> skipped_dir d \<and> located (join_path dir d) es' rel name symlink parsed)"
  by (subst located.simps) auto

lemma located_head:
  "located dir (e # es) rel name symlink parsed \<longleftrightarrow>
   located dir [e] rel name symlink parsed \<or> located dir es rel name symlink parsed"
  unfolding located_unfold [of dir "e # es"] located_unfold [of dir "[e]"] located_unfold [of dir es]
  by (simp only: set_simps insert_iff empty_iff) blast

lemma located_File:
  "located dir [File n sl pr] rel name symlink parsed \<longleftrightarrow>
   rel = join_path dir n \<and> name = n \<and> symlink = sl \<and> parsed = pr"
  unfolding located_unfold [of dir "[File n sl pr]"] by auto

lemma located_Dir:
  "located dir [Dir d es err] rel name symlink parsed \<longleftrightarrow>
   \<not> skipped_dir d \<and> located (join_path dir d) es rel name symlink parsed"
  unfolding located_unfold [of dir "[Dir d es err]"] by auto

text \<open>A walk without violations and errors has called the callback on every located file.\<close>

lemma walk_clean:
  "walk_entry visit dir e = ([], None) \<Longrightarrow> located dir [e] rel name symlink parsed \<Longrightarrow>
     visit rel name symlink parsed = ([], None)"
  "walk_entries visit dir es = ([], None) \<Longrightarrow> located dir es rel name symlink parsed \<Longrightarrow>
     visit rel name symlink parsed = ([], None)"
proof (induction visit dir e and visit dir es arbitrary: rel name symlink parsed and rel name symlink parsed
    rule: walk_entry_walk_entries.induct)
  case (2 visit dir d entries err)
  then show ?case by (auto simp: located_Dir split: option.splits)
next
  case (4 visit dir e es)
  obtain vs err where e: "walk_entry visit dir e = (vs, err)" by fastforce
  from 4(3) e have clean: "walk_entry visit dir e = ([], None)" "walk_entries visit dir es = ([], None)"
    by (auto split: prod.splits option.splits)
  from 4(4) consider "located dir [e] rel name symlink parsed" | "located dir es rel name symlink parsed"
    unfolding located_head [of dir e es] by blast
  then show ?case
  proof cases
    case 1
    with 4(1) clean show ?thesis by blast
  next
    case 2
    with 4(2) [of "[]"] clean show ?thesis by simp
  qed
qed (auto simp: located_File located_Nil)

lemma check_imports_clean:
  "check_imports decide rel pkg specs = ([], None) \<longleftrightarrow>
   (\<forall>spec \<in> set specs. \<exists>i. spec_path spec = Some i \<and> decide i = '''')"
proof (induction specs)
  case (Cons spec specs)
  show ?case
  proof (cases "spec_path spec")
    case (Some i)
    obtain vs err where "check_imports decide rel pkg specs = (vs, err)" by fastforce
    then show ?thesis using Cons.IH Some by (auto simp: Let_def split: if_splits)
  qed simp
qed simp

definition go_file_ok :: "policy \<Rightarrow> string \<Rightarrow> (string \<Rightarrow> bool) \<Rightarrow> string \<Rightarrow> string \<Rightarrow> go_file \<Rightarrow> bool" where
  "go_file_ok p module std rel name file \<longleftrightarrow>
     kind (classify_location p (path_Dir rel)) \<noteq> '''' \<and>
     (kind (classify_location p (path_Dir rel)) = ''module-root'' \<longrightarrow> name = ''doc.go'' \<and> file_decls file = []) \<and>
     (kind (classify_location p (path_Dir rel)) = ''test'' \<longrightarrow> HasSuffix rel ''_test.go'' \<or> file_decls file = []) \<and>
     checkContexts file rel = [] \<and>
     (\<forall>spec \<in> set (file_imports file). \<exists>i. spec_path spec = Some i \<and>
        checkImport p module (path_Dir rel) i (HasSuffix rel ''_test.go'') std = '''')"

lemma visit_file_clean:
  assumes "visit_file p module std rel name symlink parsed = ([], None)"
  shows "(name = ''go.mod'' \<longrightarrow> rel = ''go.mod'') \<and> name \<noteq> ''go.work''"
    and "HasSuffix rel ''.go'' \<Longrightarrow> \<not> symlink \<and> (\<exists>file. parsed = Inr file \<and> go_file_ok p module std rel name file)"
proof -
  show "(name = ''go.mod'' \<longrightarrow> rel = ''go.mod'') \<and> name \<noteq> ''go.work''"
    using assms by (auto simp: visit_file_def Let_def split: if_splits sum.splits prod.splits)
  assume go: "HasSuffix rel ''.go''"
  with assms have "\<not> symlink" by (auto simp: visit_file_def Let_def)
  moreover from assms go this obtain gf where f: "parsed = Inr gf"
    by (cases parsed) (auto simp: visit_file_def Let_def)
  moreover have "go_file_ok p module std rel name gf"
    using assms go \<open>\<not> symlink\<close> f
    unfolding go_file_ok_def check_imports_clean [of "\<lambda>i. checkImport p module (path_Dir rel) i (HasSuffix rel ''_test.go'') std" rel "path_Dir rel", symmetric]
    by (auto simp: visit_file_def Let_def split: if_splits prod.splits)
  ultimately show "\<not> symlink \<and> (\<exists>file. parsed = Inr file \<and> go_file_ok p module std rel name file)" by blast
qed

text \<open>The decoded inputs of a run that gets as far as scanning.\<close>

definition inputs_of :: "world \<Rightarrow> entry list \<Rightarrow> string \<Rightarrow> policy \<Rightarrow> (string \<Rightarrow> bool) \<Rightarrow> bool" where
  "inputs_of W entries module p std \<longleftrightarrow>
     source_tree W = Inr entries \<and>
     (\<exists>data md sd. read_policy W = Inr data \<and> decode_policy W data = Inr p \<and> go_mod_edit W = Inr md \<and>
        decode_mod W md = Inr (module, 0) \<and> go_list_std W = Inr sd \<and> std = (\<lambda>pkg. pkg \<in> set (Fields sd)))"

lemma depcheck_run_passes:
  assumes "depcheck_run W = Inr out"
  obtains entries module p std where "inputs_of W entries module p std"
    "walk_entries (visit_file p module std) '''' entries = ([], None)" "out = passed_text"
proof -
  have empty: "xs = []" if "sort xs = []" for xs :: "string list"
    using that by (metis set_empty set_sort)
  from assms obtain data p md path reps sd where
    i: "read_policy W = Inr data" "decode_policy W data = Inr p" "go_mod_edit W = Inr md"
    "decode_mod W md = Inr (path, reps)" "reps = 0" "go_list_std W = Inr sd"
    and run: "(case scan (source_tree W) path p (\<lambda>pkg. pkg \<in> set (Fields sd)) of
       (_, Some e) \<Rightarrow> Inl e
     | (violations, None) \<Rightarrow>
         if violations \<noteq> [] then Inl (NewErr (''dependency policy violations:'' @ [CHR 0x0A] @ Join violations [CHR 0x0A]))
         else Inr passed_text) = Inr out"
    unfolding depcheck_run_def Let_def contains_set bind_sum_eq_Inr
    by (elim exE conjE) (auto split: sum.splits if_splits simp del: split_paired_All)
  obtain vs err where "scan (source_tree W) path p (\<lambda>pkg. pkg \<in> set (Fields sd)) = (vs, err)" by fastforce
  with run have sc: "scan (source_tree W) path p (\<lambda>pkg. pkg \<in> set (Fields sd)) = ([], None)" "out = passed_text"
    by (auto split: option.splits if_splits)
  from sc(1) obtain entries where t: "source_tree W = Inr entries"
    "walk_entries (visit_file p path (\<lambda>pkg. pkg \<in> set (Fields sd))) '''' entries = ([], None)"
    by (auto simp: scan_def split: sum.splits prod.splits dest: empty)
  show ?thesis
    by (rule that [of entries path p "\<lambda>pkg. pkg \<in> set (Fields sd)"]) (use i t sc(2) in \<open>auto simp: inputs_of_def\<close>)
qed

text \<open>
  C23. A passing run has checked everything. When the command succeeds, every file of the source
  tree outside the skipped directories has been judged: there is no nested module and no
  workspace file, and every Go file is a regular file that parses, lies at a registered location,
  holds no context violation, and each of its imports is accepted for its package.
\<close>

theorem passing_run_checks_everything:
  assumes "depcheck_run W = Inr out" and "inputs_of W entries module p std"
    and "located '''' entries rel name symlink parsed"
  shows "out = passed_text \<and> (name = ''go.mod'' \<longrightarrow> rel = ''go.mod'') \<and> name \<noteq> ''go.work'' \<and>
    (HasSuffix rel ''.go'' \<longrightarrow> \<not> symlink \<and> (\<exists>f. parsed = Inr f \<and> go_file_ok p module std rel name f))"
proof -
  from depcheck_run_passes [OF assms(1)] obtain entries' module' p' std' where
    i: "inputs_of W entries' module' p' std'" "walk_entries (visit_file p' module' std') '''' entries' = ([], None)"
    "out = passed_text" .
  then have "walk_entries (visit_file p module std) '''' entries = ([], None)"
    using assms(2) by (auto simp: inputs_of_def)
  from walk_clean(2) [OF this assms(3)] i(3) show ?thesis using visit_file_clean by blast
qed

section \<open>The import graph of a repository that passes\<close>

text \<open>
  Production imports of the files of the tree: a package imports \<open>imported\<close> when one of its Go
  files that is not a test does; an edge leads to a package of the repository.
\<close>

definition imports_of :: "entry list \<Rightarrow> string \<Rightarrow> string \<Rightarrow> bool" where
  "imports_of entries a imported \<longleftrightarrow>
     (\<exists>rel name symlink f spec. located '''' entries rel name symlink (Inr f) \<and> HasSuffix rel ''.go'' \<and>
        \<not> HasSuffix rel ''_test.go'' \<and> path_Dir rel = a \<and> spec \<in> set (file_imports f) \<and> spec_path spec = Some imported)"

definition repo_edge :: "entry list \<Rightarrow> string \<Rightarrow> (string \<Rightarrow> bool) \<Rightarrow> string \<Rightarrow> string \<Rightarrow> bool" where
  "repo_edge entries module std a b \<longleftrightarrow>
     (\<exists>imported. imports_of entries a imported \<and> \<not> std imported \<and> within imported module \<and>
        b = TrimPrefix imported (module @ ''/''))"

lemma imports_accepted:
  assumes "depcheck_run W = Inr out" "inputs_of W entries module p std" "imports_of entries a imported"
  shows "checkImport p module a imported False std = ''''"
proof -
  from assms(3) obtain rel name symlink f spec where f: "located '''' entries rel name symlink (Inr f)"
    "HasSuffix rel ''.go''" "\<not> HasSuffix rel ''_test.go''" "path_Dir rel = a" "spec \<in> set (file_imports f)"
    "spec_path spec = Some imported"
    by (auto simp: imports_of_def)
  from depcheck_run_passes [OF assms(1)] obtain entries' module' p' std' where
    i: "inputs_of W entries' module' p' std'" "walk_entries (visit_file p' module' std') '''' entries' = ([], None)"
    "out = passed_text" .
  then have "walk_entries (visit_file p module std) '''' entries = ([], None)"
    using assms(2) by (auto simp: inputs_of_def)
  from visit_file_clean(2) [OF walk_clean(2) [OF this f(1)] f(2)]
  show ?thesis using f(3-6) by (auto simp: go_file_ok_def)
qed

lemma repo_edge_internal:
  assumes "depcheck_run W = Inr out" "inputs_of W entries module p std" "repo_edge entries module std a b"
  shows "internal_edge p module std a b"
  using assms(3) imports_accepted [OF assms(1,2)] by (auto simp: repo_edge_def internal_edge_def)

text \<open>
  C21. No import cycle crosses the architecture. In a repository that passes, when two packages
  reach each other through production imports, they are in the same module and layer, or both in
  the platform, or both in bootstrap: layers, modules and entry points are free of mutual
  dependency, whatever the policy file says.
\<close>

theorem no_cycle_across_layers:
  assumes "depcheck_run W = Inr out" and "inputs_of W entries module p std"
    and "(repo_edge entries module std)\<^sup>+\<^sup>+ a b" and "(repo_edge entries module std)\<^sup>+\<^sup>+ b a"
  shows "kind (classify_location p a) = kind (classify_location p b) \<and>
    loc_module (classify_location p a) = loc_module (classify_location p b) \<and>
    layer (classify_location p a) = layer (classify_location p b)"
proof -
  have "(internal_edge p module std)\<^sup>+\<^sup>+ x y" if "(repo_edge entries module std)\<^sup>+\<^sup>+ x y" for x y
    using that
  proof induction
    case (base y)
    then show ?case using repo_edge_internal [OF assms(1,2)] by blast
  next
    case (step y z)
    then show ?case using repo_edge_internal [OF assms(1,2)] by (meson tranclp.trancl_into_trancl)
  qed
  from internal_path_height [OF this [OF assms(3)]] internal_path_height [OF this [OF assms(4)]]
  have "arch_unit (classify_location p a) = arch_unit (classify_location p b)" by force
  then show ?thesis by (simp add: arch_unit_def)
qed

text \<open>
  C22. The core of every module stays pure. In a repository that passes, whatever production code
  a domain, application or contract package reaches through any chain of imports lies in such a
  layer of some module or in the shared-errors package; all it imports from outside the
  repository are standard-library packages that the policy lists as pure, and \<^verbatim>\<open>log/slog\<close> in the
  application layer: never an external library, never another standard package.
\<close>

theorem core_stays_pure:
  assumes "depcheck_run W = Inr out" and "inputs_of W entries module p std"
    and "core (classify_location p a)" and "(repo_edge entries module std)\<^sup>*\<^sup>* a b" and "imports_of entries b imported"
  shows "(core (classify_location p b) \<or> shared_errors (classify_location p b)) \<and>
    (if std imported then pure_package p imported \<or> imported = ''log/slog'' \<and> layer (classify_location p b) = ''application''
     else within imported module \<and>
       (core (classify_location p (TrimPrefix imported (module @ ''/''))) \<or>
        shared_errors (classify_location p (TrimPrefix imported (module @ ''/'')))))"
proof -
  have "(internal_edge p module std)\<^sup>*\<^sup>* a b"
    using assms(4) repo_edge_internal [OF assms(1,2)] by (metis rtranclp_mono predicate2D predicate2I)
  then have b: "core (classify_location p b) \<or> shared_errors (classify_location p b)"
    using assms(3) by (rule core_path)
  note ok = imports_accepted [OF assms(1,2,5)]
  show ?thesis
  proof (cases "std imported")
    case True
    then show ?thesis
      using ok b by (auto simp: checkImport_def check_shared_errors_def check_standard_def core_def shared_errors_def
          Let_def split: if_splits)
  next
    case False
    then have "within imported module"
      using ok b by (auto simp: checkImport_def check_shared_errors_def check_external_def core_def shared_errors_def
          Let_def split: if_splits option.splits)
    with False ok have "internal_edge p module std b (TrimPrefix imported (module @ ''/''))"
      by (auto simp: internal_edge_def)
    with b core_edge False \<open>within imported module\<close> show ?thesis by simp
  qed
qed

subsection \<open>A small repository\<close>

definition tree_policy :: policy where
  "tree_policy = \<lparr>Modules = [''place''], Platforms = [''apperror'', ''database''], PureStandardLibrary = [''errors''],
     External = [\<lparr>Prefix = ''g/x'', Importers = [''internal/**''], TestOnly = True\<rparr>,
                 \<lparr>Prefix = ''g/x/pool'', Importers = [''internal/platform/database/**''], TestOnly = False\<rparr>]\<rparr>"

definition demo_source :: "string list \<Rightarrow> gerror + go_file" where
  "demo_source paths = Inr \<lparr>file_imports = map (\<lambda>i. \<lparr>spec_line = 3, spec_name = None, spec_path = Some i\<rparr>) paths,
     file_decls = [OtherNode 3 []]\<rparr>"

definition demo_tree :: "entry list" where
  "demo_tree =
     [Dir ''internal''
       [Dir ''place'' [Dir ''domain''
          [Dir ''x'' [File ''x.go'' False (demo_source [''errors'', ''m/internal/place/domain/y''])] None,
           Dir ''y'' [File ''y.go'' False (demo_source [''m/internal/place/domain/x''])] None] None] None] None]"

definition demo_world :: world where
  "demo_world = \<lparr>getwd = Inr ''/r'', read_policy = Inr ''{}'', decode_policy = (\<lambda>_. Inr tree_policy), go_mod_edit = Inr ''{}'',
     decode_mod = (\<lambda>_. Inr (''m'', 0)), go_list_std = Inr ''errors net'', source_tree = Inr demo_tree\<rparr>"

abbreviation demo_std :: "string \<Rightarrow> bool" where
  "demo_std \<equiv> \<lambda>pkg. pkg \<in> set (Fields ''errors net'')"

lemma demo_passes: "depcheck_run demo_world = Inr passed_text"
  by code_simp

lemma demo_inputs: "inputs_of demo_world demo_tree ''m'' tree_policy demo_std"
  by (simp add: inputs_of_def demo_world_def)

lemma demo_located:
  "located '''' demo_tree ''internal/place/domain/x/x.go'' ''x.go'' False (demo_source [''errors'', ''m/internal/place/domain/y''])"
  "located '''' demo_tree ''internal/place/domain/y/y.go'' ''y.go'' False (demo_source [''m/internal/place/domain/x''])"
  by (simp_all add: demo_tree_def located_head [of _ _ "_ # _"] located_Dir located_File skipped_dir_def join_path_def)

lemma demo_imports:
  "imports_of demo_tree ''internal/place/domain/x'' ''errors''"
  "imports_of demo_tree ''internal/place/domain/x'' ''m/internal/place/domain/y''"
  "imports_of demo_tree ''internal/place/domain/y'' ''m/internal/place/domain/x''"
proof -
  have d: "path_Dir ''internal/place/domain/x/x.go'' = ''internal/place/domain/x''"
    "path_Dir ''internal/place/domain/y/y.go'' = ''internal/place/domain/y''" by code_simp+
  have s: "HasSuffix ''internal/place/domain/x/x.go'' ''.go''" "\<not> HasSuffix ''internal/place/domain/x/x.go'' ''_test.go''"
    "HasSuffix ''internal/place/domain/y/y.go'' ''.go''" "\<not> HasSuffix ''internal/place/domain/y/y.go'' ''_test.go''"
    by code_simp+
  show "imports_of demo_tree ''internal/place/domain/x'' ''errors''"
    "imports_of demo_tree ''internal/place/domain/x'' ''m/internal/place/domain/y''"
    "imports_of demo_tree ''internal/place/domain/y'' ''m/internal/place/domain/x''"
    using demo_located s d unfolding imports_of_def demo_source_def by fastforce+
qed

lemma demo_edges:
  "repo_edge demo_tree ''m'' demo_std ''internal/place/domain/x'' ''internal/place/domain/y''"
  "repo_edge demo_tree ''m'' demo_std ''internal/place/domain/y'' ''internal/place/domain/x''"
proof -
  have "\<not> demo_std ''m/internal/place/domain/y''" "\<not> demo_std ''m/internal/place/domain/x''" by code_simp+
  then show "repo_edge demo_tree ''m'' demo_std ''internal/place/domain/x'' ''internal/place/domain/y''"
    "repo_edge demo_tree ''m'' demo_std ''internal/place/domain/y'' ''internal/place/domain/x''"
    using demo_imports unfolding repo_edge_def by (fastforce simp: within_def TrimPrefix_def)+
qed

theorem passing_run_checks_everything_witness:
  "\<exists>f. demo_source [''m/internal/place/domain/x''] = Inr f \<and>
     go_file_ok tree_policy ''m'' demo_std ''internal/place/domain/y/y.go'' ''y.go'' f"
  using passing_run_checks_everything [OF demo_passes demo_inputs demo_located(2)] by (simp add: HasSuffix_def)

theorem no_cycle_across_layers_witness:
  "layer (classify_location tree_policy ''internal/place/domain/x'') = layer (classify_location tree_policy ''internal/place/domain/y'')"
  using no_cycle_across_layers [OF demo_passes demo_inputs, of "''internal/place/domain/x''" "''internal/place/domain/y''"]
    demo_edges by blast

theorem core_stays_pure_witness:
  "pure_package tree_policy ''errors''"
proof -
  have "core (classify_location tree_policy ''internal/place/domain/y'')" unfolding core_def by code_simp
  moreover have "demo_std ''errors''" by code_simp
  ultimately show ?thesis
    using core_stays_pure [OF demo_passes demo_inputs _ r_into_rtranclp [of "repo_edge demo_tree ''m'' demo_std", OF demo_edges(2)]
        demo_imports(1)] by simp
qed

theorem external_governed_witness:
  "checkImport tree_policy ''m'' ''internal/platform/database'' ''g/x/pool/sub'' False (\<lambda>_. False) = '''' \<and>
   (\<exists>r. governs ''g/x/pool/sub'' (External tree_policy) r \<and> \<not> TestOnly r)"
proof -
  have "checkImport tree_policy ''m'' ''internal/platform/database'' ''g/x/pool/sub'' False (\<lambda>_. False) = ''''" by code_simp
  with external_governed [of "\<lambda>_. False" "''g/x/pool/sub''" "''m''" tree_policy "''internal/platform/database''"]
  show ?thesis by (auto simp: within_def)
qed

section \<open>The context policy\<close>

fun children :: "node \<Rightarrow> node list" where
  "children (Ident l n) = []"
| "children (SelectorExpr l x sel) = [x]"
| "children (FuncType l tps ps rs) = map field_type (tps @ (case ps of None \<Rightarrow> [] | Some fs \<Rightarrow> fs) @ rs)"
| "children (StructType l fs) = map field_type fs"
| "children (OtherNode l ns) = ns"

inductive occurs :: "node \<Rightarrow> node \<Rightarrow> bool" where
  self: "occurs n n"
| child: "c \<in> set (children m) \<Longrightarrow> occurs n c \<Longrightarrow> occurs n m"

lemma inspect_children: "inspect m = m # concat (map inspect (children m))"
proof -
  have "inspect_field f = inspect (field_type f)" for f by (cases f) simp
  then have "inspect_field = inspect \<circ> field_type" by auto
  then show ?thesis by (cases m) (auto split: option.splits)
qed

lemma occurs_field: "f \<in> set fs \<Longrightarrow> set (map field_type fs) \<subseteq> set (children m) \<Longrightarrow> occurs n (field_type f) \<Longrightarrow> occurs n m"
  by (rule occurs.child [of "field_type f"]) auto

lemma inspect_sound:
  "n \<in> set (inspect m) \<Longrightarrow> occurs n m"
  "n \<in> set (inspect_field f) \<Longrightarrow> occurs n (field_type f)"
proof (induction m and f rule: inspect_inspect_field.induct)
  case (3 l tps ps rs)
  let ?m = "FuncType l tps ps rs"
  from 3(4) consider "n = ?m" | f where "f \<in> set tps" "n \<in> set (inspect_field f)"
    | f fs where "ps = Some fs" "f \<in> set fs" "n \<in> set (inspect_field f)" | f where "f \<in> set rs" "n \<in> set (inspect_field f)"
    by (auto split: option.splits)
  then show ?case
  proof cases
    case 2
    then show ?thesis using 3(1) occurs_field [of f tps ?m n] by simp
  next
    case 3
    then show ?thesis using "3.IH"(2) occurs_field [of f fs ?m n] by auto
  next
    case 4
    then show ?thesis using 3(3) occurs_field [of f rs ?m n] by auto
  qed (auto intro: occurs.self)
next
  case (4 l fs)
  from 4(2) consider "n = StructType l fs" | f where "f \<in> set fs" "n \<in> set (inspect_field f)" by auto
  then show ?case
  proof cases
    case 2
    then show ?thesis using 4(1) occurs_field [of f fs "StructType l fs" n] by simp
  qed (auto intro: occurs.self)
qed (auto intro: occurs.intros)

lemma inspect_occurs: "n \<in> set (inspect m) \<longleftrightarrow> occurs n m"
proof
  show "occurs n m \<Longrightarrow> n \<in> set (inspect m)"
    by (induction rule: occurs.induct) (subst inspect_children, auto)+
qed (rule inspect_sound(1))

text \<open>The uses of the package that the policy forbids in a production file.\<close>

definition bad_parameter :: "string \<Rightarrow> nat \<Rightarrow> field \<Rightarrow> bool" where
  "bad_parameter alias i f \<longleftrightarrow> isContext alias (field_type f) \<and>
     (i \<noteq> 0 \<or> 1 < length (field_names f) \<or> (\<exists>n. field_names f = [n] \<and> n \<noteq> ''ctx''))"

definition forbidden_use :: "string \<Rightarrow> string \<Rightarrow> node \<Rightarrow> bool" where
  "forbidden_use rel alias m \<longleftrightarrow>
     (\<exists>l l' sel. m = SelectorExpr l (Ident l' alias) sel \<and>
        (sel = ''TODO'' \<or> sel = ''Background'' \<and> \<not> HasPrefix rel ''cmd/''
         \<or> sel = ''WithoutCancel'' \<and> rel \<notin> {''internal/bootstrap/api.go'', ''internal/bootstrap/app.go''}))
     \<or> (\<exists>l tps fs rs i. m = FuncType l tps (Some fs) rs \<and> i < length fs \<and> bad_parameter alias i (fs ! i))
     \<or> (\<exists>l fs f. m = StructType l fs \<and> f \<in> set fs \<and> isContext alias (field_type f))"

lemma check_params_clean:
  "check_params rel alias k fs = [] \<longleftrightarrow> (\<forall>i < length fs. \<not> bad_parameter alias (k + i) (fs ! i))"
proof (induction fs arbitrary: k)
  case (Cons f fs)
  have "length ns = 1 \<and> hd ns \<noteq> c \<longleftrightarrow> (\<exists>n. ns = [n] \<and> n \<noteq> c)" for ns :: "string list" and c
    by (cases ns) auto
  then show ?case using Cons [of "Suc k"] by (auto simp: bad_parameter_def less_Suc_eq_0_disj)
qed simp

lemma check_node_clean: "check_node rel alias m = [] \<longleftrightarrow> \<not> forbidden_use rel alias m"
proof (cases "(rel, alias, m)" rule: check_node.cases)
  case (1 rel al l tps ps rs)
  then show ?thesis by (cases ps) (auto simp: forbidden_use_def check_params_clean)
qed (auto simp: forbidden_use_def check_selector_def split: if_splits)

definition context_specs :: "go_file \<Rightarrow> import_spec list" where
  "context_specs f = filter (\<lambda>s. spec_path s = Some ''context'') (file_imports f)"

definition local_name :: "import_spec \<Rightarrow> string" where
  "local_name s = (case spec_name s of None \<Rightarrow> ''context'' | Some n \<Rightarrow> n)"

lemma context_imports_spec:
  "fst (context_imports rel alias specs) =
     (let cs = filter (\<lambda>s. spec_path s = Some ''context'') specs in if cs = [] then alias else local_name (last cs))"
  "snd (context_imports rel alias specs) = [] \<longleftrightarrow>
     (\<forall>s \<in> set specs. spec_path s = Some ''context'' \<longrightarrow> local_name s \<noteq> ''.'')"
  by (induction rel "alias" specs rule: context_imports.induct)
    (auto simp: Let_def local_name_def split: prod.splits option.splits)



text \<open>
  Only the last import of the package is followed: a file that imports it twice can create a root
  context under the first name unnoticed.
\<close>

lemma second_name_unchecked:
  "checkContexts \<lparr>file_imports = [\<lparr>spec_line = 1, spec_name = Some ''c'', spec_path = Some ''context''\<rparr>,
       \<lparr>spec_line = 2, spec_name = Some ''d'', spec_path = Some ''context''\<rparr>],
     file_decls = [SelectorExpr 3 (Ident 3 ''c'') ''TODO'']\<rparr> ''internal/x.go'' = []"
  by (simp add: checkContexts_def HasSuffix_def)

end
