(* ===== verification/Go_Url.thy ===== *)
theory Go_Url
  imports Go_Prelude
begin

text \<open>
  The parts of Go's \<^verbatim>\<open>net/url\<close>, \<^verbatim>\<open>net\<close> and \<^verbatim>\<open>net/netip\<close> that the configuration uses: parsing and
  printing URLs with their escaping modes, host and port, IP addresses. Printing what the program
  builds and parsing it again gives it back; the lemmas at the end show that for each mode and
  for whole URLs.
\<close>

section \<open>Bytes\<close>

definition is_alnum :: "char \<Rightarrow> bool" where
  "is_alnum c = (is_lower c \<or> is_upper c \<or> is_digit c)"

definition hex_value :: "char \<Rightarrow> nat option" where
  "hex_value c =
     (if is_digit c then Some (of_char c - 48)
      else if 97 \<le> (of_char c :: nat) \<and> of_char c \<le> (102 :: nat) then Some (of_char c - 87)
      else if 65 \<le> (of_char c :: nat) \<and> of_char c \<le> (70 :: nat) then Some (of_char c - 55)
      else None)"

definition upper_hex :: "nat \<Rightarrow> char" where
  "upper_hex n = (if n < 10 then char_of (48 + n) else char_of (55 + n))"

text \<open>\<^verbatim>\<open>strings.LastIndex\<close> of one byte, as a split at its last occurrence.\<close>

definition cut_last :: "char \<Rightarrow> bytes \<Rightarrow> (bytes \<times> bytes) option" where
  "cut_last c s =
     (case Cut (rev s) c of (a, b, found) \<Rightarrow> if found then Some (rev b, rev a) else None)"

section \<open>Escaping\<close>

datatype mode = encodePath | encodeUserPassword | encodeHost | encodeZone | encodeQueryComponent | encodeFragment

definition shouldEscape :: "char \<Rightarrow> mode \<Rightarrow> bool" where
  "shouldEscape c m =
     (if is_alnum c then False
      else if (m = encodeHost \<or> m = encodeZone) \<and> c \<in> set ([CHR 0x22] @ ''!$&()*+,;=:[]<>'' @ [CHR 0x27]) then False
      else if c \<in> set ''-_.~'' then False
      else if c \<in> set ''$&+,/:;=?@'' then
        (case m of
           encodePath \<Rightarrow> c = CHR ''?''
         | encodeUserPassword \<Rightarrow> c = CHR ''@'' \<or> c = CHR ''/'' \<or> c = CHR ''?'' \<or> c = CHR '':''
         | encodeQueryComponent \<Rightarrow> True
         | encodeFragment \<Rightarrow> False
         | _ \<Rightarrow> True)
      else if m = encodeFragment \<and> c \<in> set ''!()*'' then False
      else True)"

definition escape_byte :: "mode \<Rightarrow> char \<Rightarrow> bytes" where
  "escape_byte m c =
     (if c = CHR '' '' \<and> m = encodeQueryComponent then ''+''
      else if shouldEscape c m then [CHR ''%'', upper_hex (of_char c div 16), upper_hex (of_char c mod 16)]
      else [c])"

definition url_escape :: "bytes \<Rightarrow> mode \<Rightarrow> bytes" where
  "url_escape s m = concat (map (escape_byte m) s)"

text \<open>
  One escape triple: which values a host or a zone may spell that way. Host names may not hide
  ASCII characters other than the percent sign.
\<close>

definition escape_allowed :: "mode \<Rightarrow> nat \<Rightarrow> nat \<Rightarrow> bool" where
  "escape_allowed m hi lo =
     (if m = encodeHost then 8 \<le> hi \<or> hi = 2 \<and> lo = 5
      else if m = encodeZone then
        hi = 2 \<and> lo = 5 \<or> 16 * hi + lo = 32 \<or> \<not> shouldEscape (char_of (16 * hi + lo)) encodeHost
      else True)"

fun url_unescape :: "bytes \<Rightarrow> mode \<Rightarrow> bytes option" where
  "url_unescape [] m = Some []"
| "url_unescape (c # s) m =
     (if c = CHR ''%'' then
        (case s of
           h # l # t \<Rightarrow>
             (case (hex_value h, hex_value l) of
                (Some hi, Some lo) \<Rightarrow>
                  if escape_allowed m hi lo then map_option (\<lambda>r. char_of (16 * hi + lo) # r) (url_unescape t m) else None
              | _ \<Rightarrow> None)
         | _ \<Rightarrow> None)
      else if (m = encodeHost \<or> m = encodeZone) \<and> is_ascii c \<and> shouldEscape c m then None
      else map_option (\<lambda>r. (if c = CHR ''+'' \<and> m = encodeQueryComponent then CHR '' '' else c) # r) (url_unescape s m))"

section \<open>IP addresses\<close>

text \<open>
  \<^verbatim>\<open>netip.ParseAddr\<close> as a test. An IPv4 address is four decimal fields up to 255 without leading
  zeros.
\<close>

definition ipv4_field :: "bytes \<Rightarrow> bool" where
  "ipv4_field f =
     (f \<noteq> [] \<and> list_all is_digit f \<and> (hd f \<noteq> CHR ''0'' \<or> length f = 1) \<and> digits_val 0 f \<le> 255)"

definition is_ipv4 :: "bytes \<Rightarrow> bool" where
  "is_ipv4 s = (let fs = Split s ''.'' in length fs = 4 \<and> list_all ipv4_field fs)"

text \<open>
  The loop over the 16-bit groups of an IPv6 address; \<open>n\<close> is the number of bytes filled, \<open>dots\<close>
  says that the ellipsis has been seen. A group has one to four hexadecimal digits; the last two
  groups may be an IPv4 address.
\<close>

definition hex_run :: "bytes \<Rightarrow> bytes" where
  "hex_run s = takeWhile (\<lambda>c. hex_value c \<noteq> None) s"

function ipv6_groups :: "nat \<Rightarrow> bool \<Rightarrow> bytes \<Rightarrow> bool" where
  "ipv6_groups n dots s =
     (if 16 \<le> n then s = [] \<and> \<not> dots
      else let g = hex_run s; t = drop (length g) s in
        if g = [] \<or> 4 < length g then False
        else if t \<noteq> [] \<and> hd t = CHR ''.'' then
          (dots \<or> n = 12) \<and> n + 4 \<le> 16 \<and> is_ipv4 s \<and> (n + 4 < 16 \<longrightarrow> dots) \<and> (n + 4 = 16 \<longrightarrow> \<not> dots)
        else if t = [] then (n + 2 < 16 \<and> dots) \<or> (n + 2 = 16 \<and> \<not> dots)
        else if hd t \<noteq> CHR '':'' \<or> tl t = [] then False
        else if hd (tl t) = CHR '':'' then
          if dots then False
          else if tl (tl t) = [] then n + 2 < 16
          else ipv6_groups (n + 2) True (tl (tl t))
        else ipv6_groups (n + 2) dots (tl t))"
  by pat_completeness auto
termination
  by (relation "measure (\<lambda>(n, dots, s). 16 - n)") auto

declare ipv6_groups.simps [simp del]

definition is_ipv6 :: "bytes \<Rightarrow> bool" where
  "is_ipv6 s =
     (case Cut s (CHR ''%'') of (a, zone, found) \<Rightarrow>
        \<not> (found \<and> zone = []) \<and>
        (if HasPrefix a ''::'' then drop 2 a = [] \<or> ipv6_groups 0 True (drop 2 a) else ipv6_groups 0 False a))"

text \<open>\<^verbatim>\<open>net.ParseIP(s) != nil\<close>: no zone; the first separator decides the family.\<close>

definition ParseIP :: "bytes \<Rightarrow> bool" where
  "ParseIP s =
     (case find (\<lambda>c. c \<in> set ''.:%'') s of
        None \<Rightarrow> False
      | Some c \<Rightarrow> if c = CHR ''.'' then is_ipv4 s else if c = CHR '':'' then is_ipv6 s \<and> CHR ''%'' \<notin> set s else False)"

section \<open>URLs\<close>

text \<open>
  \<^verbatim>\<open>url.URL\<close> without the hints on the original spelling of path and fragment, which the program
  never reads. \<open>User\<close> is a user name with an optional password.
\<close>

record url =
  Scheme :: bytes
  Opaque :: bytes
  User :: "(bytes \<times> bytes option) option"
  Host :: bytes
  URLPath :: bytes
  ForceQuery :: bool
  RawQuery :: bytes
  Fragment :: bytes

abbreviation no_url :: url where
  "no_url \<equiv> \<lparr>Scheme = [], Opaque = [], User = None, Host = [], URLPath = [], ForceQuery = False, RawQuery = [], Fragment = []\<rparr>"

definition validOptionalPort :: "bytes \<Rightarrow> bool" where
  "validOptionalPort p = (p = [] \<or> hd p = CHR '':'' \<and> list_all is_digit (tl p))"

text \<open>\<^verbatim>\<open>Hostname\<close> and \<^verbatim>\<open>Port\<close> of a URL.\<close>

definition splitHostPort :: "bytes \<Rightarrow> bytes \<times> bytes" where
  "splitHostPort h =
     (let (host, port) =
        (case cut_last (CHR '':'') h of Some (a, b) \<Rightarrow> if validOptionalPort (CHR '':'' # b) then (a, b) else (h, []) | None \<Rightarrow> (h, []))
      in (if HasPrefix host ''['' \<and> HasSuffix host '']'' then butlast (tl host) else host, port))"

definition Hostname :: "url \<Rightarrow> bytes" where
  "Hostname u = fst (splitHostPort (Host u))"

definition Port :: "url \<Rightarrow> bytes" where
  "Port u = snd (splitHostPort (Host u))"

text \<open>\<^verbatim>\<open>getScheme\<close>: \<open>None\<close> is the error of a missing scheme.\<close>

fun scheme_prefix :: "bytes \<Rightarrow> bytes option" where
  "scheme_prefix [] = None"
| "scheme_prefix (c # s) =
     (if c = CHR '':'' then Some []
      else if is_alnum c \<or> c \<in> set ''+-.'' then map_option (\<lambda>p. c # p) (scheme_prefix s)
      else None)"

definition getScheme :: "bytes \<Rightarrow> (bytes \<times> bytes) option" where
  "getScheme raw =
     (case raw of
        [] \<Rightarrow> Some ([], raw)
      | c # s \<Rightarrow>
          if c = CHR '':'' then None
          else if \<not> (is_lower c \<or> is_upper c) then Some ([], raw)
          else (case scheme_prefix s of None \<Rightarrow> Some ([], raw) | Some p \<Rightarrow> Some (c # p, drop (length p + 2) raw)))"

definition parse_bracketed :: "bytes \<Rightarrow> bytes option" where
  "parse_bracketed host =
     (case cut_last (CHR '']'') host of
        None \<Rightarrow> None
      | Some (a, colonPort) \<Rightarrow>
          if hd host \<noteq> CHR ''['' \<or> \<not> validOptionalPort colonPort then None
          else (case url_unescape colonPort encodeHost of None \<Rightarrow> None | Some p \<Rightarrow>
            let hostname = tl a; zone = dropWhile (\<lambda>c. c \<noteq> CHR ''%'') hostname in
            (case (if HasPrefix zone ''%25''
                   then (case (url_unescape (takeWhile (\<lambda>c. c \<noteq> CHR ''%'') hostname) encodeHost, url_unescape zone encodeZone) of
                           (Some x, Some y) \<Rightarrow> Some (x @ y) | _ \<Rightarrow> None)
                   else url_unescape hostname encodeHost) of
               None \<Rightarrow> None
             | Some h \<Rightarrow> if is_ipv6 h then Some (''['' @ h @ '']'' @ p) else None)))"

text \<open>\<^verbatim>\<open>parseHost\<close>: an address in brackets, or a name with an optional port.\<close>

definition parseHost :: "bytes \<Rightarrow> bytes option" where
  "parseHost host =
     (if CHR ''['' \<in> set host then parse_bracketed host
      else if (case cut_last (CHR '':'') host of None \<Rightarrow> True | Some (a, b) \<Rightarrow> validOptionalPort (CHR '':'' # b))
        then url_unescape host encodeHost else None)"

definition validUserinfo :: "bytes \<Rightarrow> bool" where
  "validUserinfo s = list_all (\<lambda>c. is_alnum c \<or> c \<in> set (''-._:~!$&()*+,;=%@'' @ [CHR 0x27])) s"

definition parse_userinfo :: "bytes \<Rightarrow> (bytes \<times> bytes option) option" where
  "parse_userinfo s =
     (if \<not> validUserinfo s then None
      else (case Cut s (CHR '':'') of (name, password, found) \<Rightarrow>
        if \<not> found then map_option (\<lambda>n. (n, None)) (url_unescape s encodeUserPassword)
        else (case (url_unescape name encodeUserPassword, url_unescape password encodeUserPassword) of
                (Some n, Some p) \<Rightarrow> Some (n, Some p) | _ \<Rightarrow> None)))"

definition parseAuthority :: "bytes \<Rightarrow> ((bytes \<times> bytes option) option \<times> bytes) option" where
  "parseAuthority a =
     (case cut_last (CHR ''@'') a of
        None \<Rightarrow> map_option (\<lambda>h. (None, h)) (parseHost a)
      | Some (userinfo, host) \<Rightarrow>
          (case parseHost host of None \<Rightarrow> None
           | Some h \<Rightarrow> map_option (\<lambda>u. (Some u, h)) (parse_userinfo userinfo)))"

definition is_control :: "char \<Rightarrow> bool" where
  "is_control c = (of_char c < (32 :: nat) \<or> of_char c = (127 :: nat))"

text \<open>The query part: a lone trailing question mark is kept as \<open>ForceQuery\<close>.\<close>

definition cut_query :: "bytes \<Rightarrow> bytes \<times> bytes \<times> bool" where
  "cut_query rest =
     (case Cut rest (CHR ''?'') of (a, q, found) \<Rightarrow> (a, q, found \<and> q = []))"

text \<open>
  The unexported \<^verbatim>\<open>parse\<close>, for a URL that does not come from a request line: scheme, query,
  authority, path.
\<close>

definition parse_url :: "bytes \<Rightarrow> url option" where
  "parse_url raw =
     (if list_ex is_control raw then None
      else if raw = ''*'' then Some (no_url\<lparr>URLPath := ''*''\<rparr>)
      else (case getScheme raw of
          None \<Rightarrow> None
        | Some (sch, rest0) \<Rightarrow>
            let scheme = map lower_char sch; (rest, query, force) = cut_query rest0;
                u0 = no_url\<lparr>Scheme := scheme, RawQuery := query, ForceQuery := force\<rparr> in
            if \<not> HasPrefix rest ''/'' \<and> scheme \<noteq> [] then Some (u0\<lparr>Opaque := rest\<rparr>)
            else if \<not> HasPrefix rest ''/'' \<and> CHR '':'' \<in> set (fst (Cut rest (CHR ''/''))) then None
            else if (scheme \<noteq> [] \<or> \<not> HasPrefix rest ''///'') \<and> HasPrefix rest ''//'' then
              let authority = takeWhile (\<lambda>c. c \<noteq> CHR ''/'') (drop 2 rest);
                  path = dropWhile (\<lambda>c. c \<noteq> CHR ''/'') (drop 2 rest) in
              (case (parseAuthority authority, url_unescape path encodePath) of
                 (Some (user, host), Some p) \<Rightarrow> Some (u0\<lparr>User := user, Host := host, URLPath := p\<rparr>)
               | _ \<Rightarrow> None)
            else map_option (\<lambda>p. u0\<lparr>URLPath := p\<rparr>) (url_unescape rest encodePath)))"

text \<open>\<^verbatim>\<open>url.Parse\<close>; the error is \<open>None\<close>.\<close>

definition url_Parse :: "bytes \<Rightarrow> url option" where
  "url_Parse raw =
     (case Cut raw (CHR ''#'') of (u, frag, _) \<Rightarrow>
        (case parse_url u of
           None \<Rightarrow> None
         | Some v \<Rightarrow> if frag = [] then Some v else map_option (\<lambda>f. v\<lparr>Fragment := f\<rparr>) (url_unescape frag encodeFragment)))"

section \<open>Printing\<close>

definition Userinfo_String :: "bytes \<times> bytes option \<Rightarrow> bytes" where
  "Userinfo_String ui =
     (case ui of (name, password) \<Rightarrow>
        url_escape name encodeUserPassword
        @ (case password of None \<Rightarrow> [] | Some p \<Rightarrow> '':'' @ url_escape p encodeUserPassword))"

text \<open>
  \<^verbatim>\<open>URL.String()\<close> for a URL with a host, a path that starts with a slash and neither opaque part nor
  fragment, which is the only kind the program prints.
\<close>

definition url_String :: "url \<Rightarrow> bytes" where
  "url_String u =
     (if Scheme u = [] then [] else Scheme u @ '':'')
     @ ''//'' @ (case User u of None \<Rightarrow> [] | Some ui \<Rightarrow> Userinfo_String ui @ ''@'')
     @ url_escape (Host u) encodeHost @ url_escape (URLPath u) encodePath
     @ (if ForceQuery u \<or> RawQuery u \<noteq> [] then ''?'' @ RawQuery u else [])"

definition JoinHostPort :: "bytes \<Rightarrow> bytes \<Rightarrow> bytes" where
  "JoinHostPort host port =
     (if CHR '':'' \<in> set host then ''['' @ host @ '']:'' @ port else host @ '':'' @ port)"

section \<open>Escaping and its inverse\<close>

lemma hex_value_upper_hex: "n < 16 \<Longrightarrow> hex_value (upper_hex n) = Some n"
  by (auto simp: hex_value_def upper_hex_def is_digit_def)

lemma byte_nibbles: "(of_char c :: nat) div 16 < 16" "char_of (16 * (of_char c div 16) + of_char c mod 16 :: nat) = c"
proof -
  have "(of_char c :: nat) < 256" by simp
  then show "(of_char c :: nat) div 16 < 16" by linarith
  show "char_of (16 * (of_char c div 16) + of_char c mod 16 :: nat) = c" by simp
qed

text \<open>What needs no escape: letters, digits and some marks.\<close>

lemma kept_chars:
  assumes "\<not> shouldEscape c m"
  shows "is_alnum c \<or> c \<in> set ''-_.~'' \<or> c \<in> set ''$&+,/:;=?@'' \<or>
    (m = encodeHost \<or> m = encodeZone) \<and> c \<in> set ([CHR 0x22] @ ''!$&()*+,;=:[]<>'' @ [CHR 0x27]) \<or>
    m = encodeFragment \<and> c \<in> set ''!()*''"
proof -
  have "\<not> (if a then False else if b then False else if d then False else if e then x else if f then False else True) \<Longrightarrow>
    a \<or> d \<or> e \<or> b \<or> f" for a b d e f x by (auto split: if_splits)
  from this [OF assms [unfolded shouldEscape_def]] show ?thesis .
qed

lemma percent_escaped: "shouldEscape (CHR ''%'') m"
  by (simp add: shouldEscape_def is_alnum_def is_lower_def is_upper_def is_digit_def)

text \<open>The bytes that survive a round trip in a mode.\<close>

definition escapable :: "mode \<Rightarrow> char \<Rightarrow> bool" where
  "escapable m c =
     (m \<in> {encodePath, encodeUserPassword} \<or>
      m = encodeHost \<and> (\<not> shouldEscape c encodeHost \<or> \<not> is_ascii c \<or> c = CHR ''%''))"

lemma unescape_escape_byte:
  assumes "escapable m c"
  shows "url_unescape (escape_byte m c @ t) m = map_option (\<lambda>r. c # r) (url_unescape t m)"
proof (cases "shouldEscape c m")
  case True
  have m: "m \<noteq> encodeQueryComponent" using assms by (auto simp: escapable_def)
  have "escape_allowed m (of_char c div 16) (of_char c mod 16)"
    using assms True by (auto simp: escape_allowed_def escapable_def is_ascii_def)
  then show ?thesis
    using True m hex_value_upper_hex [OF byte_nibbles(1) [of c]] hex_value_upper_hex [of "of_char c mod 16"] byte_nibbles(2) [of c]
    by (simp add: escape_byte_def)
next
  case False
  then have "c \<noteq> CHR ''%''" using percent_escaped by auto
  moreover have "m \<noteq> encodeQueryComponent" using assms by (auto simp: escapable_def)
  ultimately show ?thesis using False by (auto simp: escape_byte_def)
qed

lemma url_unescape_escape: "list_all (escapable m) s \<Longrightarrow> url_unescape (url_escape s m) m = Some s"
proof (induction s)
  case (Cons c s)
  then show ?case using unescape_escape_byte [of m c "url_escape s m"] by (simp add: url_escape_def)
qed (simp add: url_escape_def)

lemma escapable_any [simp]: "list_all (escapable encodePath) s" "list_all (escapable encodeUserPassword) s"
  by (simp_all add: escapable_def list_all_iff)

lemma upper_hex_chars: "n < 16 \<Longrightarrow> upper_hex n \<in> set ''0123456789ABCDEF''"
proof -
  assume "n < 16"
  moreover have "list_all (\<lambda>n. upper_hex n \<in> set ''0123456789ABCDEF'') [0..<16]" by code_simp
  ultimately show ?thesis by (simp add: list_all_iff)
qed

text \<open>What printing in a mode can contain: escape triples and bytes that need no escape.\<close>

lemma escape_chars:
  assumes "x \<in> set (url_escape s m)" "m \<noteq> encodeQueryComponent"
  shows "x \<in> set ''%0123456789ABCDEF'' \<or> x \<in> set s \<and> \<not> shouldEscape x m"
proof -
  from assms(1) obtain c where c: "c \<in> set s" "x \<in> set (escape_byte m c)" by (auto simp: url_escape_def)
  then consider "x = CHR ''%''" | "x = upper_hex (of_char c div 16)" | "x = upper_hex (of_char c mod 16)"
    | "x = c" "\<not> shouldEscape c m"
    using assms(2) by (auto simp: escape_byte_def split: if_splits)
  then show ?thesis
  proof cases
    case 2
    then show ?thesis using upper_hex_chars [OF byte_nibbles(1) [of c]] by auto
  next
    case 3
    then show ?thesis using upper_hex_chars [of "of_char c mod 16"] by auto
  qed (use c(1) in auto)
qed

lemma escape_free:
  assumes "shouldEscape x m" "m \<noteq> encodeQueryComponent" "x \<notin> set ''%0123456789ABCDEF''" shows "x \<notin> set (url_escape s m)"
  using escape_chars [of x s m] assms by auto

lemma escape_id: "list_all (\<lambda>c. \<not> shouldEscape c m) s \<Longrightarrow> m \<noteq> encodeQueryComponent \<Longrightarrow> url_escape s m = s"
  by (induction s) (auto simp: url_escape_def escape_byte_def)

lemma escaped_reserved:
  "shouldEscape (CHR ''#'') m" "shouldEscape (CHR ''?'') encodePath" "shouldEscape (CHR ''?'') encodeUserPassword"
  "shouldEscape (CHR ''?'') encodeHost" "shouldEscape (CHR ''@'') encodeUserPassword" "shouldEscape (CHR ''/'') encodeUserPassword"
  "shouldEscape (CHR '':'') encodeUserPassword" "shouldEscape (CHR ''@'') encodeHost" "shouldEscape (CHR ''/'') encodeHost"
  by (simp_all add: shouldEscape_def is_alnum_def is_lower_def is_upper_def is_digit_def)

lemma control_escaped: assumes "is_control c" shows "shouldEscape c m"
proof (rule ccontr)
  have "list_all (\<lambda>c. \<not> is_control c) (''-_.~'' @ ''$&+,/:;=?@'' @ ([CHR 0x22] @ ''!$&()*+,;=:[]<>'' @ [CHR 0x27]) @ ''!()*'')"
    by code_simp
  then have "c \<notin> set (''-_.~'' @ ''$&+,/:;=?@'' @ ([CHR 0x22] @ ''!$&()*+,;=:[]<>'' @ [CHR 0x27]) @ ''!()*'')"
    using assms by (auto simp only: list_all_iff)
  moreover have "\<not> is_alnum c"
    using assms by (auto simp: is_control_def is_alnum_def is_lower_def is_upper_def is_digit_def)
  moreover assume "\<not> shouldEscape c m"
  ultimately show False using kept_chars [of c m] unfolding set_append by blast
qed

lemma escape_no_control:
  assumes "m \<noteq> encodeQueryComponent" "c \<in> set (url_escape s m)" shows "\<not> is_control c"
  using escape_chars [OF assms(2,1)] control_escaped [of c m] by (auto simp: is_control_def)

section \<open>Parsing what was printed\<close>

lemma cut_last_found: "c \<notin> set b \<Longrightarrow> cut_last c (a @ c # b) = Some (a, b)"
  using Cut_found [of c "rev b" "rev a"] by (simp add: cut_last_def)

lemma cut_last_absent: "c \<notin> set s \<Longrightarrow> cut_last c s = None"
  using Cut_absent [of c "rev s"] by (simp add: cut_last_def)

lemma validUserinfo_escape: "validUserinfo (url_escape s encodeUserPassword)"
proof -
  define ok where "ok c \<longleftrightarrow> is_alnum c \<or> c \<in> set (''-._:~!$&()*+,;=%@'' @ [CHR 0x27])" for c
  have lits: "list_all ok (''-_.~'' @ ''$&+,:;=@'' @ ''%0123456789ABCDEF'')" unfolding ok_def by code_simp
  have "ok c" if c: "c \<in> set (url_escape s encodeUserPassword)" for c
  proof (cases "c \<in> set ''%0123456789ABCDEF''")
    case True
    then show ?thesis using lits by (auto simp only: list_all_iff set_append)
  next
    case False
    then have k: "\<not> shouldEscape c encodeUserPassword" using escape_chars [OF c] by blast
    then have "c \<noteq> CHR ''/'' \<and> c \<noteq> CHR ''?''" using escaped_reserved by auto
    with kept_chars [OF k] have "is_alnum c \<or> c \<in> set (''-_.~'' @ ''$&+,:;=@'')" by auto
    then show ?thesis using lits unfolding list_all_iff set_append by (auto simp only: ok_def)
  qed
  then have "is_alnum c \<or> c \<in> set (''-._:~!$&()*+,;=%@'' @ [CHR 0x27])" if "c \<in> set (url_escape s encodeUserPassword)" for c
    using that ok_def by blast
  then show ?thesis by (simp add: validUserinfo_def list_all_iff)
qed

lemma parse_userinfo_String: "parse_userinfo (Userinfo_String (n, Some p)) = Some (n, Some p)"
proof -
  have "CHR '':'' \<notin> set (url_escape n encodeUserPassword)" by (rule escape_free) (simp_all add: escaped_reserved)
  then have "Cut (url_escape n encodeUserPassword @ CHR '':'' # url_escape p encodeUserPassword) (CHR '':'') =
      (url_escape n encodeUserPassword, url_escape p encodeUserPassword, True)" by (rule Cut_found)
  moreover have "validUserinfo (url_escape n encodeUserPassword @ CHR '':'' # url_escape p encodeUserPassword)"
    using validUserinfo_escape [of n] validUserinfo_escape [of p] by (simp add: validUserinfo_def)
  ultimately show ?thesis by (simp add: parse_userinfo_def Userinfo_String_def url_unescape_escape)
qed

lemma scheme_prefix_found:
  "list_all (\<lambda>c. is_alnum c \<and> c \<noteq> CHR '':'') p \<Longrightarrow> scheme_prefix (p @ CHR '':'' # t) = Some p"
  by (induction p) auto

lemma getScheme_found:
  assumes "list_all is_lower sch" "sch \<noteq> []"
  shows "getScheme (sch @ CHR '':'' # t) = Some (sch, t)"
proof -
  obtain c p where s: "sch = c # p" using assms(2) by (cases sch) auto
  have "list_all (\<lambda>c. is_alnum c \<and> c \<noteq> CHR '':'') p" "is_lower c" "c \<noteq> CHR '':''"
    using assms(1) s by (auto simp: list_all_iff is_alnum_def is_lower_def)
  then show ?thesis using scheme_prefix_found [of p t] s by (simp add: getScheme_def)
qed

lemma lower_scheme: "list_all is_lower s \<Longrightarrow> map lower_char s = s"
  by (induction s) (auto simp: lower_char_def is_lower_def is_upper_def)

text \<open>
  A printed URL with credentials parses to itself when its printed host does.
\<close>

lemma url_Parse_String:
  assumes sch: "list_all is_lower (Scheme u)" "Scheme u \<noteq> []"
    and u: "User u = Some (n, Some p)" "Opaque u = []" "Fragment u = []" "ForceQuery u = False"
    and host: "parseHost (url_escape (Host u) encodeHost) = Some (Host u)"
    and path: "URLPath u = CHR ''/'' # pth"
    and q: "RawQuery u \<noteq> []" "CHR ''#'' \<notin> set (RawQuery u)" "\<not> list_ex is_control (RawQuery u)"
  shows "url_Parse (url_String u) = Some u"
proof -
  define ui where "ui = Userinfo_String (n, Some p)"
  define hp where "hp = url_escape (Host u) encodeHost"
  define pe where "pe = url_escape (URLPath u) encodePath"
  have "shouldEscape (CHR ''/'') encodePath = False" by (simp add: shouldEscape_def is_alnum_def is_lower_def is_upper_def is_digit_def)
  then obtain pe' where pe': "pe = CHR ''/'' # pe'" by (auto simp: pe_def path url_escape_def escape_byte_def)
  have str: "url_String u = Scheme u @ CHR '':'' # ''//'' @ ui @ CHR ''@'' # hp @ pe @ CHR ''?'' # RawQuery u"
    using sch(2) u q(1) by (simp add: url_String_def ui_def hp_def pe_def)
  have low: "x \<notin> set (Scheme u)" if "\<not> is_lower x" for x
    using sch(1) that by (auto simp: list_all_iff)
  have fr: "x \<notin> set ui" if "x \<in> set ''#?@/''" for x
    using that by (auto simp: ui_def Userinfo_String_def dest!: escape_chars simp: escaped_reserved)
  have fh: "x \<notin> set hp" if "x \<in> set ''#?@/''" for x
    using that by (auto simp: hp_def dest!: escape_chars simp: escaped_reserved)
  have fp: "x \<notin> set pe" if "x \<in> set ''#?''" for x
    using that by (auto simp: pe_def dest!: escape_chars simp: escaped_reserved)
  have nc: "\<not> list_ex is_control (url_String u)"
  proof -
    have "\<not> is_control x" if "is_lower x" for x using that by (auto simp: is_control_def is_lower_def)
    then have "\<not> list_ex is_control (Scheme u)" using sch(1) by (auto simp: list_ex_iff list_all_iff)
    moreover have "\<not> is_control c" if "c \<in> set (url_escape s m)" "m \<noteq> encodeQueryComponent" for c s m
      using escape_no_control that by blast
    ultimately show ?thesis
      using q(3) unfolding str ui_def hp_def pe_def Userinfo_String_def
      by (auto simp: list_ex_iff is_control_def)
  qed
  have hash: "CHR ''#'' \<notin> set (url_String u)"
    using low [of "CHR ''#''"] fr fh fp q(2) by (simp add: str is_lower_def)
  have star: "url_String u \<noteq> ''*''" using sch by (auto simp: str append_eq_Cons_conv is_lower_def)
  define rest where "rest = ''//'' @ ui @ CHR ''@'' # hp @ pe"
  have scheme: "getScheme (url_String u) = Some (Scheme u, rest @ CHR ''?'' # RawQuery u)"
    using getScheme_found [OF sch] by (simp add: str rest_def)
  have "CHR ''?'' \<notin> set rest" using fr fh fp by (simp add: rest_def)
  then have query: "cut_query (rest @ CHR ''?'' # RawQuery u) = (rest, RawQuery u, False)"
    using q(1) by (simp add: cut_query_def Cut_found)
  have noslash: "\<forall>x \<in> set (ui @ CHR ''@'' # hp). x \<noteq> CHR ''/''" using fr fh by auto
  have auth: "takeWhile (\<lambda>c. c \<noteq> CHR ''/'') ((ui @ CHR ''@'' # hp) @ pe) = ui @ CHR ''@'' # hp"
    "dropWhile (\<lambda>c. c \<noteq> CHR ''/'') ((ui @ CHR ''@'' # hp) @ pe) = pe"
    using noslash by (simp_all add: pe' takeWhile_append dropWhile_append)
  have "CHR ''@'' \<notin> set hp" using fh by simp
  then have authority: "parseAuthority (ui @ CHR ''@'' # hp) = Some (Some (n, Some p), Host u)"
    using host parse_userinfo_String [of n p] by (simp add: parseAuthority_def cut_last_found ui_def hp_def)
  have "url_unescape pe encodePath = Some (URLPath u)" by (simp add: pe_def url_unescape_escape)
  then have "parse_url (url_String u) = Some u"
    using nc star scheme query auth authority u sch(2)
    by (simp add: parse_url_def lower_scheme [OF sch(1)] rest_def)
  then show ?thesis using hash by (simp add: url_Parse_def Cut_absent)
qed

section \<open>Hosts\<close>

lemma set_Join: "x \<in> set (Join xs sep) \<Longrightarrow> x \<in> set sep \<or> (\<exists>y \<in> set xs. x \<in> set y)"
  by (induction xs sep rule: Join.induct) auto

definition address_char :: "char \<Rightarrow> bool" where
  "address_char c \<longleftrightarrow> hex_value c \<noteq> None \<or> c = CHR ''.'' \<or> c = CHR '':''"

lemma is_ipv4_chars: "is_ipv4 s \<Longrightarrow> x \<in> set s \<Longrightarrow> is_digit x \<or> x = CHR ''.''"
proof -
  assume a: "is_ipv4 s" "x \<in> set s"
  have "x \<in> set (Join (Split s ''.'') ''.'')" using a(2) by simp
  from set_Join [OF this] a(1) show ?thesis by (auto simp: is_ipv4_def Let_def ipv4_field_def list_all_iff)
qed

lemma digit_address_char: "is_digit x \<Longrightarrow> address_char x"
  by (simp add: address_char_def hex_value_def)

lemma hex_run_split: "s = hex_run s @ drop (length (hex_run s)) s" "x \<in> set (hex_run s) \<Longrightarrow> address_char x"
proof -
  show "s = hex_run s @ drop (length (hex_run s)) s"
    unfolding hex_run_def by (metis dropWhile_eq_drop takeWhile_dropWhile_id)
  show "x \<in> set (hex_run s) \<Longrightarrow> address_char x"
    by (auto simp: hex_run_def address_char_def dest: set_takeWhileD)
qed

lemma ipv6_groups_chars: "ipv6_groups n dots s \<Longrightarrow> list_all address_char s"
proof (induction n dots s rule: ipv6_groups.induct)
  case (1 n dots s)
  define g where "g = hex_run s"
  define t where "t = drop (length g) s"
  have s: "s = g @ t" "list_all address_char g"
    using hex_run_split(1) [of s] hex_run_split(2) [of _ s] by (auto simp: g_def t_def list_all_iff)
  have colon: "address_char (CHR '':'')" by (simp add: address_char_def)
  note eq = ipv6_groups.simps [of n dots s, unfolded Let_def, folded g_def, folded t_def]
  show ?case
  proof (cases "16 \<le> n")
    case True
    then show ?thesis using "1.prems" by (simp add: eq)
  next
    case n: False
    with "1.prems" have g: "g \<noteq> []" "length g \<le> 4" by (auto simp: eq split: if_splits)
    consider "t = []" | "t \<noteq> []" "hd t = CHR ''.''" | r where "t = CHR '':'' # r" "r \<noteq> []" "hd r \<noteq> CHR '':''"
      | r where "t = CHR '':'' # CHR '':'' # r"
      using "1.prems" n g by (cases t; cases "tl t") (auto simp: eq split: if_splits)
    then show ?thesis
    proof cases
      case 2
      with "1.prems" n g have "is_ipv4 s" by (simp add: eq split: if_splits)
      then show ?thesis using is_ipv4_chars [of s] digit_address_char by (auto simp: list_all_iff address_char_def)
    next
      case 3
      then have "ipv6_groups (n + 2) dots r" using "1.prems" n g by (cases r) (auto simp: eq split: if_splits)
      with "1.IH"(2) [OF n g_def t_def] 3 g have "list_all address_char r" by (cases r) auto
      then show ?thesis using s 3 colon by simp
    next
      case 4
      show ?thesis
      proof (cases "r = []")
        case False
        then have "ipv6_groups (n + 2) True r" "\<not> dots" using "1.prems" n g 4 by (auto simp: eq split: if_splits)
        with "1.IH"(1) [OF n g_def t_def] 4 g False have "list_all address_char r" by auto
        then show ?thesis using s 4 colon by simp
      qed (use s 4 colon in simp)
    qed (use s in simp)
  qed
qed

lemma is_ipv6_chars: "is_ipv6 s \<Longrightarrow> CHR ''%'' \<notin> set s \<Longrightarrow> list_all address_char s"
proof -
  assume a: "is_ipv6 s" "CHR ''%'' \<notin> set s"
  then have "if HasPrefix s ''::'' then drop 2 s = [] \<or> ipv6_groups 0 True (drop 2 s) else ipv6_groups 0 False s"
    by (simp add: is_ipv6_def Cut_absent)
  then show ?thesis
    using ipv6_groups_chars by (auto simp: HasPrefix_iff address_char_def split: if_splits)
qed

text \<open>An address with a colon that \<^verbatim>\<open>ParseIP\<close> accepts is an IPv6 address without zone.\<close>

lemma ParseIP_colon:
  assumes "ParseIP h" "CHR '':'' \<in> set h"
  shows "is_ipv6 h \<and> CHR ''%'' \<notin> set h \<and> list_all address_char h"
proof -
  have "\<not> is_ipv4 h" using is_ipv4_chars [of h "CHR '':''"] assms(2) by (auto simp: is_digit_def)
  then show ?thesis using assms(1) is_ipv6_chars [of h] by (auto simp: ParseIP_def split: option.splits if_splits)
qed

lemma address_char_kept:
  assumes "address_char c" shows "\<not> shouldEscape c encodeHost" "escapable encodeHost c"
    "c \<notin> {CHR ''['', CHR '']'', CHR ''%''}"
proof -
  have "is_alnum c \<or> c = CHR ''.'' \<or> c = CHR '':''"
    using assms by (auto simp: address_char_def hex_value_def is_alnum_def is_lower_def is_upper_def split: if_splits)
  then show "\<not> shouldEscape c encodeHost" by (auto simp: shouldEscape_def)
  then show "escapable encodeHost c" by (simp add: escapable_def)
  show "c \<notin> {CHR ''['', CHR '']'', CHR ''%''}"
    using assms by (auto simp: address_char_def hex_value_def is_digit_def)
qed

text \<open>A host that the program puts into a URL: a name without reserved bytes, or an address.\<close>

definition url_host :: "bytes \<Rightarrow> bool" where
  "url_host h \<longleftrightarrow>
     (if CHR '':'' \<in> set h then ParseIP h
      else CHR ''['' \<notin> set h \<and> CHR '']'' \<notin> set h \<and> list_all (escapable encodeHost) h)"

lemma escape_append: "url_escape (a @ b) m = url_escape a m @ url_escape b m"
  by (simp add: url_escape_def)

lemma port_facts:
  assumes "list_all is_digit port"
  shows "url_escape (CHR '':'' # port) encodeHost = CHR '':'' # port" "url_unescape (CHR '':'' # port) encodeHost = Some (CHR '':'' # port)"
    "CHR '':'' \<notin> set port" "validOptionalPort (CHR '':'' # port)" "CHR ''['' \<notin> set port" "CHR '']'' \<notin> set (CHR '':'' # port)"
    "list_all (escapable encodeHost) (CHR '':'' # port)"
proof -
  have a: "list_all address_char (CHR '':'' # port)"
    using assms digit_address_char by (auto simp: list_all_iff address_char_def)
  then show e: "url_escape (CHR '':'' # port) encodeHost = CHR '':'' # port"
    using address_char_kept(1) by (intro escape_id) (auto simp: list_all_iff)
  show l: "list_all (escapable encodeHost) (CHR '':'' # port)" using a address_char_kept(2) by (auto simp: list_all_iff)
  show "url_unescape (CHR '':'' # port) encodeHost = Some (CHR '':'' # port)" using url_unescape_escape [OF l] e by simp
  show "CHR '':'' \<notin> set port" "CHR ''['' \<notin> set port" "CHR '']'' \<notin> set (CHR '':'' # port)" "validOptionalPort (CHR '':'' # port)"
    using assms by (auto simp: list_all_iff is_digit_def validOptionalPort_def)
qed

lemma parseHost_JoinHostPort:
  assumes "url_host h" "list_all is_digit port"
  shows "parseHost (url_escape (JoinHostPort h port) encodeHost) = Some (JoinHostPort h port)"
proof (cases "CHR '':'' \<in> set h")
  case False
  note p = port_facts [OF assms(2)]
  have h: "CHR ''['' \<notin> set h" "list_all (escapable encodeHost) h" using assms(1) False by (auto simp: url_host_def)
  have j: "JoinHostPort h port = h @ CHR '':'' # port" using False by (simp add: JoinHostPort_def)
  have e: "url_escape (h @ CHR '':'' # port) encodeHost = url_escape h encodeHost @ CHR '':'' # port"
    using p(1) by (simp add: escape_append)
  have "url_unescape (url_escape (h @ CHR '':'' # port) encodeHost) encodeHost = Some (h @ CHR '':'' # port)"
    using h(2) p(7) by (intro url_unescape_escape) simp
  moreover have "CHR ''['' \<notin> set (url_escape h encodeHost @ CHR '':'' # port)"
    using h(1) p(5) escape_chars [of "CHR ''[''" h encodeHost] by auto
  ultimately show ?thesis using p(3,4) by (simp add: parseHost_def j e cut_last_found)
next
  case True
  note p = port_facts [OF assms(2)]
  from ParseIP_colon [OF _ True] assms(1) True have h: "is_ipv6 h" "CHR ''%'' \<notin> set h" "list_all address_char h"
    by (auto simp: url_host_def)
  have k: "list_all (\<lambda>c. \<not> shouldEscape c encodeHost) h" "list_all (escapable encodeHost) h"
    using h(3) address_char_kept by (auto simp: list_all_iff)
  have br: "\<not> shouldEscape (CHR ''['') encodeHost" "\<not> shouldEscape (CHR '']'') encodeHost" by (simp_all add: shouldEscape_def)
  have j: "JoinHostPort h port = CHR ''['' # (h @ CHR '']'' # (CHR '':'' # port))" using True by (simp add: JoinHostPort_def)
  have "url_escape (JoinHostPort h port) encodeHost = JoinHostPort h port"
    unfolding j using escape_id [OF k(1)] p(1) br
    by (simp add: escape_append url_escape_def escape_byte_def flip: append_Cons)
  moreover have "cut_last (CHR '']'') (CHR ''['' # (h @ CHR '']'' # (CHR '':'' # port))) = Some (CHR ''['' # h, CHR '':'' # port)"
    using cut_last_found [OF p(6), of "CHR ''['' # h"] by simp
  moreover have "\<not> HasPrefix (dropWhile (\<lambda>c. c \<noteq> CHR ''%'') h) ''%25''"
    using h(2) set_dropWhileD [of "CHR ''%''" "\<lambda>c. c \<noteq> CHR ''%''" h] by (auto simp: HasPrefix_iff)
  moreover have "url_unescape h encodeHost = Some h" using url_unescape_escape [OF k(2)] escape_id [OF k(1)] by simp
  ultimately show ?thesis
    using h(1) p(2,4) by (simp add: parseHost_def parse_bracketed_def j Let_def del: url_unescape.simps)
qed

lemma splitHostPort_JoinHostPort:
  assumes "url_host h" "list_all is_digit port"
  shows "splitHostPort (JoinHostPort h port) = (h, port)"
proof (cases "CHR '':'' \<in> set h")
  case False
  then have "\<not> HasPrefix h ''[''" using assms(1) by (auto simp: url_host_def HasPrefix_iff)
  with False show ?thesis
    using port_facts(3,4) [OF assms(2)] by (simp add: splitHostPort_def JoinHostPort_def cut_last_found)
next
  case True
  have "cut_last (CHR '':'') ((''['' @ h @ '']'') @ CHR '':'' # port) = Some (''['' @ h @ '']'', port)"
    using port_facts(3) [OF assms(2)] by (rule cut_last_found)
  moreover have "HasSuffix (''['' @ h @ '']'') '']''" using HasSuffix_append [of "''['' @ h" "'']''"] by simp
  ultimately show ?thesis
    using True port_facts(4) [OF assms(2)] by (simp add: splitHostPort_def JoinHostPort_def)
qed

end
