(* ===== verification/Go_Duration.thy ===== *)
theory Go_Duration
  imports Ratelimit
begin

text \<open>
  Go's \<^verbatim>\<open>time.ParseDuration\<close>, which reads the timeouts of the configuration: a sequence of decimal
  numbers with units. The digits are accumulated in 64-bit unsigned integers with the overflow
  checks of the code; a fraction is scaled in binary64, with the rounding of \<^const>\<open>fl\<close>.
\<close>

text \<open>\<^verbatim>\<open>leadingInt\<close>: the leading digits and the rest; \<open>None\<close> is the overflow error.\<close>

fun leading_int :: "int \<Rightarrow> bytes \<Rightarrow> (int \<times> bytes) option" where
  "leading_int x [] = Some (x, [])"
| "leading_int x (c # s) =
     (if \<not> is_digit c then Some (x, c # s)
      else if x > 2 ^ 63 div 10 then None
      else if 10 * x + digit_val c > 2 ^ 63 then None
      else leading_int (10 * x + digit_val c) s)"

text \<open>\<^verbatim>\<open>leadingFraction\<close>: digits beyond the 64-bit range are dropped.\<close>

fun leading_fraction :: "int \<Rightarrow> real \<Rightarrow> bool \<Rightarrow> bytes \<Rightarrow> int \<times> real \<times> bytes" where
  "leading_fraction x scale over [] = (x, scale, [])"
| "leading_fraction x scale over (c # s) =
     (if \<not> is_digit c then (x, scale, c # s)
      else if over \<or> x > (2 ^ 63 - 1) div 10 \<or> 10 * x + digit_val c > 2 ^ 63 then leading_fraction x scale True s
      else leading_fraction (10 * x + digit_val c) (fl (scale * 10)) False s)"

lemma leading_int_le: "leading_int x s = Some (v, t) \<Longrightarrow> length t \<le> length s"
  by (induction x s rule: leading_int.induct) (auto split: if_splits)

lemma leading_fraction_le: "leading_fraction x sc ov s = (v, sc', t) \<Longrightarrow> length t \<le> length s"
  by (induction x sc ov s rule: leading_fraction.induct) (auto split: if_splits)

definition duration_units :: "(bytes \<times> int) list" where
  "duration_units =
     [(''ns'', 1), (''us'', 1000), ([CHR 0xC2, CHR 0xB5] @ ''s'', 1000), ([CHR 0xCE, CHR 0xBC] @ ''s'', 1000),
      (''ms'', 1000000), (''s'', 1000000000), (''m'', 60000000000), (''h'', 3600000000000)]"

definition unit_char :: "char \<Rightarrow> bool" where
  "unit_char c = (\<not> (c = CHR ''.'' \<or> is_digit c))"

text \<open>One number with its unit, in nanoseconds, and the rest of the text.\<close>

definition duration_item :: "bytes \<Rightarrow> (int \<times> bytes) option" where
  "duration_item s =
     (if s = [] \<or> unit_char (hd s) then None
      else (case leading_int 0 s of
          None \<Rightarrow> None
        | Some (v, s1) \<Rightarrow>
            let (f, scale, s2) = (if s1 \<noteq> [] \<and> hd s1 = CHR ''.'' then leading_fraction 0 1 False (tl s1) else (0, 1, s1));
                pre = (length s1 \<noteq> length s);
                post = (s1 \<noteq> [] \<and> hd s1 = CHR ''.'' \<and> length s2 \<noteq> length (tl s1));
                name = takeWhile unit_char s2; rest = dropWhile unit_char s2 in
            if \<not> pre \<and> \<not> post then None
            else (case map_of duration_units name of
                None \<Rightarrow> None
              | Some u \<Rightarrow>
                  if v > 2 ^ 63 div u then None
                  else let v' = v * u + (if f > 0 then \<lfloor>fl (fl (of_int f) * fl (fl (of_int u) / scale))\<rfloor> else 0) in
                    if v' > 2 ^ 63 then None else Some (v', rest))))"

lemma duration_item_shorter: "duration_item s = Some (v, t) \<Longrightarrow> length t < length s"
proof -
  assume a: "duration_item s = Some (v, t)"
  then obtain v0 s1 where s1: "leading_int 0 s = Some (v0, s1)" "s \<noteq> []"
    by (auto simp: duration_item_def split: if_splits option.splits)
  define f where "f = (if s1 \<noteq> [] \<and> hd s1 = CHR ''.'' then leading_fraction 0 1 False (tl s1) else (0, 1, s1))"
  obtain x sc s2 where f: "f = (x, sc, s2)" by (metis prod_cases3)
  have "length s2 \<le> length s1"
    using f leading_fraction_le [of 0 1 False "tl s1" x sc s2] by (auto simp: f_def split: if_splits)
  with leading_int_le [OF s1(1)] have le: "length s2 \<le> length s" by simp
  from a s1 have t: "t = dropWhile unit_char s2" "map_of duration_units (takeWhile unit_char s2) \<noteq> None"
    unfolding duration_item_def f_def [symmetric] f
    by (auto simp: f_def [symmetric] f Let_def split: if_splits option.splits)
  have "map_of duration_units [] = None" by (simp add: duration_units_def)
  with t(2) have "takeWhile unit_char s2 \<noteq> []" by metis
  then have "length t < length s2"
    using t(1) by (metis length_append length_greater_0_conv less_add_same_cancel2 takeWhile_dropWhile_id)
  with le show ?thesis by simp
qed

text \<open>
  The loop; the sum is a 64-bit unsigned integer, so the largest value twice wraps to zero before
  the check.
\<close>

function sum_items :: "int \<Rightarrow> bytes \<Rightarrow> int option" where
  "sum_items d s =
     (if s = [] then Some d
      else (case duration_item s of
          None \<Rightarrow> None
        | Some (v, t) \<Rightarrow> let d' = (d + v) mod 2 ^ 64 in if d' > 2 ^ 63 then None else sum_items d' t))"
  by pat_completeness auto
termination
  by (relation "measure (\<lambda>(d, s). length s)") (auto dest: duration_item_shorter)

declare sum_items.simps [simp del]

definition ParseDuration :: "bytes \<Rightarrow> int option" where
  "ParseDuration s =
     (case split_sign s of (neg, t) \<Rightarrow>
        if t = ''0'' then Some 0
        else if t = [] then None
        else (case sum_items 0 t of
            None \<Rightarrow> None
          | Some d \<Rightarrow> if neg then Some (- d) else if d > 2 ^ 63 - 1 then None else Some d))"

lemma sum_items_range: "0 \<le> d \<Longrightarrow> d \<le> 2 ^ 63 \<Longrightarrow> sum_items d s = Some r \<Longrightarrow> 0 \<le> r \<and> r \<le> 2 ^ 63"
proof (induction d s rule: sum_items.induct)
  case (1 d s)
  show ?case
  proof (cases "s = []")
    case True
    then show ?thesis using 1 by (simp add: sum_items.simps)
  next
    case False
    with 1(4) obtain v t where i: "duration_item s = Some (v, t)" "(d + v) mod 2 ^ 64 \<le> 2 ^ 63"
      "sum_items ((d + v) mod 2 ^ 64) t = Some r"
      by (subst (asm) sum_items.simps) (auto simp: Let_def split: option.splits if_splits)
    then show ?thesis using 1(1) [OF False i(1) refl refl] by simp
  qed
qed

text \<open>A parsed duration fits in 64 bits.\<close>

lemma ParseDuration_range: "ParseDuration s = Some d \<Longrightarrow> - (2 ^ 63) \<le> d \<and> d < 2 ^ 63"
proof -
  assume a: "ParseDuration s = Some d"
  obtain neg t where st: "split_sign s = (neg, t)" by fastforce
  show ?thesis
  proof (cases "t = ''0''")
    case True
    then show ?thesis using a st by (simp add: ParseDuration_def)
  next
    case False
    with a st obtain r where r: "sum_items 0 t = Some r" "d = (if neg then - r else r)" "neg \<or> r < 2 ^ 63"
      by (auto simp: ParseDuration_def split: if_splits option.splits)
    then show ?thesis using sum_items_range [OF _ _ r(1)] by auto
  qed
qed

end
