(* ===== verification/Config.thy ===== *)
theory Config
  imports Go_Url Go_Duration Http_Middleware
begin

text \<open>
  The package \<^verbatim>\<open>src/internal/platform/config\<close>: \<^verbatim>\<open>config.go\<close>, \<^verbatim>\<open>database.go\<close> and \<^verbatim>\<open>pool.go\<close>. The process
  environment is a function from names to values, with the empty string for an unset variable,
  which is what \<^verbatim>\<open>os.Getenv\<close> returns. Durations are nanoseconds, log levels are the numbers of
  \<^verbatim>\<open>log/slog\<close>. A \<^verbatim>\<open>(T, error)\<close> result is a sum.
\<close>

type_synonym environment = "string \<Rightarrow> string"

section \<open>Data\<close>

record DatabasePool =
  MaxConns :: int
  MinConns :: int
  ConnectTimeout :: int
  ProbeTimeout :: int
  MaxConnLifetime :: int
  MaxConnIdleTime :: int
  StatementTimeout :: int

record config =
  cfg_runtime :: string
  Environment :: string
  HTTPAddress :: string
  DatabaseURL :: string
  Database_Pool :: DatabasePool
  ElasticsearchURL :: string
  OutboxPollInterval :: int
  ShutdownTimeout :: int
  LogLevel :: int
  HTTPReadHeaderTimeout :: int
  HTTPReadTimeout :: int
  HTTPWriteTimeout :: int
  HTTPIdleTimeout :: int
  HTTPMaxHeaderBytes :: int
  OTLPEndpoint :: string
  HTTPRequestTimeout :: int
  CORSOrigins :: string
  HTTPRatePerSecond :: int
  HTTPRateBurst :: int

abbreviation API :: string where "API \<equiv> ''api''"
abbreviation Indexer :: string where "Indexer \<equiv> ''indexer''"
abbreviation Worker :: string where "Worker \<equiv> ''worker''"

definition usesHTTP :: "string \<Rightarrow> bool" where
  "usesHTTP r = (r = '''' \<or> r = API)"

definition usesSearch :: "string \<Rightarrow> bool" where
  "usesSearch r = (r \<noteq> Worker)"

definition usesOutbox :: "string \<Rightarrow> bool" where
  "usesOutbox r = (r = '''' \<or> r = Indexer)"

abbreviation second :: int where "second \<equiv> 1000000000"
abbreviation minute :: int where "minute \<equiv> 60000000000"
abbreviation millisecond :: int where "millisecond \<equiv> 1000000"

section \<open>Single settings\<close>

text \<open>\<^verbatim>\<open>strings.Trim(s, cutset)\<close>.\<close>

definition Trim :: "bytes \<Rightarrow> bytes \<Rightarrow> bytes" where
  "Trim s cutset = rev (dropWhile (\<lambda>c. c \<in> set cutset) (rev (dropWhile (\<lambda>c. c \<in> set cutset) s)))"

definition validPort :: "string \<Rightarrow> bool" where
  "validPort raw =
     (if raw = '''' \<or> Trim raw ''0123456789'' \<noteq> '''' then False
      else (case Atoi raw of None \<Rightarrow> False | Some port \<Rightarrow> 0 < port \<and> port \<le> 65535))"

definition validURL :: "string \<Rightarrow> string list \<Rightarrow> bool" where
  "validURL raw schemes =
     (case url_Parse raw of
        None \<Rightarrow> False
      | Some u \<Rightarrow>
          if Hostname u = '''' \<or> Fragment u \<noteq> '''' then False
          else if HasSuffix (Host u) '':'' \<or> Port u \<noteq> '''' \<and> \<not> validPort (Port u) then False
          else list_ex (\<lambda>scheme. Scheme u = scheme) schemes)"

definition setting :: "environment \<Rightarrow> string \<Rightarrow> string \<Rightarrow> string" where
  "setting env key fallback = (if env key \<noteq> '''' then env key else fallback)"

definition duration :: "environment \<Rightarrow> string \<Rightarrow> int \<Rightarrow> gerror + int" where
  "duration env key fallback =
     (if env key = '''' then Inr fallback
      else (case ParseDuration (env key) of
          None \<Rightarrow> Inl (NewErr (key @ '' must be a valid duration such as 1s or 500ms''))
        | Some parsed \<Rightarrow>
            if parsed \<le> 0 then Inl (NewErr (key @ '' must be positive'')) else Inr parsed))"

text \<open>\<^verbatim>\<open>net.SplitHostPort\<close>; \<open>None\<close> is an error.\<close>

definition SplitHostPort :: "string \<Rightarrow> (string \<times> string) option" where
  "SplitHostPort hp =
     (case cut_last (CHR '':'') hp of
        None \<Rightarrow> None
      | Some (before, port) \<Rightarrow>
          if hd hp = CHR ''['' then
            (case Cut hp (CHR '']'') of (a, b, found) \<Rightarrow>
               if \<not> found \<or> length (a @ '']'') \<noteq> length before then None
               else if CHR ''['' \<in> set (tl hp) \<or> CHR '']'' \<in> set b then None
               else Some (tl a, port))
          else if CHR '':'' \<in> set before \<or> CHR ''['' \<in> set hp \<or> CHR '']'' \<in> set hp then None
          else Some (before, port))"

section \<open>database.go\<close>

definition host_forbidden :: string where
  "host_forbidden = ''/?#@[] '' @ [CHR 0x5C] @ '' '' @ [CHR 0x09, CHR 0x0D, CHR 0x0A]"

definition sslmodes :: "string list" where
  "sslmodes = [''disable'', ''allow'', ''prefer'', ''require'', ''verify-ca'', ''verify-full'']"

text \<open>\<^verbatim>\<open>url.Values{"sslmode": {mode}}.Encode()\<close>.\<close>

definition encode_sslmode :: "string \<Rightarrow> string" where
  "encode_sslmode mode = url_escape ''sslmode'' encodeQueryComponent @ ''='' @ url_escape mode encodeQueryComponent"

text \<open>The first required setting that is blank.\<close>

definition missing_setting :: "environment \<Rightarrow> string \<Rightarrow> string option" where
  "missing_setting env pfx =
     find (\<lambda>key. TrimSpace (env key) = '''') (map (\<lambda>suffix. pfx @ suffix) [''HOST'', ''NAME'', ''USER''])"

definition connectionURL :: "environment \<Rightarrow> string \<Rightarrow> gerror + string" where
  "connectionURL env pfx =
     (if env (pfx @ ''URL'') \<noteq> '''' then Inr (env (pfx @ ''URL''))
      else if list_all (\<lambda>key. env (pfx @ key) = '''') [''HOST'', ''PORT'', ''NAME'', ''USER'', ''PASSWORD'', ''SSLMODE'']
        then Inr ''''
      else (case missing_setting env pfx of
          Some key \<Rightarrow> Inl (NewErr (key @ '' is required when using split database settings''))
        | None \<Rightarrow>
            let host = env (pfx @ ''HOST''); port = setting env (pfx @ ''PORT'') ''5432'';
                sslmode = setting env (pfx @ ''SSLMODE'') ''verify-full'' in
            if ContainsAny host host_forbidden \<or> (Contains host '':'' \<and> \<not> ParseIP host)
              then Inl (NewErr (pfx @ ''HOST must be a hostname or IP without a port''))
            else if \<not> validPort port then Inl (NewErr (pfx @ ''PORT must be between 1 and 65535''))
            else if sslmode \<notin> set sslmodes
              then Inl (NewErr (pfx @ ''SSLMODE must be disable, allow, prefer, require, verify-ca or verify-full''))
            else Inr (url_String (no_url\<lparr>Scheme := ''postgres'', Host := JoinHostPort host port,
              User := Some (env (pfx @ ''USER''), Some (env (pfx @ ''PASSWORD''))),
              URLPath := ''/'' @ env (pfx @ ''NAME''), RawQuery := encode_sslmode sslmode\<rparr>))))"

definition databaseURL :: "environment \<Rightarrow> gerror + string" where
  "databaseURL env = connectionURL env ''DATABASE_''"

definition MigrationURL :: "environment \<Rightarrow> gerror + string" where
  "MigrationURL env = connectionURL env ''MIGRATION_DATABASE_''"

section \<open>pool.go\<close>

definition pool_count :: "environment \<Rightarrow> string \<Rightarrow> string \<Rightarrow> gerror + int" where
  "pool_count env key fallback =
     (case ParseInt 32 (setting env key fallback) of
        None \<Rightarrow> Inl (NewErr (key @ '' must be a non-negative integer''))
      | Some n \<Rightarrow> if n < 0 then Inl (NewErr (key @ '' must be a non-negative integer'')) else Inr n)"

definition loadDatabasePool :: "environment \<Rightarrow> gerror + DatabasePool" where
  "loadDatabasePool env =
     bind_sum (pool_count env ''DATABASE_MAX_CONNS'' ''10'') (\<lambda>max_conns.
     bind_sum (pool_count env ''DATABASE_MIN_CONNS'' ''0'') (\<lambda>min_conns.
     if max_conns < 1 \<or> min_conns > max_conns
     then Inl (NewErr ''database pool requires 0 <= min <= max and max > 0'')
     else
       bind_sum (duration env ''DATABASE_CONNECT_TIMEOUT'' (5 * second)) (\<lambda>connect.
       bind_sum (duration env ''DATABASE_PROBE_TIMEOUT'' second) (\<lambda>probe.
       bind_sum (duration env ''DATABASE_MAX_CONN_LIFETIME'' (30 * minute)) (\<lambda>lifetime.
       bind_sum (duration env ''DATABASE_MAX_CONN_IDLE_TIME'' (5 * minute)) (\<lambda>idle.
       bind_sum (duration env ''DATABASE_STATEMENT_TIMEOUT'' (5 * second)) (\<lambda>statement.
       if statement < millisecond then Inl (NewErr ''DATABASE_STATEMENT_TIMEOUT must be at least 1ms'')
       else Inr \<lparr>MaxConns = max_conns, MinConns = min_conns, ConnectTimeout = connect, ProbeTimeout = probe,
                 MaxConnLifetime = lifetime, MaxConnIdleTime = idle, StatementTimeout = statement\<rparr>)))))))"

section \<open>Validate\<close>

definition deployed :: "string \<Rightarrow> bool" where
  "deployed e = (e = ''staging'' \<or> e = ''production'')"

definition local_env :: "string \<Rightarrow> bool" where
  "local_env e = (e = ''development'' \<or> e = ''test'')"

definition valid_address :: "string \<Rightarrow> bool" where
  "valid_address a = (case SplitHostPort a of None \<Rightarrow> False | Some (host, port) \<Rightarrow> validPort port)"

definition valid_origin :: "string \<Rightarrow> bool" where
  "valid_origin origin =
     (case url_Parse origin of
        None \<Rightarrow> False
      | Some u \<Rightarrow> \<not> (\<not> validURL origin [''http'', ''https''] \<or> User u \<noteq> None \<or> URLPath u \<noteq> '''' \<or> RawQuery u \<noteq> ''''
          \<or> Contains origin ''*''))"

text \<open>The origins of the setting: the trimmed, non-empty pieces between commas.\<close>

definition origin_list :: "string \<Rightarrow> string list" where
  "origin_list s = filter (\<lambda>o'. o' \<noteq> '''') (map TrimSpace (Split s '',''))"

definition positive_settings :: "config \<Rightarrow> (string \<times> int \<times> bool) list" where
  "positive_settings c =
     [(''OUTBOX_POLL_INTERVAL'', OutboxPollInterval c, usesOutbox (cfg_runtime c)),
      (''SHUTDOWN_TIMEOUT'', ShutdownTimeout c, True),
      (''HTTP_READ_HEADER_TIMEOUT'', HTTPReadHeaderTimeout c, usesHTTP (cfg_runtime c)),
      (''HTTP_READ_TIMEOUT'', HTTPReadTimeout c, usesHTTP (cfg_runtime c)),
      (''HTTP_WRITE_TIMEOUT'', HTTPWriteTimeout c, usesHTTP (cfg_runtime c)),
      (''HTTP_IDLE_TIMEOUT'', HTTPIdleTimeout c, usesHTTP (cfg_runtime c)),
      (''HTTP_REQUEST_TIMEOUT'', HTTPRequestTimeout c, usesHTTP (cfg_runtime c))]"

text \<open>\<^verbatim>\<open>Validate\<close> returns the first error, \<open>None\<close> when there is none.\<close>

definition Validate :: "config \<Rightarrow> string option" where
  "Validate c =
     (let http = usesHTTP (cfg_runtime c); search = usesSearch (cfg_runtime c) in
      if Environment c \<notin> set [''development'', ''test'', ''staging'', ''production'']
        then Some ''APP_ENV must be development, test, staging or production''
      else if http \<and> HTTPMaxHeaderBytes c \<le> 0 then Some ''HTTP_MAX_HEADER_BYTES must be positive''
      else if http \<and> \<not> valid_address (HTTPAddress c)
        then Some ''HTTP_ADDRESS (or HTTP_PORT) must specify host:port with port between 1 and 65535''
      else if DatabaseURL c = '''' \<and> deployed (Environment c)
        then Some ''DATABASE_URL or DATABASE_HOST/NAME/USER is required in staging and production''
      else if DatabaseURL c \<noteq> '''' \<and> \<not> validURL (DatabaseURL c) [''postgres'', ''postgresql'']
        then Some ''DATABASE_URL must be a postgres or postgresql URL with a host and valid port''
      else if search \<and> ElasticsearchURL c = ''''
        then Some ''ELASTICSEARCH_URL (or SEARCH_URL) is required in staging and production''
      else if search \<and> \<not> validURL (ElasticsearchURL c) [''http'', ''https'']
        then Some ''ELASTICSEARCH_URL (or SEARCH_URL) must be an http or https URL with a host and valid port''
      else if OTLPEndpoint c \<noteq> '''' \<and> \<not> validURL (OTLPEndpoint c) [''http'', ''https'']
        then Some ''OTEL_EXPORTER_OTLP_ENDPOINT must be an http or https URL with a host and valid port''
      else (case find (\<lambda>(key, v, used). used \<and> v \<le> 0) (positive_settings c) of
          Some (key, _) \<Rightarrow> Some (key @ '' must be positive'')
        | None \<Rightarrow>
            if \<not> http then None
            else if HTTPRatePerSecond c \<le> 0 then Some ''HTTP_RATE_PER_SECOND must be positive''
            else if HTTPRateBurst c \<le> 0 then Some ''HTTP_RATE_BURST must be positive''
            else if HTTPRequestTimeout c \<ge> HTTPWriteTimeout c
              then Some ''HTTP_REQUEST_TIMEOUT must be shorter than HTTP_WRITE_TIMEOUT''
            else if \<not> list_all valid_origin (origin_list (CORSOrigins c))
              then Some ''HTTP_CORS_ORIGINS must contain explicit http(s) origins''
            else None))"

section \<open>LoadFor\<close>

definition empty_config :: config where
  "empty_config =
     \<lparr>cfg_runtime = '''', Environment = '''', HTTPAddress = '''', DatabaseURL = '''',
      Database_Pool = \<lparr>MaxConns = 0, MinConns = 0, ConnectTimeout = 0, ProbeTimeout = 0, MaxConnLifetime = 0,
        MaxConnIdleTime = 0, StatementTimeout = 0\<rparr>,
      ElasticsearchURL = '''', OutboxPollInterval = 0, ShutdownTimeout = 0, LogLevel = 0, HTTPReadHeaderTimeout = 0,
      HTTPReadTimeout = 0, HTTPWriteTimeout = 0, HTTPIdleTimeout = 0, HTTPMaxHeaderBytes = 0, OTLPEndpoint = '''',
      HTTPRequestTimeout = 0, CORSOrigins = '''', HTTPRatePerSecond = 0, HTTPRateBurst = 0\<rparr>"

definition integer_setting :: "environment \<Rightarrow> string \<Rightarrow> string \<Rightarrow> gerror + int" where
  "integer_setting env key fallback =
     (case Atoi (setting env key fallback) of
        None \<Rightarrow> Inl (NewErr (key @ '' must be a positive integer'')) | Some n \<Rightarrow> Inr n)"

text \<open>The HTTP settings before the timeouts.\<close>

definition load_http :: "environment \<Rightarrow> config \<Rightarrow> gerror + config" where
  "load_http env cfg =
     bind_sum (integer_setting env ''HTTP_RATE_PER_SECOND'' ''100'') (\<lambda>rps.
     bind_sum (integer_setting env ''HTTP_RATE_BURST'' ''200'') (\<lambda>brst.
     bind_sum (integer_setting env ''HTTP_MAX_HEADER_BYTES'' ''32768'') (\<lambda>bytes.
     if bytes \<le> 0 then Inl (NewErr ''HTTP_MAX_HEADER_BYTES must be a positive integer'')
     else Inr (cfg\<lparr>
       CORSOrigins := setting env ''HTTP_CORS_ORIGINS'' (if local_env (Environment cfg) then ''http://localhost:3000'' else ''''),
       HTTPRatePerSecond := rps, HTTPRateBurst := brst, HTTPMaxHeaderBytes := bytes,
       HTTPAddress := setting env ''HTTP_ADDRESS'' ('':'' @ setting env ''HTTP_PORT'' ''8080'')\<rparr>))))"

definition load_level :: "(bytes \<Rightarrow> bytes) \<Rightarrow> environment \<Rightarrow> config \<Rightarrow> gerror + config" where
  "load_level uni env cfg =
     (let cfg' = (if Environment cfg = ''development'' then cfg\<lparr>LogLevel := -4\<rparr> else cfg); raw = env ''LOG_LEVEL'' in
      if raw = '''' then Inr cfg'
      else if ToLower uni raw = ''debug'' then Inr (cfg'\<lparr>LogLevel := -4\<rparr>)
      else if ToLower uni raw = ''info'' then Inr (cfg'\<lparr>LogLevel := 0\<rparr>)
      else if ToLower uni raw = ''warn'' then Inr (cfg'\<lparr>LogLevel := 4\<rparr>)
      else if ToLower uni raw = ''error'' then Inr (cfg'\<lparr>LogLevel := 8\<rparr>)
      else Inl (NewErr ''LOG_LEVEL must be debug, info, warn or error''))"

definition load_timeouts :: "environment \<Rightarrow> config \<Rightarrow> gerror + config" where
  "load_timeouts env cfg =
     bind_sum (duration env ''HTTP_REQUEST_TIMEOUT'' (8 * second)) (\<lambda>request.
     bind_sum (duration env ''HTTP_READ_HEADER_TIMEOUT'' (5 * second)) (\<lambda>read_header.
     bind_sum (duration env ''HTTP_READ_TIMEOUT'' (10 * second)) (\<lambda>read.
     bind_sum (duration env ''HTTP_WRITE_TIMEOUT'' (15 * second)) (\<lambda>write.
     bind_sum (duration env ''HTTP_IDLE_TIMEOUT'' (60 * second)) (\<lambda>idle.
     Inr (cfg\<lparr>HTTPRequestTimeout := request, HTTPReadHeaderTimeout := read_header, HTTPReadTimeout := read,
       HTTPWriteTimeout := write, HTTPIdleTimeout := idle\<rparr>))))))"

definition load_search :: "environment \<Rightarrow> config \<Rightarrow> gerror + config" where
  "load_search env cfg =
     Inr (cfg\<lparr>ElasticsearchURL := setting env ''ELASTICSEARCH_URL''
       (setting env ''SEARCH_URL'' (if local_env (Environment cfg) then ''http://localhost:9200'' else ''''))\<rparr>)"

definition load_database :: "environment \<Rightarrow> config \<Rightarrow> gerror + config" where
  "load_database env cfg =
     bind_sum (databaseURL env) (\<lambda>db. bind_sum (loadDatabasePool env) (\<lambda>pool.
       Inr (cfg\<lparr>DatabaseURL := db, Database_Pool := pool\<rparr>)))"

definition load_outbox :: "environment \<Rightarrow> config \<Rightarrow> gerror + config" where
  "load_outbox env cfg =
     bind_sum (duration env ''OUTBOX_POLL_INTERVAL'' second) (\<lambda>d. Inr (cfg\<lparr>OutboxPollInterval := d\<rparr>))"

text \<open>A group of settings that only some runtimes load.\<close>

definition only_if :: "bool \<Rightarrow> (config \<Rightarrow> gerror + config) \<Rightarrow> config \<Rightarrow> gerror + config" where
  "only_if used load cfg = (if used then load cfg else Inr cfg)"

definition base_config :: "environment \<Rightarrow> string \<Rightarrow> int \<Rightarrow> config" where
  "base_config env runtime shutdown =
     empty_config\<lparr>cfg_runtime := runtime, Environment := setting env ''APP_ENV'' ''development'',
       ShutdownTimeout := shutdown, OTLPEndpoint := env ''OTEL_EXPORTER_OTLP_ENDPOINT''\<rparr>"

definition LoadFor :: "(bytes \<Rightarrow> bytes) \<Rightarrow> environment \<Rightarrow> string \<Rightarrow> gerror + config" where
  "LoadFor uni env runtime =
     (if runtime \<notin> set ['''', API, Indexer, Worker] then Inl (NewErr ''runtime must be api, indexer or worker'')
      else
        bind_sum (duration env ''SHUTDOWN_TIMEOUT'' (10 * second)) (\<lambda>shutdown.
        bind_sum (only_if (usesHTTP runtime) (load_http env) (base_config env runtime shutdown)) (\<lambda>cfg1.
        bind_sum (load_database env cfg1) (\<lambda>cfg2.
        bind_sum (only_if (usesSearch runtime) (load_search env) cfg2) (\<lambda>cfg3.
        bind_sum (only_if (usesOutbox runtime) (load_outbox env) cfg3) (\<lambda>cfg4.
        bind_sum (load_level uni env cfg4) (\<lambda>cfg5.
        bind_sum (only_if (usesHTTP runtime) (load_timeouts env) cfg5) (\<lambda>cfg6.
        case Validate cfg6 of Some text \<Rightarrow> Inl (NewErr text) | None \<Rightarrow> Inr cfg6))))))))"

definition Load :: "(bytes \<Rightarrow> bytes) \<Rightarrow> environment \<Rightarrow> gerror + config" where
  "Load uni env = LoadFor uni env ''''"

end
