(* ===== verification/Config_Claims.thy ===== *)
theory Config_Claims
  imports Config
begin

text \<open>
  What the configuration guarantees: every configuration that loads satisfies the invariants the
  runtimes rely on, errors never repeat a value of the environment, a runtime ignores the settings
  it does not use, and a database URL built from split settings parses back to those settings.
\<close>

section \<open>A loaded configuration is valid\<close>

definition duration_ok :: "int \<Rightarrow> bool" where
  "duration_ok d \<longleftrightarrow> 0 < d \<and> d < 2 ^ 63"

definition pool_ok :: "DatabasePool \<Rightarrow> bool" where
  "pool_ok p \<longleftrightarrow> 0 \<le> MinConns p \<and> MinConns p \<le> MaxConns p \<and> 1 \<le> MaxConns p \<and> MaxConns p < 2 ^ 31 \<and>
     duration_ok (ConnectTimeout p) \<and> duration_ok (ProbeTimeout p) \<and> duration_ok (MaxConnLifetime p) \<and>
     duration_ok (MaxConnIdleTime p) \<and> duration_ok (StatementTimeout p) \<and> millisecond \<le> StatementTimeout p"

definition http_ok :: "config \<Rightarrow> bool" where
  "http_ok c \<longleftrightarrow> 0 < HTTPMaxHeaderBytes c \<and> HTTPMaxHeaderBytes c < 2 ^ 63 \<and> valid_address (HTTPAddress c) \<and>
     0 < HTTPRatePerSecond c \<and> HTTPRatePerSecond c < 2 ^ 63 \<and> 0 < HTTPRateBurst c \<and> HTTPRateBurst c < 2 ^ 63 \<and>
     duration_ok (HTTPRequestTimeout c) \<and> HTTPRequestTimeout c < HTTPWriteTimeout c \<and>
     duration_ok (HTTPReadHeaderTimeout c) \<and> duration_ok (HTTPReadTimeout c) \<and> duration_ok (HTTPWriteTimeout c) \<and>
     duration_ok (HTTPIdleTimeout c) \<and> list_all valid_origin (origin_list (CORSOrigins c))"

definition config_ok :: "config \<Rightarrow> bool" where
  "config_ok c \<longleftrightarrow>
     Environment c \<in> {''development'', ''test'', ''staging'', ''production''} \<and> duration_ok (ShutdownTimeout c) \<and>
     pool_ok (Database_Pool c) \<and> LogLevel c \<in> {-4, 0, 4, 8} \<and>
     (if DatabaseURL c = '''' then \<not> deployed (Environment c) else validURL (DatabaseURL c) [''postgres'', ''postgresql'']) \<and>
     (OTLPEndpoint c = '''' \<or> validURL (OTLPEndpoint c) [''http'', ''https'']) \<and>
     (usesSearch (cfg_runtime c) \<longrightarrow> validURL (ElasticsearchURL c) [''http'', ''https'']) \<and>
     (usesOutbox (cfg_runtime c) \<longrightarrow> duration_ok (OutboxPollInterval c)) \<and>
     (usesHTTP (cfg_runtime c) \<longrightarrow> http_ok c)"

lemma duration_range: "duration env key f = Inr d \<Longrightarrow> 0 < f \<Longrightarrow> f < 2 ^ 63 \<Longrightarrow> duration_ok d"
  using ParseDuration_range [of "env key"]
  by (auto simp: duration_def duration_ok_def split: if_splits option.splits)



lemma pool_count_range: "pool_count env key f = Inr n \<Longrightarrow> 0 \<le> n \<and> n < 2 ^ 31"
  using ParseInt_range [of 32 "setting env key f"] by (auto simp: pool_count_def split: option.splits if_splits)

lemma loadDatabasePool_ok:
  assumes "loadDatabasePool env = Inr p" shows "pool_ok p"
proof -
  from assms obtain mx mn ct pt lt it st where
    m: "pool_count env ''DATABASE_MAX_CONNS'' ''10'' = Inr mx" "pool_count env ''DATABASE_MIN_CONNS'' ''0'' = Inr mn"
      "\<not> (mx < 1 \<or> mn > mx)"
    and d: "duration env ''DATABASE_CONNECT_TIMEOUT'' (5 * second) = Inr ct" "duration env ''DATABASE_PROBE_TIMEOUT'' second = Inr pt"
      "duration env ''DATABASE_MAX_CONN_LIFETIME'' (30 * minute) = Inr lt"
      "duration env ''DATABASE_MAX_CONN_IDLE_TIME'' (5 * minute) = Inr it"
      "duration env ''DATABASE_STATEMENT_TIMEOUT'' (5 * second) = Inr st" "\<not> st < millisecond"
    and p: "p = \<lparr>MaxConns = mx, MinConns = mn, ConnectTimeout = ct, ProbeTimeout = pt, MaxConnLifetime = lt,
      MaxConnIdleTime = it, StatementTimeout = st\<rparr>"
    unfolding loadDatabasePool_def bind_sum_eq_Inr
    by (elim exE conjE) (auto split: if_splits simp: bind_sum_eq_Inr)
  show ?thesis
    using pool_count_range [OF m(1)] pool_count_range [OF m(2)] m(3) d(6)
      duration_range [OF d(1)] duration_range [OF d(2)] duration_range [OF d(3)] duration_range [OF d(4)] duration_range [OF d(5)]
    by (simp add: pool_ok_def p)
qed

lemma Atoi_range: "Atoi s = Some n \<Longrightarrow> n < 2 ^ 63"
  using ParseInt_range [of 64 s n] by (simp add: Atoi_def)

lemma integer_setting_range: "integer_setting env key f = Inr n \<Longrightarrow> n < 2 ^ 63"
  by (auto simp: integer_setting_def dest: Atoi_range split: option.splits)

text \<open>
  What the stages keep and what they set; \<open>frame\<close> collects the fields that no later stage changes.
\<close>

definition frame :: "config \<Rightarrow> string \<times> string \<times> int \<times> string \<times> int \<times> int \<times> int" where
  "frame c = (cfg_runtime c, Environment c, ShutdownTimeout c, OTLPEndpoint c, HTTPRatePerSecond c, HTTPRateBurst c, HTTPMaxHeaderBytes c)"

lemma load_http_fields:
  assumes "load_http env c = Inr c'"
  shows "HTTPMaxHeaderBytes c' < 2 ^ 63 \<and> HTTPRatePerSecond c' < 2 ^ 63 \<and> HTTPRateBurst c' < 2 ^ 63 \<and>
    cfg_runtime c' = cfg_runtime c \<and> ShutdownTimeout c' = ShutdownTimeout c \<and> LogLevel c' = LogLevel c"
  using assms unfolding load_http_def by (auto split: if_splits dest: integer_setting_range)

lemma load_database_fields:
  "load_database env c = Inr c' \<Longrightarrow> pool_ok (Database_Pool c') \<and> databaseURL env = Inr (DatabaseURL c') \<and>
     frame c' = frame c \<and> LogLevel c' = LogLevel c"
  by (auto simp: load_database_def frame_def dest: loadDatabasePool_ok)

lemma load_search_fields:
  "load_search env c = Inr c' \<Longrightarrow> Database_Pool c' = Database_Pool c \<and> DatabaseURL c' = DatabaseURL c \<and>
     frame c' = frame c \<and> LogLevel c' = LogLevel c"
  by (auto simp: load_search_def frame_def)

lemma load_outbox_fields:
  "load_outbox env c = Inr c' \<Longrightarrow> duration_ok (OutboxPollInterval c') \<and> Database_Pool c' = Database_Pool c \<and>
     DatabaseURL c' = DatabaseURL c \<and> frame c' = frame c \<and> LogLevel c' = LogLevel c"
  by (auto simp: load_outbox_def frame_def dest: duration_range)

lemma load_level_fields:
  assumes "load_level uni env c = Inr c'" "LogLevel c = 0"
  shows "LogLevel c' \<in> {-4, 0, 4, 8}" "Database_Pool c' = Database_Pool c" "DatabaseURL c' = DatabaseURL c" "frame c' = frame c"
    "OutboxPollInterval c' = OutboxPollInterval c"
  using assms unfolding load_level_def Let_def frame_def by (auto split: if_splits)

lemma load_timeouts_fields:
  assumes "load_timeouts env c = Inr c'"
  shows "duration_ok (HTTPRequestTimeout c') \<and> duration_ok (HTTPReadHeaderTimeout c') \<and> duration_ok (HTTPReadTimeout c') \<and>
    duration_ok (HTTPWriteTimeout c') \<and> duration_ok (HTTPIdleTimeout c')"
    and "Database_Pool c' = Database_Pool c \<and> DatabaseURL c' = DatabaseURL c \<and> frame c' = frame c \<and> LogLevel c' = LogLevel c \<and>
      OutboxPollInterval c' = OutboxPollInterval c"
proof -
  from assms obtain a b d e f where
    t: "duration env ''HTTP_REQUEST_TIMEOUT'' (8 * second) = Inr a" "duration env ''HTTP_READ_HEADER_TIMEOUT'' (5 * second) = Inr b"
      "duration env ''HTTP_READ_TIMEOUT'' (10 * second) = Inr d" "duration env ''HTTP_WRITE_TIMEOUT'' (15 * second) = Inr e"
      "duration env ''HTTP_IDLE_TIMEOUT'' (60 * second) = Inr f"
    and c': "c' = c\<lparr>HTTPRequestTimeout := a, HTTPReadHeaderTimeout := b, HTTPReadTimeout := d, HTTPWriteTimeout := e, HTTPIdleTimeout := f\<rparr>"
    unfolding load_timeouts_def bind_sum_eq_Inr by (elim exE conjE) simp
  show "duration_ok (HTTPRequestTimeout c') \<and> duration_ok (HTTPReadHeaderTimeout c') \<and> duration_ok (HTTPReadTimeout c') \<and>
    duration_ok (HTTPWriteTimeout c') \<and> duration_ok (HTTPIdleTimeout c')"
    using duration_range [OF t(1)] duration_range [OF t(2)] duration_range [OF t(3)] duration_range [OF t(4)] duration_range [OF t(5)]
    by (simp add: c')
  show "Database_Pool c' = Database_Pool c \<and> DatabaseURL c' = DatabaseURL c \<and> frame c' = frame c \<and> LogLevel c' = LogLevel c \<and>
      OutboxPollInterval c' = OutboxPollInterval c"
    by (simp add: c' frame_def)
qed

text \<open>A load that succeeds has validated its result.\<close>

lemma LoadFor_stages:
  assumes "LoadFor uni env rt = Inr cfg"
  shows "Validate cfg = None \<and> cfg_runtime cfg = rt \<and> pool_ok (Database_Pool cfg) \<and> duration_ok (ShutdownTimeout cfg) \<and>
    LogLevel cfg \<in> {-4, 0, 4, 8} \<and> databaseURL env = Inr (DatabaseURL cfg) \<and>
    (usesOutbox rt \<longrightarrow> duration_ok (OutboxPollInterval cfg)) \<and>
    (usesHTTP rt \<longrightarrow> HTTPMaxHeaderBytes cfg < 2 ^ 63 \<and> HTTPRatePerSecond cfg < 2 ^ 63 \<and> HTTPRateBurst cfg < 2 ^ 63 \<and>
       duration_ok (HTTPRequestTimeout cfg) \<and> duration_ok (HTTPReadHeaderTimeout cfg) \<and> duration_ok (HTTPReadTimeout cfg) \<and>
       duration_ok (HTTPWriteTimeout cfg) \<and> duration_ok (HTTPIdleTimeout cfg))"
proof -
  from assms obtain sd c1 c2 c3 c4 c5 where
    s: "duration env ''SHUTDOWN_TIMEOUT'' (10 * second) = Inr sd"
    and c1: "only_if (usesHTTP rt) (load_http env) (base_config env rt sd) = Inr c1"
    and c2: "load_database env c1 = Inr c2"
    and c3: "only_if (usesSearch rt) (load_search env) c2 = Inr c3"
    and c4: "only_if (usesOutbox rt) (load_outbox env) c3 = Inr c4"
    and c5: "load_level uni env c4 = Inr c5"
    and c6: "only_if (usesHTTP rt) (load_timeouts env) c5 = Inr cfg" "Validate cfg = None"
    unfolding LoadFor_def by (auto split: if_splits option.splits)
  have base: "cfg_runtime (base_config env rt sd) = rt" "ShutdownTimeout (base_config env rt sd) = sd" "LogLevel (base_config env rt sd) = 0"
    by (simp_all add: base_config_def empty_config_def)
  have 1: "cfg_runtime c1 = rt" "ShutdownTimeout c1 = sd" "LogLevel c1 = 0"
    "usesHTTP rt \<Longrightarrow> HTTPMaxHeaderBytes c1 < 2 ^ 63 \<and> HTTPRatePerSecond c1 < 2 ^ 63 \<and> HTTPRateBurst c1 < 2 ^ 63"
    using c1 base by (auto simp: only_if_def dest!: load_http_fields split: if_splits)
  note 2 = load_database_fields [OF c2]
  have 3: "Database_Pool c3 = Database_Pool c2" "DatabaseURL c3 = DatabaseURL c2" "frame c3 = frame c2" "LogLevel c3 = LogLevel c2"
    using c3 by (auto simp: only_if_def dest!: load_search_fields split: if_splits)
  have 4: "Database_Pool c4 = Database_Pool c3" "DatabaseURL c4 = DatabaseURL c3" "frame c4 = frame c3" "LogLevel c4 = LogLevel c3"
    "usesOutbox rt \<Longrightarrow> duration_ok (OutboxPollInterval c4)"
    using c4 by (auto simp: only_if_def dest!: load_outbox_fields split: if_splits)
  have "LogLevel c4 = 0" using 1 2 3 4 by simp
  note 5 = load_level_fields [OF c5 this]
  have 6: "Database_Pool cfg = Database_Pool c5" "DatabaseURL cfg = DatabaseURL c5" "frame cfg = frame c5" "LogLevel cfg = LogLevel c5"
    "OutboxPollInterval cfg = OutboxPollInterval c5"
    "usesHTTP rt \<Longrightarrow> duration_ok (HTTPRequestTimeout cfg) \<and> duration_ok (HTTPReadHeaderTimeout cfg) \<and> duration_ok (HTTPReadTimeout cfg) \<and>
       duration_ok (HTTPWriteTimeout cfg) \<and> duration_ok (HTTPIdleTimeout cfg)"
    using c6(1) load_timeouts_fields [of env c5 cfg] by (auto simp: only_if_def split: if_splits)
  have fr: "frame cfg = frame c1" using 2 3(3) 4(3) 5(4) 6(3) by simp
  then have "cfg_runtime cfg = rt" "ShutdownTimeout cfg = sd"
    "HTTPMaxHeaderBytes cfg = HTTPMaxHeaderBytes c1" "HTTPRatePerSecond cfg = HTTPRatePerSecond c1" "HTTPRateBurst cfg = HTTPRateBurst c1"
    using 1 by (simp_all add: frame_def)
  then show ?thesis using c6(2) duration_range [OF s] 1(4) 2 3 4 5 6 by simp
qed

lemma Validate_None:
  assumes "Validate c = None"
  shows "Environment c \<in> {''development'', ''test'', ''staging'', ''production''}"
    "if DatabaseURL c = '''' then \<not> deployed (Environment c) else validURL (DatabaseURL c) [''postgres'', ''postgresql'']"
    "OTLPEndpoint c = '''' \<or> validURL (OTLPEndpoint c) [''http'', ''https'']"
    "usesSearch (cfg_runtime c) \<Longrightarrow> validURL (ElasticsearchURL c) [''http'', ''https'']"
    "usesHTTP (cfg_runtime c) \<Longrightarrow> 0 < HTTPMaxHeaderBytes c \<and> valid_address (HTTPAddress c) \<and> 0 < HTTPRatePerSecond c \<and>
       0 < HTTPRateBurst c \<and> HTTPRequestTimeout c < HTTPWriteTimeout c \<and> list_all valid_origin (origin_list (CORSOrigins c))"
  using assms unfolding Validate_def Let_def by (simp_all split: if_splits option.splits prod.splits) blast+

text \<open>
  C26. Every configuration that loads is valid. Whatever the environment, a configuration returned
  for a runtime is for that runtime, in a known environment; its timeouts are positive and fit in
  64 bits, the request timeout is below the write timeout; the connection pool has
  \<open>0 \<le> MinConns \<le> MaxConns\<close> with \<open>1 \<le> MaxConns < 2^31\<close> and a statement timeout of at least a
  millisecond; addresses, URLs and origins are well formed where the runtime uses them, and a
  deployed environment has a database.
\<close>

theorem LoadFor_valid:
  assumes "LoadFor uni env rt = Inr cfg"
  shows "cfg_runtime cfg = rt \<and> config_ok cfg"
proof -
  note s = LoadFor_stages [OF assms]
  note v = Validate_None [OF s [THEN conjunct1]]
  have "usesHTTP rt \<Longrightarrow> http_ok cfg" unfolding http_ok_def using s v(5) by simp
  then show ?thesis unfolding config_ok_def using s v by auto
qed

section \<open>Errors do not repeat values\<close>

definition timeout_keys :: "string list" where
  "timeout_keys = [''SHUTDOWN_TIMEOUT'', ''OUTBOX_POLL_INTERVAL'', ''DATABASE_CONNECT_TIMEOUT'', ''DATABASE_PROBE_TIMEOUT'',
     ''DATABASE_MAX_CONN_LIFETIME'', ''DATABASE_MAX_CONN_IDLE_TIME'', ''DATABASE_STATEMENT_TIMEOUT'', ''HTTP_REQUEST_TIMEOUT'',
     ''HTTP_READ_HEADER_TIMEOUT'', ''HTTP_READ_TIMEOUT'', ''HTTP_WRITE_TIMEOUT'', ''HTTP_IDLE_TIMEOUT'']"

text \<open>All texts an error of a load can have: they name settings and what is expected of them.\<close>

definition config_messages :: "string list" where
  "config_messages =
     map (\<lambda>k. k @ '' must be a valid duration such as 1s or 500ms'') timeout_keys @ map (\<lambda>k. k @ '' must be positive'') timeout_keys @
     map (\<lambda>k. k @ '' must be a positive integer'') [''HTTP_RATE_PER_SECOND'', ''HTTP_RATE_BURST'', ''HTTP_MAX_HEADER_BYTES''] @
     map (\<lambda>k. k @ '' must be a non-negative integer'') [''DATABASE_MAX_CONNS'', ''DATABASE_MIN_CONNS''] @
     map (\<lambda>k. k @ '' is required when using split database settings'') [''DATABASE_HOST'', ''DATABASE_NAME'', ''DATABASE_USER''] @
     map (\<lambda>k. k @ '' must be positive'') [''HTTP_RATE_PER_SECOND'', ''HTTP_RATE_BURST'', ''HTTP_MAX_HEADER_BYTES''] @
     [''runtime must be api, indexer or worker'',
      ''DATABASE_HOST must be a hostname or IP without a port'', ''DATABASE_PORT must be between 1 and 65535'',
      ''DATABASE_SSLMODE must be disable, allow, prefer, require, verify-ca or verify-full'',
      ''database pool requires 0 <= min <= max and max > 0'', ''DATABASE_STATEMENT_TIMEOUT must be at least 1ms'',
      ''LOG_LEVEL must be debug, info, warn or error'', ''APP_ENV must be development, test, staging or production'',
      ''HTTP_ADDRESS (or HTTP_PORT) must specify host:port with port between 1 and 65535'',
      ''DATABASE_URL or DATABASE_HOST/NAME/USER is required in staging and production'',
      ''DATABASE_URL must be a postgres or postgresql URL with a host and valid port'',
      ''ELASTICSEARCH_URL (or SEARCH_URL) is required in staging and production'',
      ''ELASTICSEARCH_URL (or SEARCH_URL) must be an http or https URL with a host and valid port'',
      ''OTEL_EXPORTER_OTLP_ENDPOINT must be an http or https URL with a host and valid port'',
      ''HTTP_REQUEST_TIMEOUT must be shorter than HTTP_WRITE_TIMEOUT'', ''HTTP_CORS_ORIGINS must contain explicit http(s) origins'']"

definition public :: "gerror + 'a \<Rightarrow> bool" where
  "public r \<longleftrightarrow> (\<forall>e. r = Inl e \<longrightarrow> (\<exists>t \<in> set config_messages. e = NewErr t))"

lemma public_bind [intro]: "public m \<Longrightarrow> (\<And>x. m = Inr x \<Longrightarrow> public (k x)) \<Longrightarrow> public (bind_sum m k)"
  by (cases m) (auto simp: public_def)

lemma public_Inr [simp]: "public (Inr x)"
  by (simp add: public_def)

lemma public_Inl: "t \<in> set config_messages \<Longrightarrow> public (Inl (NewErr t))"
  by (simp add: public_def)

lemma public_if [intro]: "(b \<Longrightarrow> public x) \<Longrightarrow> (\<not> b \<Longrightarrow> public y) \<Longrightarrow> public (if b then x else y)"
  by simp

lemma public_option [intro]:
  "(m = None \<Longrightarrow> public y) \<Longrightarrow> (\<And>k. m = Some k \<Longrightarrow> public (f k)) \<Longrightarrow> public (case m of None \<Rightarrow> y | Some k \<Rightarrow> f k)"
  by (cases m) auto

lemma public_duration: "key \<in> set timeout_keys \<Longrightarrow> public (duration env key f)"
  unfolding duration_def by (auto split: option.splits intro!: public_Inl simp: config_messages_def)

lemma public_pool: "public (loadDatabasePool env)"
proof -
  have c: "public (pool_count env key f)" if "key \<in> {''DATABASE_MAX_CONNS'', ''DATABASE_MIN_CONNS''}" for key f
    using that unfolding pool_count_def by (auto split: option.splits intro!: public_Inl simp: config_messages_def)
  have d: "public (duration env key f)" if "key \<in> {''DATABASE_CONNECT_TIMEOUT'', ''DATABASE_PROBE_TIMEOUT'',
     ''DATABASE_MAX_CONN_LIFETIME'', ''DATABASE_MAX_CONN_IDLE_TIME'', ''DATABASE_STATEMENT_TIMEOUT''}" for key f
    using that by (intro public_duration) (auto simp: timeout_keys_def)
  show ?thesis
    unfolding loadDatabasePool_def
    by (intro public_bind public_if public_Inr c d public_Inl) (simp_all add: config_messages_def)
qed

lemma public_databaseURL: "public (databaseURL env)"
proof -
  have "key \<in> set [''DATABASE_HOST'', ''DATABASE_NAME'', ''DATABASE_USER'']" if "missing_setting env ''DATABASE_'' = Some key" for key
    using that by (auto simp: missing_setting_def split: if_splits)
  then have "public (Inl (NewErr (key @ '' is required when using split database settings'')))"
    if "missing_setting env ''DATABASE_'' = Some key" for key
    using that by (intro public_Inl) (auto simp: config_messages_def)
  note key = this
  show ?thesis
    unfolding databaseURL_def connectionURL_def Let_def
    by (intro public_if public_option public_Inr key public_Inl; (assumption | simp add: config_messages_def))
qed

lemma public_stages:
  "public (load_http env c)" "public (load_database env c)" "public (load_search env c)" "public (load_outbox env c)"
  "public (load_level uni env c)" "public (load_timeouts env c)"
proof -
  have i: "public (integer_setting env key f)" if "key \<in> {''HTTP_RATE_PER_SECOND'', ''HTTP_RATE_BURST'', ''HTTP_MAX_HEADER_BYTES''}" for key f
    using that unfolding integer_setting_def by (auto split: option.splits intro!: public_Inl simp: config_messages_def)
  show "public (load_http env c)"
    unfolding load_http_def by (intro public_bind public_if public_Inr i public_Inl) (simp_all add: config_messages_def)
  show "public (load_database env c)"
    unfolding load_database_def by (intro public_bind public_databaseURL public_pool public_Inr)
  show "public (load_search env c)" by (simp add: load_search_def)
  show "public (load_outbox env c)"
    unfolding load_outbox_def by (intro public_bind public_duration public_Inr) (simp add: timeout_keys_def)
  show "public (load_level uni env c)"
    unfolding load_level_def Let_def by (intro public_if public_Inr public_Inl) (simp_all add: config_messages_def)
  show "public (load_timeouts env c)"
    unfolding load_timeouts_def by (intro public_bind public_duration public_Inr) (simp_all add: timeout_keys_def)
qed

section \<open>Groups of settings\<close>

text \<open>Environments that agree on some settings.\<close>

definition agree :: "string list \<Rightarrow> environment \<Rightarrow> environment \<Rightarrow> bool" where
  "agree keys env env' \<longleftrightarrow> (\<forall>k \<in> set keys. env k = env' k)"

lemma agree_append [simp]: "agree (a @ b) env env' \<longleftrightarrow> agree a env env' \<and> agree b env env'"
  by (auto simp: agree_def)

lemma agree_Cons [simp]: "agree (k # ks) env env' \<longleftrightarrow> env k = env' k \<and> agree ks env env'" "agree [] env env'"
  by (auto simp: agree_def)

text \<open>The settings of each group.\<close>

definition connection_keys :: "string \<Rightarrow> string list" where
  "connection_keys pfx = map (\<lambda>k. pfx @ k) [''URL'', ''HOST'', ''PORT'', ''NAME'', ''USER'', ''PASSWORD'', ''SSLMODE'']"

definition database_keys :: "string list" where
  "database_keys = [''DATABASE_MAX_CONNS'', ''DATABASE_MIN_CONNS'', ''DATABASE_CONNECT_TIMEOUT'', ''DATABASE_PROBE_TIMEOUT'',
     ''DATABASE_MAX_CONN_LIFETIME'', ''DATABASE_MAX_CONN_IDLE_TIME'', ''DATABASE_STATEMENT_TIMEOUT''] @ connection_keys ''DATABASE_''"

definition http_keys :: "string list" where
  "http_keys = [''HTTP_CORS_ORIGINS'', ''HTTP_RATE_PER_SECOND'', ''HTTP_RATE_BURST'', ''HTTP_MAX_HEADER_BYTES'', ''HTTP_ADDRESS'', ''HTTP_PORT'']"

definition http_timeout_keys :: "string list" where
  "http_timeout_keys = [''HTTP_REQUEST_TIMEOUT'', ''HTTP_READ_HEADER_TIMEOUT'', ''HTTP_READ_TIMEOUT'', ''HTTP_WRITE_TIMEOUT'', ''HTTP_IDLE_TIMEOUT'']"

lemma connectionURL_agree:
  assumes "agree (connection_keys pfx) env env'" shows "connectionURL env pfx = connectionURL env' pfx"
proof -
  have e: "env (pfx @ ''URL'') = env' (pfx @ ''URL'')" "env (pfx @ ''HOST'') = env' (pfx @ ''HOST'')"
    "env (pfx @ ''PORT'') = env' (pfx @ ''PORT'')" "env (pfx @ ''NAME'') = env' (pfx @ ''NAME'')"
    "env (pfx @ ''USER'') = env' (pfx @ ''USER'')" "env (pfx @ ''PASSWORD'') = env' (pfx @ ''PASSWORD'')"
    "env (pfx @ ''SSLMODE'') = env' (pfx @ ''SSLMODE'')"
    using assms by (simp_all add: connection_keys_def)
  show ?thesis
    unfolding connectionURL_def missing_setting_def setting_def by (simp only: list.map list.pred_inject find.simps e)
qed

text \<open>
  What \<^verbatim>\<open>LoadFor\<close> relies on of each group it loads: the result depends on the settings of the group
  only, and an error has a public text. Both survive leaving the group out.
\<close>

locale settings_group =
  fixes load :: "environment \<Rightarrow> config \<Rightarrow> gerror + config"
    and keys :: "string list"
  assumes scope: "agree keys env env' \<Longrightarrow> load env cfg = load env' cfg"
    and errors_public: "public (load env cfg)"
begin

lemma same: "agree keys env env' \<Longrightarrow> load env = load env'"
  by (rule ext) (rule scope)

lemma same_if_used: "agree (if used then keys else []) env env' \<Longrightarrow> only_if used (load env) = only_if used (load env')"
  by (cases used) (simp_all add: only_if_def fun_eq_iff scope [of env env'])

lemma public_if_used: "public (only_if used (load env) cfg)"
  by (simp add: only_if_def errors_public)

end

lemma load_http_scope: "agree http_keys env env' \<Longrightarrow> load_http env cfg = load_http env' cfg"
proof -
  assume "agree http_keys env env'"
  then have h: "env ''HTTP_CORS_ORIGINS'' = env' ''HTTP_CORS_ORIGINS''" "env ''HTTP_RATE_PER_SECOND'' = env' ''HTTP_RATE_PER_SECOND''"
    "env ''HTTP_RATE_BURST'' = env' ''HTTP_RATE_BURST''" "env ''HTTP_MAX_HEADER_BYTES'' = env' ''HTTP_MAX_HEADER_BYTES''"
    "env ''HTTP_ADDRESS'' = env' ''HTTP_ADDRESS''" "env ''HTTP_PORT'' = env' ''HTTP_PORT''"
    by (simp_all add: http_keys_def)
  show ?thesis unfolding load_http_def setting_def integer_setting_def h ..
qed

interpretation http_group: settings_group load_http http_keys
  by unfold_locales (rule load_http_scope, assumption, rule public_stages)

interpretation timeout_group: settings_group load_timeouts http_timeout_keys
  by unfold_locales (simp add: load_timeouts_def http_timeout_keys_def duration_def, rule public_stages)

interpretation search_group: settings_group load_search "[''ELASTICSEARCH_URL'', ''SEARCH_URL'']"
  by unfold_locales (simp_all add: load_search_def setting_def)

interpretation outbox_group: settings_group load_outbox "[''OUTBOX_POLL_INTERVAL'']"
  by unfold_locales (simp add: load_outbox_def duration_def, rule public_stages)

interpretation level_group: settings_group "load_level uni" "[''LOG_LEVEL'']" for uni
  by unfold_locales (simp add: load_level_def, rule public_stages)

lemma load_database_scope: "agree database_keys env env' \<Longrightarrow> load_database env cfg = load_database env' cfg"
proof -
  assume a: "agree database_keys env env'"
  then have "databaseURL env = databaseURL env'"
    unfolding databaseURL_def by (intro connectionURL_agree) (simp add: database_keys_def)
  moreover have p: "env ''DATABASE_MAX_CONNS'' = env' ''DATABASE_MAX_CONNS''" "env ''DATABASE_MIN_CONNS'' = env' ''DATABASE_MIN_CONNS''"
    "env ''DATABASE_CONNECT_TIMEOUT'' = env' ''DATABASE_CONNECT_TIMEOUT''" "env ''DATABASE_PROBE_TIMEOUT'' = env' ''DATABASE_PROBE_TIMEOUT''"
    "env ''DATABASE_MAX_CONN_LIFETIME'' = env' ''DATABASE_MAX_CONN_LIFETIME''"
    "env ''DATABASE_MAX_CONN_IDLE_TIME'' = env' ''DATABASE_MAX_CONN_IDLE_TIME''"
    "env ''DATABASE_STATEMENT_TIMEOUT'' = env' ''DATABASE_STATEMENT_TIMEOUT''"
    using a by (simp_all add: database_keys_def)
  have "loadDatabasePool env = loadDatabasePool env'"
    unfolding loadDatabasePool_def pool_count_def duration_def setting_def p ..
  ultimately show ?thesis by (simp add: load_database_def)
qed

interpretation database_group: settings_group load_database database_keys
  by unfold_locales (rule load_database_scope, assumption, rule public_stages)

lemmas groups_public = http_group.public_if_used timeout_group.public_if_used search_group.public_if_used
  outbox_group.public_if_used level_group.errors_public database_group.errors_public

lemma Validate_messages: "Validate c = Some t \<Longrightarrow> t \<in> set config_messages"
proof -
  assume v: "Validate c = Some t"
  have f: "k \<in> set timeout_keys" if "find (\<lambda>(key, v, used). used \<and> v \<le> 0) (positive_settings c) = Some (k, x)" for k x
    using that by (auto simp: positive_settings_def timeout_keys_def split: if_splits)
  define listed where "listed r \<longleftrightarrow> (\<forall>t. r = Some t \<longrightarrow> t \<in> set config_messages)" for r
  have none: "listed None" and some: "\<And>t. t \<in> set config_messages \<Longrightarrow> listed (Some t)"
    and ite: "\<And>b x y. (b \<Longrightarrow> listed x) \<Longrightarrow> (\<not> b \<Longrightarrow> listed y) \<Longrightarrow> listed (if b then x else y)"
    and opt: "\<And>m y g. (m = None \<Longrightarrow> listed y) \<Longrightarrow> (\<And>k. m = Some k \<Longrightarrow> listed (g k)) \<Longrightarrow>
      listed (case m of None \<Rightarrow> y | Some k \<Rightarrow> g k)"
    by (auto simp: listed_def split: option.splits)
  have pos: "listed (case kx of (k, x) \<Rightarrow> Some (k @ '' must be positive''))"
    if "find (\<lambda>(key, v, used). used \<and> v \<le> 0) (positive_settings c) = Some kx" for kx
    using that f [of "fst kx" "snd kx"] by (cases kx) (auto simp: listed_def config_messages_def)
  have "listed (Validate c)"
    unfolding Validate_def Let_def
    by (intro ite opt pos none some; (assumption | simp add: config_messages_def timeout_keys_def))
  then show ?thesis using v by (simp add: listed_def)
qed

text \<open>
  C28. Errors of a load never repeat a value of the environment. The text of every error is one of
  a fixed list of messages, which name settings and what is expected of them and do not depend on
  the environment: credentials in URLs, passwords or malformed values cannot leak through them.
\<close>

theorem LoadFor_errors_public:
  assumes "LoadFor uni env rt = Inl e"
  shows "\<exists>t \<in> set config_messages. e = NewErr t"
proof -
  have "public (LoadFor uni env rt)"
    unfolding LoadFor_def
    by (intro public_if public_bind public_duration groups_public public_option public_Inr
        public_Inl; (erule Validate_messages | simp add: timeout_keys_def config_messages_def))
  then show ?thesis using assms by (simp add: public_def)
qed

section \<open>Settings that a runtime does not use\<close>

text \<open>The settings of a runtime.\<close>

definition used_keys :: "string \<Rightarrow> string list" where
  "used_keys rt =
     [''SHUTDOWN_TIMEOUT'', ''APP_ENV'', ''OTEL_EXPORTER_OTLP_ENDPOINT'', ''LOG_LEVEL''] @ database_keys @
     (if usesHTTP rt then http_keys @ http_timeout_keys else []) @
     (if usesSearch rt then [''ELASTICSEARCH_URL'', ''SEARCH_URL''] else []) @
     (if usesOutbox rt then [''OUTBOX_POLL_INTERVAL''] else [])"

text \<open>
  C29. A runtime ignores the settings it does not use. Loading for a runtime gives the same result,
  configuration or error, in two environments that agree on the settings of that runtime, whatever
  the others hold: an invalid HTTP setting cannot stop the worker or the indexer, an invalid search
  URL cannot stop the worker, and the settings of the migrations and of other programs matter
  to none.
\<close>

theorem LoadFor_scope:
  assumes "agree (used_keys rt) env env'"
  shows "LoadFor uni env rt = LoadFor uni env' rt"
proof -
  note a = assms [unfolded used_keys_def agree_append]
  have c: "env ''SHUTDOWN_TIMEOUT'' = env' ''SHUTDOWN_TIMEOUT''" "env ''APP_ENV'' = env' ''APP_ENV''"
    "env ''OTEL_EXPORTER_OTLP_ENDPOINT'' = env' ''OTEL_EXPORTER_OTLP_ENDPOINT''" "agree [''LOG_LEVEL''] env env'"
    "agree database_keys env env'" using a by simp_all
  have "agree (if usesHTTP rt then http_keys else []) env env'" "agree (if usesHTTP rt then http_timeout_keys else []) env env'"
    "agree (if usesSearch rt then [''ELASTICSEARCH_URL'', ''SEARCH_URL''] else []) env env'"
    "agree (if usesOutbox rt then [''OUTBOX_POLL_INTERVAL''] else []) env env'"
    using a by (simp_all split: if_splits)
  note groups = this(1) [THEN http_group.same_if_used] this(2) [THEN timeout_group.same_if_used]
    this(3) [THEN search_group.same_if_used] this(4) [THEN outbox_group.same_if_used]
    database_group.same [OF c(5)] level_group.same [OF c(4)]
  have "base_config env rt = base_config env' rt"
    by (rule ext) (simp add: base_config_def setting_def c)
  moreover have "duration env ''SHUTDOWN_TIMEOUT'' (10 * second) = duration env' ''SHUTDOWN_TIMEOUT'' (10 * second)"
    by (simp add: duration_def c)
  ultimately show ?thesis unfolding LoadFor_def by (simp only: groups)
qed

theorem LoadFor_scope_witness:
  "LoadFor (map lower_char) ((\<lambda>_. '''')(''HTTP_ADDRESS'' := ''invalid'', ''ELASTICSEARCH_URL'' := ''x'')) Worker =
   LoadFor (map lower_char) (\<lambda>_. '''') Worker"
proof -
  have "agree (used_keys Worker) ((\<lambda>_. '''')(''HTTP_ADDRESS'' := ''invalid'', ''ELASTICSEARCH_URL'' := ''x'')) (\<lambda>_. '''')"
    by (simp add: used_keys_def database_keys_def connection_keys_def usesHTTP_def usesSearch_def usesOutbox_def)
  then show ?thesis by (rule LoadFor_scope)
qed

section \<open>Connection URLs\<close>

lemma Trim_empty: "Trim s cs = [] \<longleftrightarrow> set s \<subseteq> set cs"
proof -
  let ?P = "\<lambda>c. c \<in> set cs"
  have "Trim s cs = [] \<longleftrightarrow> (\<forall>x \<in> set (dropWhile ?P s). ?P x)"
    unfolding Trim_def by (simp only: rev_is_Nil_conv dropWhile_eq_Nil_conv set_rev)
  also have "\<dots> \<longleftrightarrow> dropWhile ?P s = []"
    using hd_dropWhile [of ?P s] by (metis empty_iff empty_set hd_in_set)
  also have "\<dots> \<longleftrightarrow> set s \<subseteq> set cs" by (auto simp: dropWhile_eq_Nil_conv)
  finally show ?thesis .
qed

lemma validPort_digits:
  assumes "validPort p" shows "p \<noteq> [] \<and> list_all is_digit p"
proof -
  have "list_all is_digit ''0123456789''" by code_simp
  then show ?thesis using assms by (auto simp: validPort_def Trim_empty list_all_iff split: if_splits)
qed

lemma encode_sslmode_plain: "m \<in> set sslmodes \<Longrightarrow> encode_sslmode m = ''sslmode='' @ m"
proof -
  have "list_all (\<lambda>m. encode_sslmode m = ''sslmode='' @ m) sslmodes" by code_simp
  then show "m \<in> set sslmodes \<Longrightarrow> encode_sslmode m = ''sslmode='' @ m" by (auto simp: list_all_iff)
qed

lemma sslmode_query:
  assumes "m \<in> set sslmodes" shows "CHR ''#'' \<notin> set (''sslmode='' @ m)" "\<not> list_ex is_control (''sslmode='' @ m)"
proof -
  have "list_all (\<lambda>m. CHR ''#'' \<notin> set (''sslmode='' @ m) \<and> \<not> list_ex is_control (''sslmode='' @ m)) sslmodes" by code_simp
  then show "CHR ''#'' \<notin> set (''sslmode='' @ m)" "\<not> list_ex is_control (''sslmode='' @ m)"
    using assms by (auto simp only: list_all_iff)
qed

lemma blank_empty: "TrimSpace [] = []"
  by (simp add: TrimSpace_def trim_left.simps)

text \<open>The split settings that \<^verbatim>\<open>connectionURL\<close> accepts.\<close>

lemma connectionURL_split:
  assumes "connectionURL env pfx = Inr s" "env (pfx @ ''URL'') = ''''" "s \<noteq> ''''"
  defines "host \<equiv> env (pfx @ ''HOST'')" and "port \<equiv> setting env (pfx @ ''PORT'') ''5432''"
    and "mode \<equiv> setting env (pfx @ ''SSLMODE'') ''verify-full''"
  shows "host \<noteq> [] \<and> CHR ''['' \<notin> set host \<and> CHR '']'' \<notin> set host \<and> (CHR '':'' \<in> set host \<longrightarrow> ParseIP host) \<and>
    validPort port \<and> mode \<in> set sslmodes \<and>
    s = url_String (no_url\<lparr>Scheme := ''postgres'', Host := JoinHostPort host port,
      User := Some (env (pfx @ ''USER''), Some (env (pfx @ ''PASSWORD''))), URLPath := ''/'' @ env (pfx @ ''NAME''),
      RawQuery := encode_sslmode mode\<rparr>)"
proof -
  have m: "missing_setting env pfx = None"
    using assms(1-3) unfolding connectionURL_def by (cases "missing_setting env pfx") (simp_all split: if_splits)
  then have "host \<noteq> []"
    using blank_empty unfolding missing_setting_def host_def list.map find.simps by (auto split: if_splits)
  moreover have c: "\<not> ContainsAny host host_forbidden" "\<not> (Contains host '':'' \<and> \<not> ParseIP host)" "validPort port" "mode \<in> set sslmodes"
    "s = url_String (no_url\<lparr>Scheme := ''postgres'', Host := JoinHostPort host port,
      User := Some (env (pfx @ ''USER''), Some (env (pfx @ ''PASSWORD''))), URLPath := ''/'' @ env (pfx @ ''NAME''),
      RawQuery := encode_sslmode mode\<rparr>)"
    using assms(1-3) m unfolding connectionURL_def Let_def host_def [symmetric] port_def [symmetric] mode_def [symmetric]
    by (simp_all split: if_splits)
  moreover have "CHR ''['' \<in> set host_forbidden" "CHR '']'' \<in> set host_forbidden" by (simp_all add: host_forbidden_def)
  then have "CHR ''['' \<notin> set host" "CHR '']'' \<notin> set host" using c(1) by (auto simp: ContainsAny_def list_ex_iff)
  ultimately show ?thesis by simp
qed

text \<open>
  C27. Split settings survive the trip through a URL. When a connection URL is built from split
  settings whose host has only bytes that a URL can carry in a host, parsing it gives back the user
  and the password byte for byte, whatever they contain, the host and the port, the database name
  as the path and the SSL mode as the only query parameter; and the URL passes the validation
  of the configuration.
\<close>

theorem connectionURL_roundtrip:
  assumes "connectionURL env pfx = Inr s" and "env (pfx @ ''URL'') = ''''" and "s \<noteq> ''''"
    and "list_all (escapable encodeHost) (env (pfx @ ''HOST''))"
  shows "\<exists>u. url_Parse s = Some u \<and> Scheme u = ''postgres'' \<and>
    User u = Some (env (pfx @ ''USER''), Some (env (pfx @ ''PASSWORD''))) \<and> Hostname u = env (pfx @ ''HOST'') \<and>
    Port u = setting env (pfx @ ''PORT'') ''5432'' \<and> URLPath u = ''/'' @ env (pfx @ ''NAME'') \<and>
    RawQuery u = ''sslmode='' @ setting env (pfx @ ''SSLMODE'') ''verify-full'' \<and> Fragment u = '''' \<and>
    validURL s [''postgres'', ''postgresql'']"
proof -
  define host where "host = env (pfx @ ''HOST'')"
  define port where "port = setting env (pfx @ ''PORT'') ''5432''"
  define mode where "mode = setting env (pfx @ ''SSLMODE'') ''verify-full''"
  note c = connectionURL_split [OF assms(1-3), folded host_def port_def mode_def]
  define u where "u = no_url\<lparr>Scheme := ''postgres'', Host := JoinHostPort host port,
      User := Some (env (pfx @ ''USER''), Some (env (pfx @ ''PASSWORD''))), URLPath := ''/'' @ env (pfx @ ''NAME''),
      RawQuery := encode_sslmode mode\<rparr>"
  have uh: "url_host host" using c assms(4) by (simp add: url_host_def host_def)
  have port: "port \<noteq> []" "list_all is_digit port" using c validPort_digits by blast+
  have m: "mode \<in> set sslmodes" and s: "s = url_String u" using c by (simp_all add: u_def)
  note q = encode_sslmode_plain [OF m] sslmode_query [OF m]
  have "list_all is_lower ''postgres''" by code_simp
  then have parsed: "url_Parse s = Some u"
    unfolding s using parseHost_JoinHostPort [OF uh port(2)] q
    by (intro url_Parse_String) (simp_all add: u_def)
  have hp: "Hostname u = host" "Port u = port"
    using splitHostPort_JoinHostPort [OF uh port(2)] by (simp_all add: Hostname_def Port_def u_def)
  have "last (JoinHostPort host port) = last port" using port(1) by (simp add: JoinHostPort_def)
  moreover have "is_digit (last port)" using port by (simp add: list_all_iff)
  moreover have "\<not> is_digit (CHR '':'')" by (simp add: is_digit_def)
  ultimately have "\<not> HasSuffix (JoinHostPort host port) '':''" unfolding HasSuffix_iff by (metis last_snoc)
  then have "validURL s [''postgres'', ''postgresql'']"
    using parsed hp c port by (simp add: validURL_def) (simp add: u_def)
  then show ?thesis using parsed hp q(1) by (auto simp: u_def host_def port_def mode_def)
qed

definition demo_split :: environment where
  "demo_split = (\<lambda>_. '''')(''DATABASE_HOST'' := ''::1'', ''DATABASE_USER'' := ''u@:'', ''DATABASE_PASSWORD'' := ''p/?#%'', ''DATABASE_NAME'' := ''d b'')"

theorem connectionURL_roundtrip_witness:
  "\<exists>s u. connectionURL demo_split ''DATABASE_'' = Inr s \<and> url_Parse s = Some u \<and> User u = Some (''u@:'', Some ''p/?#%'') \<and>
     Hostname u = ''::1'' \<and> Port u = ''5432''"
proof -
  have s: "connectionURL demo_split ''DATABASE_'' = Inr ''postgres://u%40%3A:p%2F%3F%23%25@[::1]:5432/d%20b?sslmode=verify-full''"
    unfolding demo_split_def by code_simp
  have "list_all (escapable encodeHost) ''::1''" by code_simp
  from connectionURL_roundtrip [OF s] this show ?thesis by (auto simp: demo_split_def setting_def s [unfolded demo_split_def])
qed

text \<open>
  The migrations use their own credentials only: the URL of the migrations depends on the seven
  migration settings and on nothing else, so no runtime credential can reach it.
\<close>

theorem MigrationURL_separate:
  assumes "\<forall>k \<in> {''URL'', ''HOST'', ''PORT'', ''NAME'', ''USER'', ''PASSWORD'', ''SSLMODE''}.
    env (''MIGRATION_DATABASE_'' @ k) = env' (''MIGRATION_DATABASE_'' @ k)"
  shows "MigrationURL env = MigrationURL env'"
  unfolding MigrationURL_def using assms
  by (intro connectionURL_agree) (simp add: connection_keys_def)

theorem MigrationURL_separate_witness:
  "MigrationURL ((\<lambda>_. '''')(''DATABASE_URL'' := ''postgres://runtime'')) = MigrationURL (\<lambda>_. '''')"
  by (rule MigrationURL_separate) simp

section \<open>Concrete loads\<close>

declare fl_def [code del]

lemma demo_load: "\<not> isl (LoadFor (map lower_char) (\<lambda>_. '''') API)"
  by code_simp

theorem LoadFor_valid_witness:
  "\<exists>cfg. LoadFor (map lower_char) (\<lambda>_. '''') API = Inr cfg \<and> HTTPRequestTimeout cfg < HTTPWriteTimeout cfg"
proof -
  obtain cfg where c: "LoadFor (map lower_char) (\<lambda>_. '''') API = Inr cfg"
    using demo_load by (cases "LoadFor (map lower_char) (\<lambda>_. '''') API") auto
  from LoadFor_valid [OF c] c show ?thesis by (auto simp: config_ok_def http_ok_def usesHTTP_def)
qed

theorem LoadFor_errors_public_witness:
  "\<exists>e. LoadFor (map lower_char) ((\<lambda>_. '''')(''DATABASE_PORT'' := ''secret'')) Worker = Inl e \<and> (\<exists>t \<in> set config_messages. e = NewErr t)"
proof -
  have "isl (LoadFor (map lower_char) ((\<lambda>_. '''')(''DATABASE_PORT'' := ''secret'')) Worker)" by code_simp
  then obtain e where e: "LoadFor (map lower_char) ((\<lambda>_. '''')(''DATABASE_PORT'' := ''secret'')) Worker = Inl e"
    by (cases "LoadFor (map lower_char) ((\<lambda>_. '''')(''DATABASE_PORT'' := ''secret'')) Worker") auto
  from LoadFor_errors_public [OF e] e show ?thesis by blast
qed

end
