(* ===== verification/Logging.thy ===== *)
theory Logging
  imports Http_Middleware
begin

text \<open>
  \<^verbatim>\<open>src/internal/platform/logging/logging.go\<close>: the loggers of the program. The handler of the package
  wraps the JSON handler of \<^verbatim>\<open>log/slog\<close>; it keeps the attributes and groups added to a logger as a
  list and replays them after the correlation of the context, so that request and trace identifiers
  stay at the root of every record.
\<close>

section \<open>Values of log/slog\<close>

text \<open>
  Values, of the kinds the program logs: texts (errors print as their text), numbers, groups and
  objects. \<open>SValuer i\<close> is the object \<open>i\<close> that implements \<^verbatim>\<open>LogValuer\<close>; the function \<open>lv\<close> of the
  definitions below says what its method returns at the time of the call.
\<close>

datatype slog_value = SString string | SInt int | SGroup "(string \<times> slog_value) list" | SValuer nat

type_synonym attrs = "(string \<times> slog_value) list"
type_synonym valuers = "nat \<Rightarrow> slog_value"

text \<open>\<^verbatim>\<open>Value.Resolve\<close>: at most a hundred calls, then an error value.\<close>

definition maxLogValues :: nat where "maxLogValues = 100"

fun Resolve :: "nat \<Rightarrow> valuers \<Rightarrow> slog_value \<Rightarrow> slog_value" where
  "Resolve 0 lv v = SString ''LogValue called too many times''"
| "Resolve (Suc n) lv v = (case v of SValuer i \<Rightarrow> Resolve n lv (lv i) | _ \<Rightarrow> v)"

text \<open>
  The library removes empty groups in three places: \<^verbatim>\<open>slog.GroupValue\<close> drops the members that are
  empty groups, a record drops attributes that are empty groups when they are added to it, and
  \<^verbatim>\<open>WithAttrs\<close> of the JSON handler ignores a list of nothing but empty groups.
\<close>

definition drop_empty :: "attrs \<Rightarrow> attrs" where
  "drop_empty as = filter (\<lambda>a. snd a \<noteq> SGroup []) as"

definition GroupValue :: "attrs \<Rightarrow> slog_value" where
  "GroupValue as = SGroup (drop_empty as)"

text \<open>A record, and what the JSON handler prints of it at the root: the built-in keys and the rest.\<close>

record slog_record =
  rec_level :: int
  rec_message :: string
  rec_attrs :: attrs

record printed =
  p_level :: int
  p_message :: string
  p_attrs :: attrs

text \<open>
  How the JSON handler of the library prints an attribute: it resolves the value, prints nothing for
  a group without members, and the members of a group without a key in place of it. A value may
  unfold for ever, when a group holds the object it came from; printing then does not return. \<open>fuel\<close>
  bounds the nesting of groups, and \<open>None\<close> says that the bound was reached.
\<close>

fun print_attr :: "nat \<Rightarrow> valuers \<Rightarrow> string \<times> slog_value \<Rightarrow> attrs option" where
  "print_attr 0 lv attr = None"
| "print_attr (Suc fuel) lv (key, v) =
     (case Resolve maxLogValues lv v of
        SGroup members \<Rightarrow>
          if members = [] then Some []
          else map_option (\<lambda>ps. if key = '''' then concat ps else [(key, SGroup (concat ps))])
                 (those (map (print_attr fuel lv) members))
      | v' \<Rightarrow> Some [(key, v')])"

text \<open>
  The handler: its minimum level and the calls of \<^verbatim>\<open>WithAttrs\<close> and \<^verbatim>\<open>WithGroup\<close> that made it, the first
  one first. Attributes after a group are inside it; a group in which there is no attribute is not
  opened. (The library prints the attributes of \<^verbatim>\<open>WithAttrs\<close> at that call; the ones that reach it here
  hold no objects, so that the moment does not matter.)
\<close>

datatype with_call = CallAttrs attrs | CallGroup string

record json_handler =
  minimum :: int
  calls :: "with_call list"

definition json_WithAttrs :: "attrs \<Rightarrow> json_handler \<Rightarrow> json_handler" where
  "json_WithAttrs as h = (if drop_empty as = [] then h else h\<lparr>calls := calls h @ [CallAttrs as]\<rparr>)"

definition json_WithGroup :: "string \<Rightarrow> json_handler \<Rightarrow> json_handler" where
  "json_WithGroup name h = (if name = '''' then h else h\<lparr>calls := calls h @ [CallGroup name]\<rparr>)"

fun nest :: "with_call list \<Rightarrow> attrs \<Rightarrow> attrs" where
  "nest [] as = as"
| "nest (CallAttrs bs # cs) as = drop_empty bs @ nest cs as"
| "nest (CallGroup g # cs) as = (let inner = nest cs as in if inner = [] then [] else [(g, SGroup inner)])"

definition json_Handle :: "nat \<Rightarrow> valuers \<Rightarrow> json_handler \<Rightarrow> slog_record \<Rightarrow> printed option" where
  "json_Handle fuel lv h r =
     map_option (\<lambda>ps. \<lparr>p_level = rec_level r, p_message = rec_message r, p_attrs = concat ps\<rparr>)
       (those (map (print_attr fuel lv) (nest (calls h) (drop_empty (rec_attrs r)))))"

text \<open>What a group makes of the attributes inside it.\<close>

definition in_group :: "string \<Rightarrow> attrs \<Rightarrow> attrs" where
  "in_group g as =
     (if g = '''' then drop_empty as else if drop_empty as = [] then [] else [(g, SGroup (drop_empty as))])"

section \<open>The interface \<^verbatim>\<open>slog.Handler\<close>\<close>

text \<open>
  What the users of a handler rely on: \<open>root h as\<close> are the attributes at the root of the record that \<open>h\<close>
  prints when the record itself brings \<open>as\<close>. The JSON handler keeps these laws, and so does
  \<^verbatim>\<open>contextHandler\<close>, which is written against a handler and is one.
\<close>

record handlerOperation =
  op_attrs :: attrs
  op_group :: string

definition op_effect :: "handlerOperation \<Rightarrow> attrs \<Rightarrow> attrs" where
  "op_effect op as = (if op_group op \<noteq> '''' then in_group (op_group op) as else op_attrs op @ as)"

locale slog_handler =
  fixes root :: "'h \<Rightarrow> attrs \<Rightarrow> attrs"
    and with_attrs :: "attrs \<Rightarrow> 'h \<Rightarrow> 'h"
    and with_group :: "string \<Rightarrow> 'h \<Rightarrow> 'h"
  assumes attrs_law: "root (with_attrs bs h) as = root h (bs @ as)"
    and group_law: "root (with_group g h) as = root h (in_group g as)"
begin

text \<open>Operations applied in order nest: the last one is the innermost.\<close>

lemma operations_law:
  "root (fold (\<lambda>op. if op_group op \<noteq> '''' then with_group (op_group op) else with_attrs (op_attrs op)) ops h) as =
   root h (foldr op_effect ops as)"
  by (induction ops arbitrary: h) (simp_all add: attrs_law group_law op_effect_def)

end

definition json_root :: "json_handler \<Rightarrow> attrs \<Rightarrow> attrs" where
  "json_root h as = nest (calls h) (drop_empty as)"

lemma nest_append: "nest (cs @ ds) as = nest cs (nest ds as)"
  by (induction cs as rule: nest.induct) simp_all

lemma drop_empty_simps [simp]:
  "drop_empty [] = []"
  "drop_empty (as @ bs) = drop_empty as @ drop_empty bs"
  "drop_empty (drop_empty as) = drop_empty as"
  by (simp_all add: drop_empty_def)

lemma drop_in_group [simp]: "drop_empty (in_group g as) = in_group g as"
  by (auto simp: in_group_def) (simp add: drop_empty_def)

interpretation json: slog_handler json_root json_WithAttrs json_WithGroup
proof unfold_locales
  fix bs as :: attrs and g :: string and h :: json_handler
  show "json_root (json_WithAttrs bs h) as = json_root h (bs @ as)"
    by (simp add: json_root_def json_WithAttrs_def nest_append)
  show "json_root (json_WithGroup g h) as = json_root h (in_group g as)"
    by (auto simp: json_root_def json_WithGroup_def nest_append Let_def) (auto simp: in_group_def)
qed

section \<open>contextHandler\<close>

record contextHandler =
  ch_Handler :: json_handler
  operations :: "handlerOperation list"

definition correlation_attrs :: "reqctx \<Rightarrow> attrs" where
  "correlation_attrs c =
     (if requestID c \<noteq> '''' then [(''request_id'', SString (requestID c))] else []) @
     (if traceID c \<noteq> '''' then [(''trace_id'', SString (traceID c))] else [])"

definition replay :: "handlerOperation \<Rightarrow> json_handler \<Rightarrow> json_handler" where
  "replay op h = (if op_group op \<noteq> '''' then json_WithGroup (op_group op) h else json_WithAttrs (op_attrs op) h)"

definition Handle :: "nat \<Rightarrow> valuers \<Rightarrow> contextHandler \<Rightarrow> reqctx \<Rightarrow> slog_record \<Rightarrow> printed option" where
  "Handle fuel lv h c r =
     json_Handle fuel lv (fold replay (operations h) (json_WithAttrs (correlation_attrs c) (ch_Handler h))) r"

text \<open>\<^verbatim>\<open>resolveAttr\<close>, with the same bound on the nesting of groups.\<close>

fun resolveAttr :: "nat \<Rightarrow> valuers \<Rightarrow> string \<times> slog_value \<Rightarrow> (string \<times> slog_value) option" where
  "resolveAttr 0 lv attr = None"
| "resolveAttr (Suc fuel) lv (key, v) =
     (case Resolve maxLogValues lv v of
        SGroup members \<Rightarrow> map_option (\<lambda>resolved. (key, GroupValue resolved)) (those (map (resolveAttr fuel lv) members))
      | v' \<Rightarrow> Some (key, v'))"

definition withOperation :: "handlerOperation \<Rightarrow> contextHandler \<Rightarrow> contextHandler" where
  "withOperation op h = h\<lparr>operations := operations h @ [op]\<rparr>"

definition WithAttrs :: "nat \<Rightarrow> valuers \<Rightarrow> attrs \<Rightarrow> contextHandler \<Rightarrow> contextHandler option" where
  "WithAttrs fuel lv as h =
     map_option (\<lambda>resolved. withOperation \<lparr>op_attrs = resolved, op_group = ''''\<rparr> h) (those (map (resolveAttr fuel lv) as))"

definition WithGroup :: "string \<Rightarrow> contextHandler \<Rightarrow> contextHandler" where
  "WithGroup name h = (if name = '''' then h else withOperation \<lparr>op_attrs = [], op_group = name\<rparr> h)"

section \<open>New and Failure\<close>

text \<open>\<^verbatim>\<open>Options\<close>, without the output. \<open>New\<close> adds the identity with \<^verbatim>\<open>With\<close>; strings resolve to themselves.\<close>

record log_options =
  log_service :: string
  log_environment :: string
  log_version :: string
  log_minimum :: int

definition identity_attrs :: "log_options \<Rightarrow> attrs" where
  "identity_attrs opts =
     [(''service'', SString (log_service opts)), (''environment'', SString (log_environment opts)),
      (''version'', SString (if log_version opts = '''' then ''dev'' else log_version opts))]"

definition New_logger :: "log_options \<Rightarrow> contextHandler" where
  "New_logger opts =
     the (WithAttrs 1 (\<lambda>_. SString '''') (identity_attrs opts)
       \<lparr>ch_Handler = \<lparr>minimum = log_minimum opts, calls = []\<rparr>, operations = []\<rparr>)"

text \<open>
  \<^verbatim>\<open>Logger.Log\<close>: records below the level of the handler are dropped. The outer \<open>None\<close> is a call that
  reached the bound, the inner one a dropped record. \<open>log_plain\<close> logs attributes without groups and
  objects, for which the bound 1 is enough.
\<close>

definition log_to :: "nat \<Rightarrow> valuers \<Rightarrow> contextHandler \<Rightarrow> reqctx \<Rightarrow> slog_record \<Rightarrow> printed option option" where
  "log_to fuel lv h c r =
     (if rec_level r < minimum (ch_Handler h) then Some None else map_option Some (Handle fuel lv h c r))"

definition log_plain :: "contextHandler \<Rightarrow> reqctx \<Rightarrow> slog_record \<Rightarrow> printed option" where
  "log_plain h c r = the (log_to 1 (\<lambda>_. SString '''') h c r)"

definition no_context :: reqctx where
  "no_context = \<lparr>requestID = '''', traceID = '''', ctx_principal = None\<rparr>"

definition Failure :: "(string \<Rightarrow> string) \<Rightarrow> string \<Rightarrow> string \<Rightarrow> gerror \<Rightarrow> printed option" where
  "Failure env service_name version err =
     (let environment = (if env ''APP_ENV'' = '''' then ''development'' else env ''APP_ENV'');
          logger = New_logger \<lparr>log_service = service_name, log_environment = environment, log_version = version, log_minimum = 0\<rparr>
      in log_plain logger no_context
           \<lparr>rec_level = 8, rec_message = ''runtime failed'',
            rec_attrs = [(''error_code'', SString ''runtime_failed''), (''error'', SString (Error err))]\<rparr>)"

definition RequestID :: "reqctx \<Rightarrow> string" where
  "RequestID c = requestID c"

section \<open>What a value reads as\<close>

text \<open>
  \<open>reads lv v v'\<close>: \<open>v'\<close> is \<open>v\<close> with every object, also inside groups, replaced by what it returns. A value
  reads as nothing when it unfolds for ever.
\<close>

fun is_group :: "slog_value \<Rightarrow> bool" where
  "is_group (SGroup as) = True"
| "is_group v = False"

inductive reads :: "valuers \<Rightarrow> slog_value \<Rightarrow> slog_value \<Rightarrow> bool" for lv where
  leaf: "Resolve maxLogValues lv v = v' \<Longrightarrow> \<not> is_group v' \<Longrightarrow> reads lv v v'"
| group: "Resolve maxLogValues lv v = SGroup as \<Longrightarrow> list_all2 (rel_prod (=) (reads lv)) as as' \<Longrightarrow> reads lv v (SGroup as')"

abbreviation reads_attrs :: "valuers \<Rightarrow> attrs \<Rightarrow> attrs \<Rightarrow> bool" where
  "reads_attrs lv \<equiv> list_all2 (rel_prod (=) (reads lv))"

text \<open>What \<^verbatim>\<open>resolveAttr\<close> makes of such a value, and what is printed of it.\<close>

fun pruned :: "slog_value \<Rightarrow> slog_value" where
  "pruned (SGroup as) = GroupValue (map (\<lambda>(k, v). (k, pruned v)) as)"
| "pruned v = v"

fun shown :: "string \<times> slog_value \<Rightarrow> attrs" where
  "shown (k, SGroup as) =
     (if k = '''' then concat (map shown as) else if as = [] then [] else [(k, SGroup (concat (map shown as)))])"
| "shown (k, v) = [(k, v)]"

lemma those_eventually:
  fixes f :: "nat \<Rightarrow> 'a \<Rightarrow> 'b option"
  assumes "list_all2 (\<lambda>x y. \<exists>n0. \<forall>n\<ge>n0. f n x = Some (g y)) xs ys"
  shows "\<exists>n0. \<forall>n\<ge>n0. those (map (f n) xs) = Some (map g ys)"
  using assms
proof induction
  case (Cons x xs y ys)
  from Cons.hyps(1) obtain a where a: "\<forall>n\<ge>a. f n x = Some (g y)" ..
  from Cons.IH obtain b where b: "\<forall>n\<ge>b. those (map (f n) xs) = Some (map g ys)" ..
  have "those (map (f n) (x # xs)) = Some (map g (y # ys))" if "n \<ge> a + b" for n
    using that a b by simp
  then show ?case by blast
qed simp

lemma rel_prod_eq_iff: "rel_prod (=) R (k, v) y \<longleftrightarrow> (\<exists>v'. y = (k, v') \<and> R v v')"
  by (cases y) auto

lemma members_mono:
  assumes "list_all2 (rel_prod (=) (\<lambda>x y. P x y \<and> (\<exists>n0. \<forall>n\<ge>n0. \<forall>k. Q n k x y))) as bs"
    and "\<And>n k x y. Q n k x y \<Longrightarrow> R n (k, x) (k, y)"
  shows "list_all2 (\<lambda>x y. \<exists>n0. \<forall>n\<ge>n0. R n x y) as bs"
  using assms(1)
proof (rule list.rel_mono_strong)
  fix x :: "'a \<times> 'b" and y :: "'a \<times> 'c" assume "rel_prod (=) (\<lambda>x y. P x y \<and> (\<exists>n0. \<forall>n\<ge>n0. \<forall>k. Q n k x y)) x y"
  then obtain k a b n0 where "x = (k, a)" "y = (k, b)" "\<forall>n\<ge>n0. \<forall>k. Q n k a b" by (cases x, cases y) auto
  with assms(2) show "\<exists>n0. \<forall>n\<ge>n0. R n x y" by blast
qed

text \<open>With enough fuel both functions return, and what they return is determined by what the value reads as.\<close>

lemma resolve_eventually: "reads lv v v' \<Longrightarrow> \<exists>n0. \<forall>n\<ge>n0. \<forall>k. resolveAttr n lv (k, v) = Some (k, pruned v')"
proof (induction rule: reads.induct)
  case (leaf v v')
  then have "resolveAttr (Suc m) lv (k, v) = Some (k, pruned v')" for m k by (cases v') simp_all
  then have "resolveAttr n lv (k, v) = Some (k, pruned v')" if "n \<ge> 1" for n k using that by (cases n) (simp_all del: resolveAttr.simps)
  then show ?case by blast
next
  case (group v as as')
  from group.IH have "list_all2 (\<lambda>x y. \<exists>n0. \<forall>n\<ge>n0. resolveAttr n lv x = Some ((\<lambda>(k, v). (k, pruned v)) y)) as as'"
    by (rule members_mono [where P = "reads lv" and Q = "\<lambda>n k x y. resolveAttr n lv (k, x) = Some (k, pruned y)"
          and R = "\<lambda>n x y. resolveAttr n lv x = Some ((\<lambda>(k, v). (k, pruned v)) y)"]) simp
  from those_eventually [OF this]
  obtain n0 where n0: "\<forall>n\<ge>n0. those (map (resolveAttr n lv) as) = Some (map (\<lambda>(k, v). (k, pruned v)) as')" ..
  then have "resolveAttr n lv (k, v) = Some (k, pruned (SGroup as'))" if "n \<ge> Suc n0" for n k
    using that group.hyps by (cases n) simp_all
  then show ?case by blast
qed

lemma print_eventually: "reads lv v v' \<Longrightarrow> \<exists>n0. \<forall>n\<ge>n0. \<forall>k. print_attr n lv (k, v) = Some (shown (k, v'))"
proof (induction rule: reads.induct)
  case (leaf v v')
  then have "print_attr (Suc m) lv (k, v) = Some (shown (k, v'))" for m k by (cases v') simp_all
  then have "print_attr n lv (k, v) = Some (shown (k, v'))" if "n \<ge> 1" for n k using that by (cases n) (simp_all del: print_attr.simps)
  then show ?case by blast
next
  case (group v as as')
  from group.IH have "list_all2 (\<lambda>x y. \<exists>n0. \<forall>n\<ge>n0. print_attr n lv x = Some (shown y)) as as'"
    by (rule members_mono [where P = "reads lv" and Q = "\<lambda>n k x y. print_attr n lv (k, x) = Some (shown (k, y))"
          and R = "\<lambda>n x y. print_attr n lv x = Some (shown y)"])
  from those_eventually [OF this] obtain n0 where n0: "\<forall>n\<ge>n0. those (map (print_attr n lv) as) = Some (map shown as')" ..
  have "as = [] \<longleftrightarrow> as' = []" using group.IH by auto
  then have "print_attr n lv (k, v) = Some (shown (k, SGroup as'))" if "n \<ge> Suc n0" for n k
    using that group.hyps n0 by (cases n) simp_all
  then show ?case by blast
qed

text \<open>Conversely a call that returns has read the value: the condition is the one under which calls return.\<close>

lemma resolve_returns: "resolveAttr n lv (k, v) = Some r \<Longrightarrow> \<exists>v'. reads lv v v'"
proof (induction n arbitrary: k v r)
  case (Suc n)
  show ?case
  proof (cases "Resolve maxLogValues lv v")
    case (SGroup as)
    with Suc.prems obtain rs where "those (map (resolveAttr n lv) as) = Some rs" by auto
    then have "list_all2 (\<lambda>x _. \<exists>v'. reads lv (snd x) v') as rs"
      using Suc.IH by (induction as arbitrary: rs) (auto split: option.splits)
    then have "\<exists>as'. reads_attrs lv as as'"
      by (induction rule: list_all2_induct) (auto simp: list_all2_Cons1 rel_prod_eq_iff)
    with SGroup show ?thesis by (blast intro: reads.group)
  qed (use reads.leaf in force)+
qed simp

text \<open>What is resolved holds no object any more, and reads as itself.\<close>

fun settled :: "slog_value \<Rightarrow> bool" where
  "settled (SValuer i) = False"
| "settled (SGroup as) = (\<forall>(k, v) \<in> set as. settled v)"
| "settled _ = True"

lemma Resolve_not_valuer: "Resolve n lv v \<noteq> SValuer i"
  by (induction n lv v rule: Resolve.induct) (auto split: slog_value.splits)

lemma Resolve_settled: "settled v \<Longrightarrow> Resolve maxLogValues lv v = v"
  by (cases v) (simp_all add: maxLogValues_def numeral_eq_Suc)

lemma reads_settled: "reads lv v v' \<Longrightarrow> settled v'"
proof (induction rule: reads.induct)
  case (leaf v v')
  then show ?case using Resolve_not_valuer [of maxLogValues lv v] by (cases v') auto
next
  case (group v as as')
  then show ?case by (auto simp: list_all2_conv_all_nth in_set_conv_nth elim!: rel_prod.cases) (metis rel_prod_sel snd_conv)
qed

lemma pruned_settled: "settled v \<Longrightarrow> settled (pruned v)"
  by (induction v rule: pruned.induct) (auto simp: GroupValue_def drop_empty_def)

lemma settled_reads: "settled v \<Longrightarrow> reads lv v v"
proof (induction v rule: settled.induct)
  case (2 as)
  then have "reads_attrs lv as as" by (auto simp: list_all2_same)
  moreover have "Resolve maxLogValues lv (SGroup as) = SGroup as" using Resolve_settled [OF 2(2)] .
  ultimately show ?case by (rule reads.group [rotated])
qed (simp_all add: reads.leaf Resolve_settled)

section \<open>The schema of records\<close>

text \<open>
  What the caller does with a logger, in order: adding attributes, with the objects as they answer
  then, and opening groups.
\<close>

datatype extension = AddAttrs valuers attrs | OpenGroup string

fun extended_by :: "nat \<Rightarrow> extension list \<Rightarrow> contextHandler \<Rightarrow> contextHandler option" where
  "extended_by fuel [] h = Some h"
| "extended_by fuel (AddAttrs lv as # es) h = Option.bind (WithAttrs fuel lv as h) (extended_by fuel es)"
| "extended_by fuel (OpenGroup g # es) h = extended_by fuel es (WithGroup g h)"

text \<open>
  What the record should bring after the identity: everything that was added, read when it was added,
  groups nested, and the attributes of the record itself, read when it is logged.
\<close>

definition open_group :: "string \<Rightarrow> attrs \<Rightarrow> attrs" where
  "open_group g as = (if g = '''' then as else if as = [] then [] else [(g, SGroup as)])"

fun lays_out :: "valuers \<Rightarrow> extension list \<Rightarrow> attrs \<Rightarrow> attrs \<Rightarrow> bool" where
  "lays_out lv [] as out = reads_attrs lv (drop_empty as) out"
| "lays_out lv (AddAttrs lv' bs # es) as out =
     (\<exists>bs' rest. reads_attrs lv' bs bs' \<and> lays_out lv es as rest \<and> out = drop_empty (map (\<lambda>(k, v). (k, pruned v)) bs') @ rest)"
| "lays_out lv (OpenGroup g # es) as out = (\<exists>inner. lays_out lv es as inner \<and> out = open_group g inner)"

text \<open>
  The attributes \<^verbatim>\<open>contextHandler\<close> gives the JSON handler to print in a context. It is a lawful handler
  itself, in every context, since it replays its operations on a lawful one.
\<close>

definition context_root :: "reqctx \<Rightarrow> contextHandler \<Rightarrow> attrs \<Rightarrow> attrs" where
  "context_root c h as = json_root (fold replay (operations h) (json_WithAttrs (correlation_attrs c) (ch_Handler h))) as"

lemma replay_calls: "replay = (\<lambda>op. if op_group op \<noteq> '''' then json_WithGroup (op_group op) else json_WithAttrs (op_attrs op))"
  by (rule ext)+ (simp add: replay_def)

lemma context_root_eq: "context_root c h as = json_root (ch_Handler h) (correlation_attrs c @ foldr op_effect (operations h) as)"
  by (simp add: context_root_def replay_calls json.operations_law json.attrs_law)

lemma Handle_root:
  "Handle fuel lv h c r =
     map_option (\<lambda>ps. \<lparr>p_level = rec_level r, p_message = rec_message r, p_attrs = concat ps\<rparr>)
       (those (map (print_attr fuel lv) (context_root c h (rec_attrs r))))"
  by (simp add: Handle_def context_root_def json_Handle_def json_root_def)

interpretation contextual: slog_handler "context_root c" "\<lambda>as. withOperation \<lparr>op_attrs = as, op_group = ''''\<rparr>" WithGroup for c
proof unfold_locales
  fix bs as :: attrs and g :: string and h :: contextHandler
  show "context_root c (withOperation \<lparr>op_attrs = bs, op_group = ''''\<rparr> h) as = context_root c h (bs @ as)"
    by (simp add: context_root_eq withOperation_def op_effect_def)
  show "context_root c (WithGroup g h) as = context_root c h (in_group g as)"
  proof (cases "g = ''''")
    case True
    then have "foldr op_effect ops (drop_empty as) = foldr op_effect ops as \<or>
        drop_empty (foldr op_effect ops (drop_empty as)) = drop_empty (foldr op_effect ops as)" for ops
      by (induction ops) (auto simp: op_effect_def in_group_def)
    then have "json_root (ch_Handler h) (cs @ foldr op_effect ops (drop_empty as)) = json_root (ch_Handler h) (cs @ foldr op_effect ops as)" for cs ops
      unfolding json_root_def by (metis drop_empty_simps(2))
    with True show ?thesis by (simp add: context_root_eq WithGroup_def in_group_def)
  qed (simp add: context_root_eq WithGroup_def withOperation_def op_effect_def)
qed

lemma reads_attrs_settled:
  assumes "reads_attrs lv' bs bs'"
  shows "reads_attrs lv (map (\<lambda>(k, v). (k, pruned v)) bs') (map (\<lambda>(k, v). (k, pruned v)) bs')"
proof -
  have "reads lv (pruned v) (pruned v)" if "(k, v) \<in> set bs'" for k v
  proof -
    from that obtain i where "i < length bs'" "bs' ! i = (k, v)" by (metis in_set_conv_nth)
    with assms have "reads lv' (snd (bs ! i)) v" by (auto simp: list_all2_conv_all_nth rel_prod_sel)
    then show ?thesis by (intro settled_reads pruned_settled reads_settled)
  qed
  then show ?thesis by (auto simp: list_all2_same)
qed

lemma reads_drop_empty: "reads_attrs lv as as \<Longrightarrow> reads_attrs lv (drop_empty as) (drop_empty as)"
  by (auto simp: list_all2_same drop_empty_def)

text \<open>With enough fuel the calls of the caller return, and the tree of attributes reads as laid out.\<close>

lemma extended_eventually:
  "lays_out lv es as out \<Longrightarrow> \<exists>n0. \<exists>h'. \<exists>tree. (\<forall>n\<ge>n0. extended_by n es h = Some h') \<and> ch_Handler h' = ch_Handler h \<and>
     reads_attrs lv (drop_empty tree) out \<and> (\<forall>c. context_root c h' as = context_root c h tree)"
proof (induction lv es as out arbitrary: h rule: lays_out.induct)
  case (1 lv as out)
  then show ?case by auto
next
  case (2 lv lv' bs es as out)
  then obtain bs' rest where r: "reads_attrs lv' bs bs'" "lays_out lv es as rest"
    "out = drop_empty (map (\<lambda>(k, v). (k, pruned v)) bs') @ rest" by auto
  let ?bs = "map (\<lambda>(k, v). (k, pruned v)) bs'"
  have "list_all2 (\<lambda>x y. \<exists>n0. \<forall>n\<ge>n0. resolveAttr n lv' x = Some ((\<lambda>(k, v). (k, pruned v)) y)) bs bs'"
    using r(1) by (rule list.rel_mono_strong) (auto simp: rel_prod_sel dest!: resolve_eventually, blast)
  from those_eventually [OF this] obtain a where a: "\<forall>n\<ge>a. those (map (resolveAttr n lv') bs) = Some ?bs" ..
  let ?h = "withOperation \<lparr>op_attrs = ?bs, op_group = ''''\<rparr> h"
  from 2(1) [OF r(2), of ?h] obtain b h' tree where b: "\<forall>n\<ge>b. extended_by n es ?h = Some h'" "ch_Handler h' = ch_Handler ?h"
    "reads_attrs lv (drop_empty tree) rest" "\<forall>c. context_root c h' as = context_root c ?h tree" by blast
  have "extended_by n (AddAttrs lv' bs # es) h = Some h'" if "n \<ge> a + b" for n
    using that a b(1) by (simp add: WithAttrs_def)
  moreover have "reads_attrs lv (drop_empty (?bs @ tree)) out"
    using r(3) b(3) reads_drop_empty [OF reads_attrs_settled [OF r(1)]] by (auto intro: list_all2_appendI)
  moreover have "\<forall>c. context_root c h' as = context_root c h (?bs @ tree)" using b(4) by (simp add: contextual.attrs_law)
  moreover have "ch_Handler h' = ch_Handler h" using b(2) by (simp add: withOperation_def)
  ultimately show ?case by blast
next
  case (3 lv g es as out)
  then obtain inner where r: "lays_out lv es as inner" "out = open_group g inner" by auto
  from 3(1) [OF r(1), of "WithGroup g h"] obtain b h' tree where b: "\<forall>n\<ge>b. extended_by n es (WithGroup g h) = Some h'"
    "ch_Handler h' = ch_Handler (WithGroup g h)"
    "reads_attrs lv (drop_empty tree) inner" "\<forall>c. context_root c h' as = context_root c (WithGroup g h) tree" by blast
  have e: "drop_empty tree = [] \<longleftrightarrow> inner = []" using b(3) by auto
  have "reads lv (SGroup (drop_empty tree)) (SGroup inner)"
    using b(3) by (intro reads.group) (simp_all add: maxLogValues_def numeral_eq_Suc)
  then have "reads_attrs lv (drop_empty (in_group g tree)) out"
    using b(3) e unfolding r(2) drop_in_group by (auto simp: in_group_def open_group_def)
  moreover have "\<forall>c. context_root c h' as = context_root c h (in_group g tree)" using b(4) by (simp add: contextual.group_law)
  moreover have "ch_Handler h' = ch_Handler h" using b(2) by (simp add: WithGroup_def withOperation_def)
  moreover have "\<forall>n\<ge>b. extended_by n (OpenGroup g # es) h = Some h'" using b(1) by simp
  ultimately show ?case by blast
qed

lemma lays_out_exists:
  assumes "\<forall>lv' bs. AddAttrs lv' bs \<in> set es \<longrightarrow> (\<forall>(k, v) \<in> set bs. \<exists>v'. reads lv' v v')"
    and "\<forall>(k, v) \<in> set as. \<exists>v'. reads lv v v'"
  shows "\<exists>out. lays_out lv es as out"
proof -
  have attrs: "\<exists>bs'. reads_attrs lw bs bs'" if "\<forall>(k, v) \<in> set bs. \<exists>v'. reads lw v v'" for lw bs
    using that
  proof (induction bs)
    case (Cons b bs)
    obtain k v where b: "b = (k, v)" by (cases b)
    with Cons obtain v' bs' where "reads lw v v'" "reads_attrs lw bs bs'" by auto
    with b have "reads_attrs lw (b # bs) ((k, v') # bs')" by simp
    then show ?case ..
  qed (simp add: exI [of _ "[]"])
  have "\<forall>(k, v) \<in> set (drop_empty as). \<exists>v'. reads lv v v'" using assms(2) by (auto simp: drop_empty_def)
  from attrs [OF this] assms(1) show ?thesis
  proof (induction es)
    case (Cons e es)
    then obtain out where "lays_out lv es as out" by auto
    with Cons.prems(2) attrs show ?case by (cases e) fastforce+
  qed auto
qed

section \<open>Properties\<close>

lemma resolve_string [simp]: "resolveAttr (Suc n) lv (k, SString s) = Some (k, SString s)"
  by (simp add: maxLogValues_def numeral_eq_Suc)

lemma New_logger_operations:
  "New_logger opts = \<lparr>ch_Handler = \<lparr>minimum = log_minimum opts, calls = []\<rparr>,
     operations = [\<lparr>op_attrs = identity_attrs opts, op_group = ''''\<rparr>]\<rparr>"
  by (simp add: New_logger_def WithAttrs_def identity_attrs_def withOperation_def del: One_nat_def resolveAttr.simps)
    (simp add: One_nat_def del: resolveAttr.simps)

lemma New_logger_root:
  "context_root c (New_logger opts) as = correlation_attrs c @ identity_attrs opts @ drop_empty as"
  by (simp add: New_logger_operations context_root_eq op_effect_def json_root_def)
    (simp add: correlation_attrs_def identity_attrs_def drop_empty_def)

text \<open>Texts print as they are.\<close>

definition texts :: "attrs \<Rightarrow> bool" where
  "texts as = (\<forall>(k, v) \<in> set as. \<not> is_group v \<and> settled v)"

lemma print_texts: "texts as \<Longrightarrow> map (print_attr (Suc n) lv) as = map (\<lambda>a. Some [a]) as"
proof -
  have "print_attr (Suc n) lv (k, v) = Some [(k, v)]" if "\<not> is_group v" "settled v" for k v
    using that by (cases v) (simp_all add: Resolve_settled)
  then show "texts as \<Longrightarrow> ?thesis" by (auto simp: texts_def)
qed

lemma those_Somes: "those (map (\<lambda>x. Some (f x)) xs) = Some (map f xs)"
  by (induction xs) simp_all

lemma those_Somes_append: "those (map (\<lambda>x. Some (f x)) xs @ ys) = map_option (\<lambda>ps. map f xs @ ps) (those ys)"
  by (induction xs) (simp_all add: option.map_comp comp_def option.map_ident)

lemma texts_root: "texts (correlation_attrs c)" "texts (identity_attrs opts)"
  by (auto simp: texts_def correlation_attrs_def identity_attrs_def)

lemma concat_singletons [simp]: "concat (map (\<lambda>a. [a]) as) = as"
  by (induction as) simp_all

lemma print_root:
  "those (map (print_attr (Suc n) lv) (correlation_attrs c @ identity_attrs opts @ as)) =
   map_option (\<lambda>ps. map (\<lambda>a. [a]) (correlation_attrs c @ identity_attrs opts) @ ps) (those (map (print_attr (Suc n) lv) as))"
proof -
  have "map (print_attr (Suc n) lv) (correlation_attrs c @ identity_attrs opts @ as) =
      map (\<lambda>a. Some [a]) (correlation_attrs c @ identity_attrs opts) @ map (print_attr (Suc n) lv) as"
    by (simp add: print_texts texts_root del: print_attr.simps)
  then show ?thesis by (simp only: those_Somes_append)
qed

lemma log_new_logger:
  assumes "ch_Handler h = ch_Handler (New_logger opts)" and "context_root c h (rec_attrs r) = context_root c (New_logger opts) tree"
    and "those (map (print_attr (Suc n) lv) (drop_empty tree)) = Some ps"
  shows "log_to (Suc n) lv h c r = Some
    (if rec_level r < log_minimum opts then None
     else Some \<lparr>p_level = rec_level r, p_message = rec_message r,
       p_attrs = correlation_attrs c @ identity_attrs opts @ concat ps\<rparr>)"
proof -
  have "Handle (Suc n) lv h c r = Some \<lparr>p_level = rec_level r, p_message = rec_message r,
      p_attrs = correlation_attrs c @ identity_attrs opts @ concat ps\<rparr>"
    unfolding Handle_root assms(2) New_logger_root print_root assms(3) by simp
  then show ?thesis using assms(1) by (simp add: log_to_def New_logger_operations)
qed

text \<open>
  C40. Every record has the same schema at its root. Take any logger made from the options by adding
  attributes and opening groups in any order, with any objects in the values, and any record; every
  value is one that does not unfold for ever. Then all calls return: there is a bound on the nesting
  beyond which the logger exists and the record is printed. A record at or above the minimum level
  prints, at the root and before anything the caller added, the request and trace identifiers of its
  context (those that are set) and the identity of the process; then follow the attributes of the
  caller, read when they were added, nested in the groups that were open then, and those of the
  record, with empty groups left out and groups without a name inlined. A record below the level
  prints nothing.
\<close>

theorem log_schema:
  assumes "\<forall>lv' bs. AddAttrs lv' bs \<in> set es \<longrightarrow> (\<forall>(k, v) \<in> set bs. \<exists>v'. reads lv' v v')"
    and "\<forall>(k, v) \<in> set (rec_attrs r). \<exists>v'. reads lv v v'"
  shows "\<exists>out h. lays_out lv es (rec_attrs r) out \<and>
    (\<exists>n0. \<forall>n\<ge>n0. extended_by n es (New_logger opts) = Some h \<and>
      log_to n lv h c r = Some
        (if rec_level r < log_minimum opts then None
         else Some \<lparr>p_level = rec_level r, p_message = rec_message r,
           p_attrs = correlation_attrs c @ identity_attrs opts @ concat (map shown out)\<rparr>))"
proof -
  obtain out where out: "lays_out lv es (rec_attrs r) out" using lays_out_exists [OF assms] ..
  then obtain a h tree where h: "\<forall>n\<ge>a. extended_by n es (New_logger opts) = Some h" "ch_Handler h = ch_Handler (New_logger opts)"
    "reads_attrs lv (drop_empty tree) out" "\<forall>c. context_root c h (rec_attrs r) = context_root c (New_logger opts) tree"
    using extended_eventually by blast
  have "list_all2 (\<lambda>x y. \<exists>n0. \<forall>n\<ge>n0. print_attr n lv x = Some (shown y)) (drop_empty tree) out"
    using h(3) by (rule list.rel_mono_strong) (auto simp: rel_prod_sel dest!: print_eventually, blast)
  from those_eventually [OF this] obtain b where b: "\<forall>n\<ge>b. those (map (print_attr n lv) (drop_empty tree)) = Some (map shown out)" ..
  have "log_to n lv h c r = Some (if rec_level r < log_minimum opts then None
         else Some \<lparr>p_level = rec_level r, p_message = rec_message r,
           p_attrs = correlation_attrs c @ identity_attrs opts @ concat (map shown out)\<rparr>)" if "n \<ge> Suc b" for n
    using that log_new_logger [OF h(2) spec [OF h(4)]] b by (cases n) auto
  with h(1) have "\<forall>n\<ge>a + Suc b. extended_by n es (New_logger opts) = Some h \<and> log_to n lv h c r = Some
        (if rec_level r < log_minimum opts then None
         else Some \<lparr>p_level = rec_level r, p_message = rec_message r,
           p_attrs = correlation_attrs c @ identity_attrs opts @ concat (map shown out)\<rparr>)" by simp
  with out show ?thesis by blast
qed

inductive_simps reads_string [simp]: "reads lv (SString s) v"
inductive_simps reads_group [simp]: "reads lv (SGroup as) v"
inductive_simps reads_valuer: "reads lv (SValuer i) v"

theorem log_schema_witness:
  "\<exists>h n. extended_by n [OpenGroup ''search'', AddAttrs (\<lambda>_. SGroup [(''g'', SGroup []), (''at'', SString ''now'')]) [('''', SValuer 0)]]
        (New_logger \<lparr>log_service = ''api'', log_environment = ''test'', log_version = '''', log_minimum = 0\<rparr>) = Some h \<and>
     log_to n (\<lambda>_. SString '''') h \<lparr>requestID = ''r1'', traceID = '''', ctx_principal = None\<rparr>
       \<lparr>rec_level = 4, rec_message = ''m'', rec_attrs = [(''empty'', SGroup [])]\<rparr> =
     Some (Some \<lparr>p_level = 4, p_message = ''m'', p_attrs =
       [(''request_id'', SString ''r1''), (''service'', SString ''api''), (''environment'', SString ''test''),
        (''version'', SString ''dev''), (''search'', SGroup [(''at'', SString ''now'')])]\<rparr>)"
proof -
  let ?lv = "\<lambda>_. SGroup [(''g'', SGroup []), (''at'', SString ''now'')]"
  let ?es = "[OpenGroup ''search'', AddAttrs ?lv [('''', SValuer 0)]]"
    and ?opts = "\<lparr>log_service = ''api'', log_environment = ''test'', log_version = '''', log_minimum = 0\<rparr>"
    and ?r = "\<lparr>rec_level = 4, rec_message = ''m'', rec_attrs = [(''empty'', SGroup [])]\<rparr>"
  have R: "Resolve maxLogValues lv (SValuer 0) = lv 0" if "Resolve 99 lv (lv 0) = lv 0" for lv
    using that by (simp add: maxLogValues_def numeral_eq_Suc)
  have v: "reads ?lv (SValuer 0) v \<longleftrightarrow> v = SGroup [(''g'', SGroup []), (''at'', SString ''now'')]" for v
    by (subst reads_valuer) (auto simp: R numeral_eq_Suc maxLogValues_def list_all2_Cons1 rel_prod_eq_iff)
  have H: "\<forall>lv' bs. AddAttrs lv' bs \<in> set ?es \<longrightarrow> (\<forall>(k, x) \<in> set bs. \<exists>v'. reads lv' x v')"
    "\<forall>(k, x) \<in> set (rec_attrs ?r). \<exists>v'. reads (\<lambda>_. SString '''') x v'"
    using v reads.group [of "\<lambda>_. SString ''''" "SGroup []" "[]" "[]"] by (auto simp: Resolve_settled)
  have out: "lays_out (\<lambda>_. SString '''') ?es (rec_attrs ?r) out \<Longrightarrow>
      concat (map shown out) = [(''search'', SGroup [(''at'', SString ''now'')])]" for out
    by (auto simp: v list_all2_Cons1 rel_prod_eq_iff drop_empty_def open_group_def GroupValue_def)
  from log_schema [OF H, of ?opts "\<lparr>requestID = ''r1'', traceID = '''', ctx_principal = None\<rparr>"]
  show ?thesis
    by (elim exE conjE) (drule out, rule exI, drule spec, drule mp, rule order_refl, rule exI,
        simp add: correlation_attrs_def identity_attrs_def)
qed

text \<open>The failure of an entry point is always reported once, as an error, also without configuration.\<close>

lemma log_plain_texts:
  assumes "texts (rec_attrs r)"
  shows "log_plain (New_logger opts) c r =
    (if rec_level r < log_minimum opts then None
     else Some \<lparr>p_level = rec_level r, p_message = rec_message r,
       p_attrs = correlation_attrs c @ identity_attrs opts @ rec_attrs r\<rparr>)"
proof -
  have "drop_empty (rec_attrs r) = rec_attrs r"
    using assms unfolding texts_def drop_empty_def by (intro filter_True) auto
  then have "those (map (print_attr (Suc 0) (\<lambda>_. SString '''')) (drop_empty (rec_attrs r))) = Some (map (\<lambda>a. [a]) (rec_attrs r))"
    using assms by (simp add: print_texts those_Somes del: print_attr.simps)
  from log_new_logger [OF refl refl this] show ?thesis by (simp add: log_plain_def)
qed

lemma Failure_reports:
  "\<exists>p. Failure env svc version err = Some p \<and> p_level p = 8 \<and>
     p_attrs p = [(''service'', SString svc), (''environment'', SString (if env ''APP_ENV'' = '''' then ''development'' else env ''APP_ENV'')),
       (''version'', SString (if version = '''' then ''dev'' else version)), (''error_code'', SString ''runtime_failed''),
       (''error'', SString (Error err))]"
  by (simp add: Failure_def Let_def log_plain_texts texts_def correlation_attrs_def no_context_def identity_attrs_def)

end
