(* ===== verification/Bootstrap.thy ===== *)
theory Bootstrap
  imports Config Http_Timeout Logging
begin

text \<open>
  The package \<^verbatim>\<open>src/internal/bootstrap\<close>: the owned resources (\<^verbatim>\<open>resources.go\<close>), the life of a runtime
  (\<^verbatim>\<open>app.go\<close>), the API, worker and indexer (\<^verbatim>\<open>api.go\<close>, \<^verbatim>\<open>worker.go\<close>, \<^verbatim>\<open>indexer.go\<close>) and the health
  routes (\<^verbatim>\<open>health.go\<close>).

  A runtime acts on a \<open>host\<close>, which holds the events so far and the answers of everything outside
  the process: when the stop signal arrives, and how opening, listening, serving and closing go. An
  operation appends its event and returns the answer of the host. Running ends by returning, by
  a panic, or not at all when nothing ever stops the runtime.
\<close>

section \<open>The host\<close>

datatype event =
    DatabaseOpened | DatabaseClosed | DatabaseAbandoned
  | ListenerOpened | ListenerClosed
  | TracingStarted | TracingStopped
  | ServerStarted | ServerDraining | ServerForced | ServerStopped
  | RequestsCancelled | Stopping | Logged string

text \<open>
  \<open>stop_at\<close>: after how many events the context is cancelled, if ever. \<open>serve_failure\<close>: the error with
  which the server stops by itself, if it does; otherwise it serves until it is shut down.
\<close>

record host =
  events :: "event list"
  stop_at :: "nat option"
  open_answer :: "gerror option"
  database_close_answer :: "gerror option"
  listen_answer :: "gerror option"
  listener_close_answer :: "gerror option"
  tracing_answer :: "gerror option"
  tracing_stop_answer :: "gerror option"
  serve_failure :: "gerror option"
  shutdown_answer :: "gerror option"
  force_answer :: "gerror option"

definition emit :: "event \<Rightarrow> host \<Rightarrow> host" where
  "emit e h = h\<lparr>events := events h @ [e]\<rparr>"

abbreviation Canceled :: gerror where "Canceled \<equiv> Sentinel ''context.Canceled''"
abbreviation ErrClosed :: gerror where "ErrClosed \<equiv> Sentinel ''net.ErrClosed''"
abbreviation ErrServerClosed :: gerror where "ErrServerClosed \<equiv> Sentinel ''http.ErrServerClosed''"

text \<open>\<^verbatim>\<open>ctx.Err()\<close>.\<close>

definition ctx_Err :: "host \<Rightarrow> gerror option" where
  "ctx_Err h =
     (case stop_at h of None \<Rightarrow> None | Some n \<Rightarrow> if n \<le> length (events h) then Some Canceled else None)"

section \<open>resources.go\<close>

type_synonym closer = "host \<Rightarrow> gerror option \<times> host"
type_synonym resources = "(string \<times> closer) list"

definition resources_add :: "string \<Rightarrow> closer \<Rightarrow> resources \<Rightarrow> resources" where
  "resources_add name close r = r @ [(name, close)]"

fun close_loop :: "(string \<times> closer) list \<Rightarrow> gerror option \<Rightarrow> host \<Rightarrow> gerror option \<times> host" where
  "close_loop [] result h = (result, h)"
| "close_loop ((name, close) # entries) result h =
     (case close h of
        (None, h') \<Rightarrow> close_loop entries result h'
      | (Some e, h') \<Rightarrow>
          close_loop entries (errors_Join [result, Some (WrapErr (''close '' @ name @ '': '' @ Error e) e)]) h')"

text \<open>\<^verbatim>\<open>resources.close\<close>: the error, the emptied resources and the host.\<close>

definition resources_close :: "resources \<Rightarrow> host \<Rightarrow> gerror option \<times> resources \<times> host" where
  "resources_close r h = (case close_loop (rev r) None h of (result, h') \<Rightarrow> (result, [], h'))"

section \<open>app.go\<close>

datatype run_outcome = Returned "gerror option" | Panicking | Blocked

record app =
  service :: string
  app_cfg :: config
  started :: bool
  app_run :: "(host \<Rightarrow> resources \<Rightarrow> run_outcome \<times> resources \<times> host) option"

text \<open>\<^verbatim>\<open>newApp\<close> with the logger it makes of the options.\<close>

definition WithVersion :: "string \<Rightarrow> log_options \<Rightarrow> log_options" where
  "WithVersion v opts = opts\<lparr>log_version := v\<rparr>"

definition newApp :: "(bytes \<Rightarrow> bytes) \<Rightarrow> environment \<Rightarrow> string \<Rightarrow> (log_options \<Rightarrow> log_options) list \<Rightarrow> gerror + app \<times> contextHandler" where
  "newApp uni env runtime options =
     (case LoadFor uni env runtime of
        Inl e \<Rightarrow> Inl (WrapErr (''configure '' @ runtime @ '': '' @ Error e) e)
      | Inr cfg \<Rightarrow>
          Inr (\<lparr>service = runtime, app_cfg = cfg, started = False, app_run = None\<rparr>,
               New_logger (fold (\<lambda>option opts. option opts) options
                 \<lparr>log_service = runtime, log_environment = Environment cfg, log_version = '''', log_minimum = LogLevel cfg\<rparr>)))"

definition LogFailure :: "environment \<Rightarrow> string \<Rightarrow> string \<Rightarrow> gerror \<Rightarrow> printed option" where
  "LogFailure env service_name version err = Failure env service_name version err"

text \<open>
  The closer of the database: it waits for the pool or for the deadline of the shutdown. At the
  deadline it returns the error of the context, and the goroutine that closes the pool is left
  behind, with the pool still open.
\<close>

definition close_database :: closer where
  "close_database h =
     (case database_close_answer h of
        None \<Rightarrow> (None, emit DatabaseClosed h)
      | Some ctx_err \<Rightarrow> (Some ctx_err, emit DatabaseAbandoned h))"

text \<open>
  The part of \<^verbatim>\<open>Run\<close> before the deferred function: the database, then the runtime's own function.
\<close>

definition run_body :: "app \<Rightarrow> (host \<Rightarrow> resources \<Rightarrow> run_outcome \<times> resources \<times> host) \<Rightarrow> host \<Rightarrow> run_outcome \<times> resources \<times> host" where
  "run_body a rn h =
     (if DatabaseURL (app_cfg a) \<noteq> '''' then
        (case open_answer h of
           Some e \<Rightarrow> if ctx_Err h \<noteq> None then (Returned None, [], h) else (Returned (Some e), [], h)
         | None \<Rightarrow> rn (emit DatabaseOpened h) (resources_add ''database'' close_database []))
      else rn h [])"

text \<open>
  The deferred function: it closes what is owned, joins the errors and reports a clean stop. On a
  panic the named result is still nil when it runs.
\<close>

definition finish :: "run_outcome \<Rightarrow> resources \<Rightarrow> host \<Rightarrow> run_outcome \<times> host" where
  "finish out owned h =
     (case out of
        Blocked \<Rightarrow> (Blocked, h)
      | Returned err \<Rightarrow>
          (case resources_close owned h of (cerr, _, h') \<Rightarrow>
             let err' = errors_Join [err, cerr] in
             (Returned err', if err' = None then emit (Logged ''runtime stopped'') h' else h'))
      | Panicking \<Rightarrow>
          (case resources_close owned h of (cerr, _, h') \<Rightarrow>
             (Panicking, if errors_Join [None, cerr] = None then emit (Logged ''runtime stopped'') h' else h')))"

definition App_Run :: "app \<Rightarrow> host \<Rightarrow> run_outcome \<times> app \<times> host" where
  "App_Run a h =
     (case app_run a of
        None \<Rightarrow> (Returned (Some (NewErr ''bootstrap: application is not initialized'')), a, h)
      | Some rn \<Rightarrow>
          if started a then (Returned (Some (NewErr ''bootstrap: application already ran'')), a, h)
          else let a' = a\<lparr>started := True\<rparr> in
            if ctx_Err h \<noteq> None then (Returned None, a', h)
            else (case run_body a' rn h of (out, owned, h1) \<Rightarrow>
                    case finish out owned h1 of (out', h2) \<Rightarrow> (out', a', h2)))"

section \<open>worker.go and indexer.go\<close>

text \<open>Waiting for the context alone: for ever when the signal never comes.\<close>

definition wait_stop :: "host \<Rightarrow> resources \<Rightarrow> run_outcome \<times> resources \<times> host" where
  "wait_stop h owned = (if stop_at h = None then (Blocked, owned, h) else (Returned None, owned, emit Stopping h))"

definition worker_run :: "host \<Rightarrow> resources \<Rightarrow> run_outcome \<times> resources \<times> host" where
  "worker_run h owned = wait_stop (emit (Logged ''worker runtime initialized'') h) owned"

definition indexer_run :: "host \<Rightarrow> resources \<Rightarrow> run_outcome \<times> resources \<times> host" where
  "indexer_run h owned = wait_stop (emit (Logged ''indexer runtime initialized'') h) owned"

definition NewWorker :: "(bytes \<Rightarrow> bytes) \<Rightarrow> environment \<Rightarrow> (log_options \<Rightarrow> log_options) list \<Rightarrow> gerror + app \<times> contextHandler" where
  "NewWorker uni env options =
     bind_sum (newApp uni env Worker options) (\<lambda>(a, l). Inr (a\<lparr>app_run := Some worker_run\<rparr>, l))"

definition NewIndexer :: "(bytes \<Rightarrow> bytes) \<Rightarrow> environment \<Rightarrow> (log_options \<Rightarrow> log_options) list \<Rightarrow> gerror + app \<times> contextHandler" where
  "NewIndexer uni env options =
     bind_sum (newApp uni env Indexer options) (\<lambda>(a, l). Inr (a\<lparr>app_run := Some indexer_run\<rparr>, l))"

section \<open>health.go\<close>

definition health :: "request \<Rightarrow> gerror option prog" where
  "health r = JSON r 200 (Inr (json_print (JObj [(''status'', JString ''ok'')])))"

text \<open>
  The readiness handler: \<open>probe\<close> is \<open>None\<close> for a nil probe, otherwise its answer within the probe
  timeout.
\<close>

definition ready :: "gerror option option \<Rightarrow> request \<Rightarrow> gerror option prog" where
  "ready probe r =
     (case probe of
        None \<Rightarrow> Ret (Some (CodeErr ErrProviderUnavailable))
      | Some (Some e) \<Rightarrow> Ret (Some (CodeErr ErrProviderUnavailable))
      | Some None \<Rightarrow> health r)"

text \<open>
  The routes with their patterns, in the order of registration; the metrics route only when
  metrics are given. \<open>fmt\<close> prints the floating-point values of the metrics page.
\<close>

definition databaseHealthRoutes :: "(real \<Rightarrow> string) \<Rightarrow> gerror option option \<Rightarrow> bool \<Rightarrow> (string \<times> handler) list" where
  "databaseHealthRoutes fmt probe metrics_given =
     (if metrics_given then [(''GET /metrics'', Metrics_ServeHTTP fmt)] else [])
     @ [(''GET /health/live'', Adapt health), (''GET /health/ready'', Adapt (ready probe))]"

definition healthRoutes :: "(real \<Rightarrow> string) \<Rightarrow> bool \<Rightarrow> (string \<times> handler) list" where
  "healthRoutes fmt metrics_given = databaseHealthRoutes fmt None metrics_given"

section \<open>api.go\<close>

definition url_parts_of :: "url \<Rightarrow> url_parts" where
  "url_parts_of u = \<lparr>u_scheme = Scheme u, u_host = Host u, u_user = (User u \<noteq> None), u_path = URLPath u,
     u_query = RawQuery u, u_fragment = Fragment u\<rparr>"

definition parse_origin :: "string \<Rightarrow> url_parts option" where
  "parse_origin s = map_option url_parts_of (url_Parse s)"

text \<open>What \<^verbatim>\<open>serveHTTP\<close> passes to \<^verbatim>\<open>httpserver.New\<close>.\<close>

definition server_config_of :: "config \<Rightarrow> server_config" where
  "server_config_of c =
     \<lparr>ReadTimeout = HTTPReadTimeout c, WriteTimeout = HTTPWriteTimeout c, IdleTimeout = HTTPIdleTimeout c,
      ReadHeaderTimeout = HTTPReadHeaderTimeout c, MaxHeaderBytes = HTTPMaxHeaderBytes c\<rparr>"

definition options_of :: "config \<Rightarrow> middleware_options" where
  "options_of c =
     \<lparr>mo_origins = origin_list (CORSOrigins c), mo_timeout = HTTPRequestTimeout c, mo_rate = HTTPRatePerSecond c,
      mo_burst = HTTPRateBurst c, mo_tracing = Some HTTPTracing, mo_metrics = True\<rparr>"

definition build_server :: "(bytes \<Rightarrow> bytes) \<Rightarrow> int \<Rightarrow> config \<Rightarrow> handler \<Rightarrow> gerror + handler \<times> limiter option" where
  "build_server uni now c h = New uni parse_origin now (server_config_of c) True h [options_of c]"

text \<open>
  The closer of the server: drain, force when the deadline passes, wait for the serving goroutine,
  and join the errors. Cancelling the requests is deferred.
\<close>

definition close_server :: closer where
  "close_server h =
     (let h1 = emit ServerDraining h;
          (shutdownErr, h2) =
            (case shutdown_answer h of
               None \<Rightarrow> (None, h1)
             | Some e \<Rightarrow> (errors_Join [Some e, force_answer h], emit ServerForced (emit RequestsCancelled h1)));
          serveErr = (case serve_failure h of Some e \<Rightarrow> e | None \<Rightarrow> ErrServerClosed);
          serveErr' = (if errors_Is serveErr ErrServerClosed then None else Some serveErr)
      in (errors_Join [shutdownErr, serveErr'], emit RequestsCancelled (emit ServerStopped h2)))"

text \<open>
  \<^verbatim>\<open>NewTracing\<close> of \<^verbatim>\<open>src/internal/platform/telemetry\<close>: the options of the provider; \<open>exporter\<close> is the answer of
  creating the exporter, asked only for a non-empty endpoint.
\<close>

record tracing_provider =
  tp_service :: string
  tp_percent_sampled :: nat
  tp_endpoint :: "string option"

definition NewTracing :: "string \<Rightarrow> gerror option \<Rightarrow> gerror + tracing_provider" where
  "NewTracing endpoint exporter =
     (let provider = \<lparr>tp_service = ''address-intelligence-platform-api'', tp_percent_sampled = 10, tp_endpoint = None\<rparr> in
      if endpoint \<noteq> '''' then
        (case exporter of
           Some e \<Rightarrow> Inl (WrapErr (''initialize OTLP tracing: '' @ Error e) e)
         | None \<Rightarrow> Inr (provider\<lparr>tp_endpoint := Some endpoint\<rparr>))
      else Inr provider)"

definition stop_tracing :: closer where
  "stop_tracing h = (tracing_stop_answer h, emit TracingStopped h)"

definition close_listener :: closer where
  "close_listener h =
     ((case listener_close_answer h of
         None \<Rightarrow> None | Some e \<Rightarrow> if errors_Is e ErrClosed then None else Some e), emit ListenerClosed h)"

definition serveHTTP :: "(bytes \<Rightarrow> bytes) \<Rightarrow> int \<Rightarrow> app \<Rightarrow> handler \<Rightarrow> host \<Rightarrow> resources \<Rightarrow> run_outcome \<times> resources \<times> host" where
  "serveHTTP uni now a handler h owned =
     (case NewTracing (OTLPEndpoint (app_cfg a)) (tracing_answer h) of
        Inl e \<Rightarrow> (Returned (Some e), owned, h)
      | Inr _ \<Rightarrow>
          let h1 = emit TracingStarted h; owned1 = resources_add ''tracing'' stop_tracing owned in
          (case build_server uni now (app_cfg a) handler of
             Inl e \<Rightarrow> (Returned (Some e), owned1, emit RequestsCancelled h1)
           | Inr _ \<Rightarrow>
               let owned2 = resources_add ''HTTP server'' close_server owned1;
                   h2 = emit (Logged ''HTTP server listening'') (emit ServerStarted h1) in
               if stop_at h = None \<and> serve_failure h = None then (Blocked, owned2, h2)
               else (Returned None, owned2, emit Stopping h2)))"

definition api_run :: "(bytes \<Rightarrow> bytes) \<Rightarrow> int \<Rightarrow> app \<Rightarrow> handler \<Rightarrow> host \<Rightarrow> resources \<Rightarrow> run_outcome \<times> resources \<times> host" where
  "api_run uni now a handler h owned =
     (case listen_answer h of
        Some e \<Rightarrow>
          if ctx_Err h \<noteq> None \<and> errors_Is e (the (ctx_Err h)) then (Returned None, owned, h)
          else (Returned (Some (WrapErr (''listen HTTP: '' @ Error e) e)), owned, h)
      | None \<Rightarrow>
          serveHTTP uni now a handler (emit ListenerOpened h) (resources_add ''HTTP listener'' close_listener owned))"

text \<open>
  \<^verbatim>\<open>NewAPI\<close>. \<open>mux\<close> makes a handler of the routes; \<open>probe\<close> is the answer of the readiness probe, which
  uses the database the application has opened.
\<close>

definition NewAPI ::
  "(bytes \<Rightarrow> bytes) \<Rightarrow> (real \<Rightarrow> string) \<Rightarrow> int \<Rightarrow> ((string \<times> handler) list \<Rightarrow> handler) \<Rightarrow> gerror option \<Rightarrow> environment \<Rightarrow>
   (log_options \<Rightarrow> log_options) list \<Rightarrow> gerror + app \<times> contextHandler" where
  "NewAPI uni fmt now mux probe env options =
     bind_sum (newApp uni env API options) (\<lambda>(a, l).
       let routes = databaseHealthRoutes fmt (Some probe) (local_env (Environment (app_cfg a))) in
       Inr (a\<lparr>app_run := Some (api_run uni now a (mux routes))\<rparr>, l))"

text \<open>The convenience entry points build the application without options and run it.\<close>

definition run_new :: "gerror + app \<times> contextHandler \<Rightarrow> host \<Rightarrow> run_outcome \<times> host" where
  "run_new built h =
     (case built of Inl e \<Rightarrow> (Returned (Some e), h) | Inr (a, l) \<Rightarrow> (case App_Run a h of (out, _, h') \<Rightarrow> (out, h')))"

definition RunAPI :: "(bytes \<Rightarrow> bytes) \<Rightarrow> (real \<Rightarrow> string) \<Rightarrow> int \<Rightarrow> ((string \<times> handler) list \<Rightarrow> handler) \<Rightarrow> gerror option \<Rightarrow> environment \<Rightarrow> host \<Rightarrow> run_outcome \<times> host" where
  "RunAPI uni fmt now mux probe env h = run_new (NewAPI uni fmt now mux probe env []) h"

definition RunWorker :: "(bytes \<Rightarrow> bytes) \<Rightarrow> environment \<Rightarrow> host \<Rightarrow> run_outcome \<times> host" where
  "RunWorker uni env h = run_new (NewWorker uni env []) h"

definition RunIndexer :: "(bytes \<Rightarrow> bytes) \<Rightarrow> environment \<Rightarrow> host \<Rightarrow> run_outcome \<times> host" where
  "RunIndexer uni env h = run_new (NewIndexer uni env []) h"

end
