(* ===== verification/Bootstrap_Claims.thy ===== *)
theory Bootstrap_Claims
  imports Bootstrap Config_Claims
begin

text \<open>
  What the runtimes guarantee: resources are released in reverse order in every outcome, a runtime
  runs once, a validated configuration always gives a server, and readiness follows the probe.
\<close>

section \<open>Closing resources\<close>

text \<open>The reference: every closer is called once, the last registered first.\<close>

fun close_each :: "(string \<times> closer) list \<Rightarrow> host \<Rightarrow> gerror option list \<times> host" where
  "close_each [] h = ([], h)"
| "close_each ((name, close) # es) h =
     (case close h of (e, h1) \<Rightarrow> case close_each es h1 of (answers, h2) \<Rightarrow> (e # answers, h2))"

lemma errors_Join_None [simp]: "errors_Join errs = None \<longleftrightarrow> (\<forall>e \<in> set errs. e = None)"
  by (auto simp: errors_Join_def Let_def filter_empty_conv)

lemma errors_Join_chain: "Some e \<in> set errs \<Longrightarrow> \<exists>j. errors_Join errs = Some j \<and> set (chain e) \<subseteq> set (chain j)"
proof -
  assume a: "Some e \<in> set errs"
  define es where "es = map the (filter (\<lambda>e. e \<noteq> None) errs)"
  have e: "e \<in> set es" using a by (force simp: es_def)
  then have "es \<noteq> []" by auto
  then have "errors_Join errs = Some (JoinErr es)" by (simp only: errors_Join_def es_def Let_def if_False)
  moreover have "set (chain e) \<subseteq> set (chain (JoinErr es))" using e by (subst chain.simps [of "JoinErr es"]) auto
  ultimately show ?thesis by blast
qed

lemma chain_WrapErr: "set (chain e) \<subseteq> set (chain (WrapErr t e))"
  by (subst chain.simps [of "WrapErr t e"]) auto

lemma close_loop_spec:
  "snd (close_loop es result h) = snd (close_each es h) \<and>
   (fst (close_loop es result h) = None \<longleftrightarrow> result = None \<and> (\<forall>a \<in> set (fst (close_each es h)). a = None)) \<and>
   (\<forall>e. Some e \<in> set (fst (close_each es h)) \<or> result = Some e \<longrightarrow>
      (\<exists>j. fst (close_loop es result h) = Some j \<and> set (chain e) \<subseteq> set (chain j)))"
proof (induction es arbitrary: result h)
  case (Cons entry es)
  obtain name close where entry: "entry = (name, close)" by fastforce
  obtain e h1 where c: "close h = (e, h1)" by fastforce
  obtain answers h2 where ce: "close_each es h1 = (answers, h2)" by fastforce
  show ?case
  proof (cases e)
    case None
    then show ?thesis using Cons [of result h1] by (simp add: entry c ce)
  next
    case (Some x)
    define r' where "r' = errors_Join [result, Some (WrapErr (''close '' @ name @ '': '' @ Error x) x)]"
    have r': "r' \<noteq> None" by (simp add: r'_def)
    have here: "\<exists>j. r' = Some j \<and> set (chain y) \<subseteq> set (chain j)" if "y = x \<or> result = Some y" for y
      using that errors_Join_chain [of "WrapErr (''close '' @ name @ '': '' @ Error x) x" "[result, Some (WrapErr (''close '' @ name @ '': '' @ Error x) x)]"]
        errors_Join_chain [of y "[result, Some (WrapErr (''close '' @ name @ '': '' @ Error x) x)]"]
        chain_WrapErr [of x "''close '' @ name @ '': '' @ Error x"]
      by (auto simp: r'_def)
    have step: "close_loop (entry # es) result h = close_loop es r' h1" by (simp add: entry c Some r'_def del: Error.simps)
    note IH = Cons [of r' h1]
    have "\<exists>j. fst (close_loop es r' h1) = Some j \<and> set (chain y) \<subseteq> set (chain j)" if y: "y = x \<or> result = Some y" for y
    proof -
      from here [OF y] obtain j where j: "r' = Some j" "set (chain y) \<subseteq> set (chain j)" by blast
      with IH obtain k where "fst (close_loop es r' h1) = Some k" "set (chain j) \<subseteq> set (chain k)" by blast
      with j show ?thesis by blast
    qed
    moreover have "close_each (entry # es) h = (Some x # answers, h2)" by (simp add: entry c Some ce)
    ultimately show ?thesis
      unfolding step using IH r' by (simp add: ce del: close_loop.simps)
  qed
qed simp

text \<open>
  Closing is complete and in reverse order. Whatever the closers do, closing the owned
  resources calls every closer exactly once, the last registered first, each on the host the
  previous one left, also after failures; it returns no error exactly when every closer
  succeeded, otherwise an error in which each failure can be found; and it leaves nothing owned,
  so that closing again does nothing.
\<close>

theorem resources_close_all:
  "\<exists>err h'. resources_close r h = (err, [], h') \<and> h' = snd (close_each (rev r) h) \<and>
     (err = None \<longleftrightarrow> (\<forall>a \<in> set (fst (close_each (rev r) h)). a = None)) \<and>
     (\<forall>e target. Some e \<in> set (fst (close_each (rev r) h)) \<and> errors_Is e target \<longrightarrow> errors_Is (the err) target) \<and>
     resources_close [] h' = (None, [], h')"
proof -
  obtain err h' where c: "close_loop (rev r) None h = (err, h')" by fastforce
  note s = close_loop_spec [of "rev r" None h, unfolded c fst_conv snd_conv]
  have "errors_Is (the err) target" if "Some e \<in> set (fst (close_each (rev r) h))" "errors_Is e target" for e target
  proof -
    from s that(1) obtain j where "err = Some j" "set (chain e) \<subseteq> set (chain j)" by blast
    with that(2) show ?thesis by (auto simp: errors_Is_iff)
  qed
  then show ?thesis using s by (auto simp: resources_close_def c)
qed

definition demo_host :: host where
  "demo_host = \<lparr>events = [], stop_at = Some 6, open_answer = None, database_close_answer = None, listen_answer = None,
     listener_close_answer = None, tracing_answer = None, tracing_stop_answer = None, serve_failure = None,
     shutdown_answer = None, force_answer = None\<rparr>"

theorem resources_close_all_witness:
  "\<exists>err h'. resources_close [(''database'', close_database), (''tracing'', stop_tracing)]
       (demo_host\<lparr>database_close_answer := Some Canceled\<rparr>) = (Some err, [], h') \<and> errors_Is err Canceled \<and>
     events h' = [TracingStopped, DatabaseAbandoned]"
proof -
  let ?r = "[(''database'', close_database), (''tracing'', stop_tracing)]" and ?h = "demo_host\<lparr>database_close_answer := Some Canceled\<rparr>"
  have c: "close_each (rev ?r) ?h = ([None, Some Canceled], emit DatabaseAbandoned (emit TracingStopped ?h))"
    by (simp add: close_database_def stop_tracing_def demo_host_def emit_def)
  have "errors_Is Canceled Canceled" by code_simp
  with resources_close_all [of ?r ?h] show ?thesis unfolding c
    by (auto simp: emit_def demo_host_def)
qed

section \<open>A runtime runs once\<close>

text \<open>
  A runtime is single-use. Whatever a first \<^verbatim>\<open>Run\<close> does, the application is marked, and every later
  \<^verbatim>\<open>Run\<close> returns the error that says so without touching the host.
\<close>

theorem App_Run_once:
  assumes "app_run a \<noteq> None" and "App_Run a h = (out, a', h')"
  shows "App_Run a' g = (Returned (Some (NewErr ''bootstrap: application already ran'')), a', g)"
  using assms by (auto simp: App_Run_def Let_def split: option.splits if_splits prod.splits)

definition demo_worker :: app where
  "demo_worker = \<lparr>service = Worker, app_cfg = empty_config, started = False, app_run = Some worker_run\<rparr>"

theorem App_Run_once_witness:
  "\<exists>a'. fst (snd (App_Run demo_worker demo_host)) = a' \<and>
     App_Run a' demo_host = (Returned (Some (NewErr ''bootstrap: application already ran'')), a', demo_host)"
proof -
  obtain res a' h' where r: "App_Run demo_worker demo_host = (res, a', h')" by (metis prod_cases3)
  have "app_run demo_worker \<noteq> None" by (simp add: demo_worker_def)
  from App_Run_once [OF this r] r show ?thesis by simp
qed

section \<open>The life of the API\<close>

text \<open>
  What the stop owes each acquisition. \<open>late\<close> says that the pool did not close before the deadline of
  the shutdown: it is then given up instead of closed.
\<close>

definition release_of :: "bool \<Rightarrow> event \<Rightarrow> event option" where
  "release_of late e =
     (case e of DatabaseOpened \<Rightarrow> Some (if late then DatabaseAbandoned else DatabaseClosed)
      | ListenerOpened \<Rightarrow> Some ListenerClosed
      | TracingStarted \<Rightarrow> Some TracingStopped | ServerStarted \<Rightarrow> Some ServerStopped | _ \<Rightarrow> None)"

definition acquired :: "event list \<Rightarrow> event list" where
  "acquired es = filter (\<lambda>e. e \<in> {DatabaseOpened, ListenerOpened, TracingStarted, ServerStarted}) es"

definition released :: "event list \<Rightarrow> event list" where
  "released es = filter (\<lambda>e. e \<in> {DatabaseClosed, DatabaseAbandoned, ListenerClosed, TracingStopped, ServerStopped}) es"

lemma acquired_simps [simp]:
  "acquired [] = []"
  "acquired (e # es) = (if e \<in> {DatabaseOpened, ListenerOpened, TracingStarted, ServerStarted} then e # acquired es else acquired es)"
  "acquired (es @ fs) = acquired es @ acquired fs"
  by (simp_all add: acquired_def)

lemma released_simps [simp]:
  "released [] = []"
  "released (e # es) =
     (if e \<in> {DatabaseClosed, DatabaseAbandoned, ListenerClosed, TracingStopped, ServerStopped} then e # released es else released es)"
  "released (es @ fs) = released es @ released fs"
  by (simp_all add: released_def)

definition api_app :: "(bytes \<Rightarrow> bytes) \<Rightarrow> int \<Rightarrow> app \<Rightarrow> handler \<Rightarrow> app" where
  "api_app uni now a h = a\<lparr>app_run := Some (api_run uni now a h), started := False\<rparr>"

lemma NewAPI_app:
  assumes "NewAPI uni fmt now mux probe env opts = Inr (a, l)"
  obtains a0 hnd where "a = api_app uni now a0 hnd"
proof -
  from assms obtain cfg where "a = api_app uni now \<lparr>service = API, app_cfg = cfg, started = False, app_run = None\<rparr>
      (mux (databaseHealthRoutes fmt (Some probe) (local_env (Environment cfg))))"
    by (auto simp: NewAPI_def newApp_def api_app_def Let_def split: sum.splits)
  then show thesis by (rule that)
qed

text \<open>The events after an acquisition are the releases, in reverse, and what serving leaves behind.\<close>

lemma host_simps [simp]:
  "events (emit e h) = events h @ [e]" "stop_at (emit e h) = stop_at h" "open_answer (emit e h) = open_answer h"
  "database_close_answer (emit e h) = database_close_answer h" "listen_answer (emit e h) = listen_answer h"
  "listener_close_answer (emit e h) = listener_close_answer h" "tracing_answer (emit e h) = tracing_answer h"
  "tracing_stop_answer (emit e h) = tracing_stop_answer h" "serve_failure (emit e h) = serve_failure h"
  "shutdown_answer (emit e h) = shutdown_answer h" "force_answer (emit e h) = force_answer h"
  by (simp_all add: emit_def)

text \<open>Where \<open>api_run\<close> can end: how far the start got and what is owned by then.\<close>

lemma api_run_stages:
  assumes "api_run uni now a hnd h r = (out, r', h')"
  obtains (listen) "r' = r" "h' = h" "out \<noteq> Blocked" "out \<noteq> Panicking"
  | (tracing) "r' = r @ [(''HTTP listener'', close_listener)]" "h' = emit ListenerOpened h" "out \<noteq> Blocked" "out \<noteq> Panicking"
  | (server) "r' = r @ [(''HTTP listener'', close_listener), (''tracing'', stop_tracing)]" "out \<noteq> Blocked" "out \<noteq> Panicking"
      "h' = emit RequestsCancelled (emit TracingStarted (emit ListenerOpened h))" "out \<noteq> Returned None"
  | (serving) "r' = r @ [(''HTTP listener'', close_listener), (''tracing'', stop_tracing), (''HTTP server'', close_server)]"
      "h' = emit Stopping (emit (Logged ''HTTP server listening'') (emit ServerStarted (emit TracingStarted (emit ListenerOpened h))))"
      "out = Returned None"
  | (blocked) "out = Blocked"
  using assms unfolding api_run_def serveHTTP_def resources_add_def Let_def
  by (auto split: option.splits if_splits sum.splits)

text \<open>What the closers leave on the host.\<close>

definition server_stop :: "host \<Rightarrow> event list" where
  "server_stop h =
     ServerDraining # (if shutdown_answer h = None then [] else [RequestsCancelled, ServerForced]) @ [ServerStopped, RequestsCancelled]"

lemma closer_events [simp]:
  "events (snd (close_database h)) = events h @ [if database_close_answer h = None then DatabaseClosed else DatabaseAbandoned]"
  "events (snd (close_listener h)) = events h @ [ListenerClosed]"
  "events (snd (stop_tracing h)) = events h @ [TracingStopped]"
  "events (snd (close_server h)) = events h @ server_stop h"
  by (simp_all add: close_database_def close_listener_def stop_tracing_def close_server_def server_stop_def Let_def split: option.split)

lemma closer_keeps [simp]:
  "database_close_answer (snd (close_listener h)) = database_close_answer h"
  "database_close_answer (snd (stop_tracing h)) = database_close_answer h"
  "database_close_answer (snd (close_server h)) = database_close_answer h"
  "fst (close_database h) = database_close_answer h"
  by (simp_all add: close_database_def close_listener_def stop_tracing_def close_server_def Let_def split: option.split)

lemma fst_close_each [simp]: "fst (close_each ((name, close) # es) h) = fst (close h) # fst (close_each es (snd (close h)))"
  by (simp split: prod.split)

lemma snd_close_each [simp]: "snd (close_each ((name, close) # es) h) = snd (close_each es (snd (close h)))"
  by (simp split: prod.split)

lemma resources_close_host: "resources_close r h = (err, r', h') \<Longrightarrow> h' = snd (close_each (rev r) h)"
  using close_loop_spec [of "rev r" None h] by (auto simp: resources_close_def split: prod.splits)

text \<open>Ending a run adds the events of the closers, and the report of a clean stop.\<close>

lemma finish_events:
  assumes "finish (Returned err) owned h = (out, h')"
  shows "\<exists>e. out = Returned e \<and>
    events h' = events (snd (close_each (rev owned) h)) @ (if e = None then [Logged ''runtime stopped''] else []) \<and>
    (e = None \<longleftrightarrow> err = None \<and> (\<forall>a \<in> set (fst (close_each (rev owned) h)). a = None))"
proof -
  obtain cerr r' h1 where c: "resources_close owned h = (cerr, r', h1)" using prod_cases3 by blast
  note host = resources_close_host [OF c]
  have "cerr = None \<longleftrightarrow> (\<forall>a \<in> set (fst (close_each (rev owned) h)). a = None)"
    using close_loop_spec [of "rev owned" None h] c by (auto simp: resources_close_def split: prod.splits)
  then have iff: "errors_Join [err, cerr] = None \<longleftrightarrow> err = None \<and> (\<forall>a \<in> set (fst (close_each (rev owned) h)). a = None)"
    (is "?e = None \<longleftrightarrow> ?all") by auto
  have "out = Returned ?e" "h' = (if ?e = None then emit (Logged ''runtime stopped'') h1 else h1)"
    using assms c by (simp_all add: finish_def Let_def del: errors_Join_None)
  moreover have "events h' = events h1 @ (if ?e = None then [Logged ''runtime stopped''] else [])"
    unfolding calculation(2) by (simp del: errors_Join_None)
  ultimately show ?thesis unfolding host [symmetric] iff [symmetric]
    by (intro exI [of _ ?e]) (simp only: simp_thms refl)
qed

lemma finish_error:
  assumes "finish (Returned err) owned h = (out, h')" and "Some d \<in> set (fst (close_each (rev owned) h))"
  shows "\<exists>e. out = Returned (Some e) \<and> (\<forall>target. errors_Is d target \<longrightarrow> errors_Is e target)"
proof -
  obtain cerr r' h1 where c: "resources_close owned h = (cerr, r', h1)" using prod_cases3 by blast
  obtain j where j: "cerr = Some j" "set (chain d) \<subseteq> set (chain j)"
    using close_loop_spec [of "rev owned" None h] assms(2) c by (auto simp: resources_close_def split: prod.splits)
  then obtain e where "errors_Join [err, cerr] = Some e" "set (chain j) \<subseteq> set (chain e)"
    using errors_Join_chain [of j "[err, cerr]"] by auto
  moreover have "out = Returned (errors_Join [err, cerr])"
    using assms(1) c by (simp add: finish_def Let_def del: errors_Join_None)
  ultimately show ?thesis using j(2) by (auto simp: errors_Is_iff)
qed

text \<open>
  A history that releases exactly what it acquires, last first, after a start that releases nothing;
  and that cancels no request before draining a server it started.
\<close>

definition balanced :: "bool \<Rightarrow> event list \<Rightarrow> bool" where
  "balanced late es \<longleftrightarrow>
     (\<exists>start stop. es = start @ stop \<and> released start = [] \<and> acquired stop = [] \<and>
        map Some (released stop) = rev (map (release_of late) (acquired start)) \<and>
        (ServerStarted \<in> set start \<longrightarrow> RequestsCancelled \<notin> set start \<and> (\<exists>rest. stop = ServerDraining # rest)))"

lemma balancedI:
  "released start = [] \<Longrightarrow> acquired stop = [] \<Longrightarrow> map Some (released stop) = rev (map (release_of late) (acquired start)) \<Longrightarrow>
   (ServerStarted \<in> set start \<Longrightarrow> RequestsCancelled \<notin> set start \<and> (\<exists>rest. stop = ServerDraining # rest)) \<Longrightarrow>
   balanced late (start @ stop)"
  by (auto simp: balanced_def)

lemma tail_logged [simp]:
  assumes "set tail \<subseteq> {Logged t}"
  shows "acquired tail = []" "released tail = []"
  using assms by (auto simp: acquired_def released_def release_of_def filter_empty_conv subset_iff split: event.splits)

lemma release_of_simps [simp]:
  "release_of late DatabaseOpened = Some (if late then DatabaseAbandoned else DatabaseClosed)"
  "release_of late ListenerOpened = Some ListenerClosed"
  "release_of late TracingStarted = Some TracingStopped" "release_of late ServerStarted = Some ServerStopped"
  by (simp_all add: release_of_def)

lemma server_stop_parts [simp]: "acquired (server_stop h) = []" "released (server_stop h) = [ServerStopped]"
  by (simp_all add: server_stop_def)

lemma server_stop_database [simp]: "DatabaseAbandoned \<notin> set (server_stop h)"
  by (simp add: server_stop_def)

text \<open>Starting the API leaves the answer of the pool and what was owned before it.\<close>

lemma api_run_keeps:
  assumes "api_run uni now a hnd h r = (out, r', h')"
  shows "database_close_answer h' = database_close_answer h \<and> (\<exists>more. r' = r @ more)"
  using assms unfolding api_run_def serveHTTP_def resources_add_def Let_def
  by (auto split: option.splits if_splits sum.splits)

lemma api_database_answer:
  assumes "api_run uni now a hnd h [(''database'', close_database)] = (out, r', h')" "out \<noteq> Blocked"
  shows "database_close_answer h \<in> set (fst (close_each (rev r') h'))"
  using assms(1)
  by (cases rule: api_run_stages) (use api_run_keeps [OF assms(1)] assms(2) in \<open>auto simp del: close_each.simps(2)\<close>)

lemma api_abandoned:
  assumes r: "api_run uni now a hnd h r = (out, r', h')" "out \<noteq> Blocked"
    and pre: "r = [] \<and> events h = [] \<or> r = [(''database'', close_database)] \<and> events h = [DatabaseOpened]"
    and d: "DatabaseAbandoned \<in> set (events (snd (close_each (rev r') h')))"
  shows "r = [(''database'', close_database)] \<and> database_close_answer h \<noteq> None"
  using r(1)
  by (cases rule: api_run_stages) (use r(2) pre d in \<open>auto split: if_splits simp del: close_each.simps(2)\<close>)

lemma api_balanced:
  assumes r: "api_run uni now a hnd h r = (out, r', h')" "out \<noteq> Blocked" and tail: "set tail \<subseteq> {Logged t}"
    and pre: "r = [] \<and> events h = [] \<or> r = [(''database'', close_database)] \<and> events h = [DatabaseOpened]"
  shows "out \<noteq> Panicking \<and> balanced (database_close_answer h \<noteq> None) (events (snd (close_each (rev r') h')) @ tail)"
proof -
  let ?late = "database_close_answer h \<noteq> None"
  define post where "post = (if r = [] then [] else [if database_close_answer h = None then DatabaseClosed else DatabaseAbandoned])"
  have pre': "released (events h) = []" "acquired post = []" "map Some (released post) = rev (map (release_of ?late) (acquired (events h)))"
    "RequestsCancelled \<notin> set (events h)" "ServerStarted \<notin> set (events h)"
    using pre by (auto simp: post_def)
  have close: "events (snd (close_each (rev r) g)) = events g @ post" if "database_close_answer g = database_close_answer h" for g
    using pre that by (auto simp: post_def simp del: close_each.simps(2))
  note front = balancedI [where start = "events h @ ss" and late = ?late for ss, simplified]
  from r(1) show ?thesis
  proof (cases rule: api_run_stages)
    case listen
    then show ?thesis using pre' tail front [of "[]" "post @ tail"] by (simp add: close)
  next
    case tracing
    then show ?thesis using pre' tail front [of "[ListenerOpened]" "ListenerClosed # post @ tail"]
      by (simp add: close del: close_each.simps(2))
  next
    case server
    then show ?thesis using pre' tail
        front [of "[ListenerOpened, TracingStarted, RequestsCancelled]" "TracingStopped # ListenerClosed # post @ tail"]
      by (simp add: close del: close_each.simps(2))
  next
    case serving
    then show ?thesis using pre' tail
        front [of "[ListenerOpened, TracingStarted, ServerStarted, Logged ''HTTP server listening'', Stopping]"
          "server_stop h' @ TracingStopped # ListenerClosed # post @ tail"]
      by (simp add: close server_stop_def del: close_each.simps(2))
  qed (use r(2) in simp)
qed

lemma App_Run_api:
  assumes "App_Run (api_app uni now a0 hnd) h = (out, a', h')" and "events h = []" and "out \<noteq> Blocked"
  shows "(\<exists>err. out = Returned err) \<and> balanced (database_close_answer h \<noteq> None) (events h') \<and>
    (DatabaseAbandoned \<in> set (events h') \<longrightarrow>
       (\<exists>d err. database_close_answer h = Some d \<and> out = Returned (Some err) \<and> (\<forall>target. errors_Is d target \<longrightarrow> errors_Is err target)))"
proof (cases "ctx_Err h = None \<and> (DatabaseURL (app_cfg a0) = '''' \<or> open_answer h = None)")
  case False
  then show ?thesis using assms balancedI [of "[]" "[]"] balancedI [of "[]" "[Logged ''runtime stopped'']"]
    by (auto simp: api_app_def App_Run_def run_body_def finish_def resources_close_def Let_def split: if_splits option.splits)
next
  case True
  define r0 where "r0 = (if DatabaseURL (app_cfg a0) = '''' then [] else [(''database'', close_database)])"
  define g where "g = (if DatabaseURL (app_cfg a0) = '''' then h else emit DatabaseOpened h)"
  obtain res r' h1 where r: "api_run uni now a0 hnd g r0 = (res, r', h1)" using prod_cases3 by blast
  from assms(1) True have f: "finish res r' h1 = (out, h')"
    using r by (auto simp: api_app_def App_Run_def run_body_def resources_add_def r0_def g_def Let_def split: if_splits option.splits prod.splits)
  have nb: "res \<noteq> Blocked" using f assms(3) by (auto simp: finish_def)
  have pre: "r0 = [] \<and> events g = [] \<or> r0 = [(''database'', close_database)] \<and> events g = [DatabaseOpened]"
    using assms(2) by (simp add: r0_def g_def)
  note b = api_balanced [OF r nb _ pre]
  from b [of "[]"] obtain err where "res = Returned err" using nb by (cases res) auto
  with f obtain e where e: "out = Returned e"
    "events h' = events (snd (close_each (rev r') h1)) @ (if e = None then [Logged ''runtime stopped''] else [])"
    using finish_events by blast
  have answer: "database_close_answer g = database_close_answer h" by (simp add: g_def)
  have "\<exists>d x. database_close_answer h = Some d \<and> out = Returned (Some x) \<and> (\<forall>target. errors_Is d target \<longrightarrow> errors_Is x target)"
    if "DatabaseAbandoned \<in> set (events h')"
  proof -
    from that e(2) have "DatabaseAbandoned \<in> set (events (snd (close_each (rev r') h1)))" by (auto split: if_splits)
    from api_abandoned [OF r nb pre this] obtain d where d: "r0 = [(''database'', close_database)]" "database_close_answer h = Some d"
      using answer by auto
    with api_database_answer [of uni now a0 hnd g] r nb answer have "Some d \<in> set (fst (close_each (rev r') h1))" by auto
    with finish_error f d(2) \<open>res = Returned err\<close> show ?thesis by metis
  qed
  moreover have "balanced (database_close_answer h \<noteq> None) (events h')"
    using b [of "[]"] b [of "[Logged ''runtime stopped'']"] e(2) answer by simp
  ultimately show ?thesis using e(1) by blast
qed

lemma api_not_blocked:
  assumes "App_Run (api_app uni now a0 hnd) h = (out, a', h')" and "stop_at h \<noteq> None"
  shows "out \<noteq> Blocked"
  using assms
  by (auto simp: api_app_def App_Run_def run_body_def finish_def resources_close_def api_run_def serveHTTP_def Let_def
      split: if_splits option.splits prod.splits sum.splits run_outcome.splits)



section \<open>A validated configuration serves\<close>

lemma valid_origin_explicit: "valid_origin s \<Longrightarrow> explicit_origin parse_origin s"
proof -
  assume v: "valid_origin s"
  then obtain u where u: "url_Parse s = Some u" by (auto simp: valid_origin_def split: option.splits)
  with v have p: "validURL s [''http'', ''https'']" "User u = None" "URLPath u = ''''" "RawQuery u = ''''" "\<not> Contains s ''*''"
    by (simp_all add: valid_origin_def) (cases "User u"; auto)
  from p(1) u have q: "Hostname u \<noteq> ''''" "Fragment u = ''''" "Scheme u = ''http'' \<or> Scheme u = ''https''"
    by (auto simp: validURL_def split: if_splits)
  from q(1) have "Host u \<noteq> []" by (auto simp: Hostname_def splitHostPort_def cut_last_def)
  with p q u show ?thesis by (simp add: explicit_origin_def parse_origin_def url_parts_of_def)
qed

text \<open>
  C31. A configuration that loads always gives a server. The settings are checked twice, by the
  validation of a load and by the construction of the server; whatever the environment, a
  configuration loaded for a runtime that uses HTTP passes the second check, for every handler: the
  timeouts, the header size, the rates and every CORS origin. The rate limiter it starts with is
  full.
\<close>

theorem loaded_config_serves:
  assumes "LoadFor uni env rt = Inr cfg" and "usesHTTP rt"
  shows "\<exists>server l. build_server uni now cfg handler = Inr (server, Some l) \<and> tokens l = burst l \<and> 0 < HTTPRateBurst cfg"
proof -
  note s = LoadFor_stages [OF assms(1)]
  note v = Validate_None(5) [OF s [THEN conjunct1]]
  have "list_all (explicit_origin parse_origin) (origin_list (CORSOrigins cfg))"
    using v s assms(2) valid_origin_explicit by (auto simp: list_all_iff)
  then show ?thesis using s v assms(2)
    by (auto simp: build_server_def New_def server_config_of_def options_of_def stack_def NewLimiter_def CORS_def duration_ok_def)
qed

theorem loaded_config_serves_witness:
  "\<exists>cfg server l. LoadFor (map lower_char) (\<lambda>_. '''') API = Inr cfg \<and>
     build_server (map lower_char) 0 cfg (Adapt health) = Inr (server, Some l) \<and> tokens l = burst l"
proof -
  obtain cfg where c: "LoadFor (map lower_char) (\<lambda>_. '''') API = Inr cfg"
    using demo_load by (cases "LoadFor (map lower_char) (\<lambda>_. '''') API") auto
  have "usesHTTP API" by (simp add: usesHTTP_def)
  from loaded_config_serves [OF c this] c show ?thesis by blast
qed

section \<open>Health\<close>

lemma base_write_status: "base_write data q = (answer, q') \<Longrightarrow> status q = Some st \<Longrightarrow> status q' = Some st"
  by (auto simp: base_write_def implicit_header_def connection_io_def Let_def split: option.splits if_splits)

lemma health_envelope:
  "SuccessResponse 200 [] (Inr (json_print (JObj [(''status'', JString ''ok'')]))) None =
     Inr ''{\"success\":true,\"status\":200,\"data\":{\"status\":\"ok\"}}''"
  by code_simp

lemma run_health:
  assumes "uncommitted q" and "run (Adapt health r) q w = (res, q', w')"
  shows "w' = w \<and> status q' = Some 200"
proof -
  obtain encoded where e: "SuccessResponse 200 [] (Inr (json_print (JObj [(''status'', JString ''ok'')]))) None = Inr encoded"
    and len: "int (length encoded) < 2 ^ 63 - 1" using health_envelope by simp
  have "health r = writeJSON r 200 (Inr encoded)" unfolding health_def JSON_def Success_def e by simp
  then show ?thesis
    using assms(2) run_writeJSON [OF assms(1) _ len, of 200 r w]
    by (auto simp: Adapt_def run_bind accepts_json_def Let_def commit_with_def
        dest: base_write_status split: if_splits prod.splits reply.splits)
qed

lemma run_unavailable:
  assumes "uncommitted q" and "run (WriteError r (Some (CodeErr ErrProviderUnavailable))) q w = (res, q', w')"
  shows "w' = w \<and> status q' = Some 503"
proof -
  have "classify (Some (CodeErr ErrProviderUnavailable)) = (503, ErrProviderUnavailable, ''Provider unavailable'')"
    by code_simp
  from run_WriteError [OF assms(1) this, of r w] assms(2) show ?thesis
    by (auto simp: Let_def commit_with_def intro: base_write_status [OF prod.collapse [symmetric]])
qed

text \<open>
  Readiness tells the verdict of the probe and nothing else. On an open response the readiness
  route answers 200 exactly when the probe ran and succeeded, and otherwise 503; the answer to a
  failing probe does not depend on its error and is that of an API without a database; the answer to
  a succeeding probe is that of the liveness route.
\<close>

theorem ready_follows_probe:
  assumes "uncommitted q" and "run (Adapt (ready probe) r) q w = (res, q', w')"
  shows "w' = w \<and> status q' = Some (if probe = Some None then 200 else 503) \<and>
    run (Adapt (if probe = Some None then health else ready None) r) q w = (res, q', w')"
proof (cases "probe = Some None")
  case True
  then have "ready probe = health" by (auto simp: ready_def)
  with assms(2) run_health [OF assms(1)] True show ?thesis by simp
next
  case False
  then have p: "ready probe r = Ret (Some (CodeErr ErrProviderUnavailable))" by (auto simp: ready_def split: option.splits)
  then have "run (WriteError r (Some (CodeErr ErrProviderUnavailable))) q w = (res, q', w')"
    using assms(2) by (simp add: Adapt_def)
  with run_unavailable [OF assms(1) this] False show ?thesis by (simp add: Adapt_def ready_def)
qed

theorem ready_follows_probe_witness:
  "\<exists>res q'. run (Adapt (ready (Some (Some (NewErr ''password'')))) demo_request) open_response demo_sys = (res, q', demo_sys) \<and>
     status q' = Some 503"
proof -
  obtain res q' w' where e: "run (Adapt (ready (Some (Some (NewErr ''password'')))) demo_request) open_response demo_sys = (res, q', w')"
    by (metis prod_cases3)
  from ready_follows_probe [OF open_response_facts(1) e] e show ?thesis by simp
qed

text \<open>
  A runtime that panics is logged like one that stopped normally: the deferred function sees a nil
  error, since the named result has not been set.
\<close>

lemma panic_logged_as_stopped: "finish Panicking [] h = (Panicking, emit (Logged ''runtime stopped'') h)"
  by (simp add: finish_def resources_close_def errors_Join_def)

end
