(* ===== verification/Serve_Protocol.thy ===== *)
theory Serve_Protocol
  imports Bootstrap
begin

text \<open>
  The two goroutines of \<^verbatim>\<open>serveHTTP\<close> (\<^verbatim>\<open>src/internal/bootstrap/api.go\<close>) as a step relation: the runtime,
  which waits for the stop signal or the end of serving and then runs the registered closer, and the
  goroutine that calls \<^verbatim>\<open>Serve\<close>, records its error and closes the channel \<^verbatim>\<open>done\<close>. The steps interleave
  freely with requests that arrive and complete, and with the deadline of the shutdown. The theory
  \<^verbatim>\<open>Bootstrap\<close> runs the closer in one step; it is shown here that every interleaving has the result
  that step computes.
\<close>

section \<open>State\<close>

text \<open>
  The runtime: in the \<^verbatim>\<open>select\<close>, in \<^verbatim>\<open>Shutdown\<close>, before \<^verbatim>\<open>cancelRequests\<close> or \<^verbatim>\<open>Close\<close> on an error, waiting
  for \<^verbatim>\<open>done\<close>, and returned with the answer of the closer.
\<close>

datatype runtime_phase = Waiting | Draining | Cancelling | Forcing | AwaitDone | Closed "gerror option"

datatype server_phase = Serving | Returning gerror | Recorded | Exited

record serve_state =
  runtime :: runtime_phase
  goroutine :: server_phase
  serveErr :: "gerror option"
  shutdownErr :: "gerror option"
  shutdown_ret :: "gerror option"
  force_ret :: "gerror option"
  serve_ret :: "gerror option"
  in_flight :: nat
  stop_signal :: bool
  deadline_passed :: bool
  shutting_down :: bool
  requests_cancelled :: bool

abbreviation DeadlineExceeded :: gerror where "DeadlineExceeded \<equiv> Sentinel ''context.DeadlineExceeded''"

definition serve_start :: serve_state where
  "serve_start =
     \<lparr>runtime = Waiting, goroutine = Serving, serveErr = None, shutdownErr = None, shutdown_ret = None, force_ret = None, serve_ret = None,
      in_flight = 0, stop_signal = False, deadline_passed = False, shutting_down = False, requests_cancelled = False\<rparr>"

section \<open>Steps\<close>

datatype serve_label =
  Signal | Deadline | Accept | Complete | ServeFails gerror | ServeCloses | Record | CloseDone
| Wake | Drained "gerror option" | Expired | CancelRequests | ForceClose "gerror option" | ReadDone

text \<open>
  What \<^verbatim>\<open>net/http\<close> documents: \<^verbatim>\<open>Serve\<close> accepts until it fails or until \<^verbatim>\<open>Shutdown\<close>, and then returns
  \<^verbatim>\<open>ErrServerClosed\<close>; \<^verbatim>\<open>Shutdown\<close> returns when no request is in flight, with an error of closing the
  listener if there was one, or at the deadline with its error. The closer reads \<^verbatim>\<open>serveErr\<close> after
  \<^verbatim>\<open>done\<close> and cancels the requests in any case.
\<close>

inductive serve_step :: "serve_label \<Rightarrow> serve_state \<Rightarrow> serve_state \<Rightarrow> bool" where
  signal: "\<not> stop_signal s \<Longrightarrow> serve_step Signal s (s\<lparr>stop_signal := True\<rparr>)"
| deadline: "shutting_down s \<Longrightarrow> \<not> deadline_passed s \<Longrightarrow> serve_step Deadline s (s\<lparr>deadline_passed := True\<rparr>)"
| accept: "goroutine s = Serving \<Longrightarrow> \<not> shutting_down s \<Longrightarrow> serve_step Accept s (s\<lparr>in_flight := in_flight s + 1\<rparr>)"
| complete: "0 < in_flight s \<Longrightarrow> serve_step Complete s (s\<lparr>in_flight := in_flight s - 1\<rparr>)"
| serve_fails: "goroutine s = Serving \<Longrightarrow> \<not> shutting_down s \<Longrightarrow>
    serve_step (ServeFails e) s (s\<lparr>goroutine := Returning e\<rparr>)"
| serve_closes: "goroutine s = Serving \<Longrightarrow> shutting_down s \<Longrightarrow>
    serve_step ServeCloses s (s\<lparr>goroutine := Returning ErrServerClosed\<rparr>)"
| record_error: "goroutine s = Returning e \<Longrightarrow> serve_step Record s (s\<lparr>goroutine := Recorded, serveErr := Some e, serve_ret := Some e\<rparr>)"
| close_done: "goroutine s = Recorded \<Longrightarrow> serve_step CloseDone s (s\<lparr>goroutine := Exited\<rparr>)"
| wake: "runtime s = Waiting \<Longrightarrow> stop_signal s \<or> goroutine s = Exited \<Longrightarrow>
    serve_step Wake s (s\<lparr>runtime := Draining, shutting_down := True\<rparr>)"
| drained: "runtime s = Draining \<Longrightarrow> in_flight s = 0 \<Longrightarrow>
    serve_step (Drained a) s
      (s\<lparr>runtime := (if a = None then AwaitDone else Cancelling), shutdown_ret := a, shutdownErr := a\<rparr>)"
| expired: "runtime s = Draining \<Longrightarrow> deadline_passed s \<Longrightarrow>
    serve_step Expired s (s\<lparr>runtime := Cancelling, shutdown_ret := Some DeadlineExceeded, shutdownErr := Some DeadlineExceeded\<rparr>)"
| cancel: "runtime s = Cancelling \<Longrightarrow> serve_step CancelRequests s (s\<lparr>runtime := Forcing, requests_cancelled := True\<rparr>)"
| force: "runtime s = Forcing \<Longrightarrow>
    serve_step (ForceClose a) s
      (s\<lparr>runtime := AwaitDone, force_ret := a, shutdownErr := errors_Join [shutdownErr s, a]\<rparr>)"
| read_done: "runtime s = AwaitDone \<Longrightarrow> goroutine s = Exited \<Longrightarrow>
    serveErr' = (if errors_Is (the (serveErr s)) ErrServerClosed then None else serveErr s) \<Longrightarrow>
    serve_step ReadDone s
      (s\<lparr>runtime := Closed (errors_Join [shutdownErr s, serveErr']), serveErr := serveErr', requests_cancelled := True\<rparr>)"

inductive_cases serve_stepE: "serve_step l s t"

inductive serving :: "serve_state \<Rightarrow> bool" where
  init: "serving serve_start"
| step: "serving s \<Longrightarrow> serve_step l s t \<Longrightarrow> serving t"

section \<open>The invariant\<close>

text \<open>
  What holds at every moment. The closer's variables are what \<^verbatim>\<open>Shutdown\<close>, \<^verbatim>\<open>Close\<close> and \<^verbatim>\<open>Serve\<close> returned; these
  are kept in \<open>shutdown_ret\<close>, \<open>force_ret\<close> and \<open>serve_ret\<close> for the comparison with the sequential closer.
\<close>

definition recorded :: "serve_state \<Rightarrow> bool" where
  "recorded s \<longleftrightarrow> goroutine s \<in> {Recorded, Exited}"

definition joined :: "serve_state \<Rightarrow> gerror option" where
  "joined s = (if shutdown_ret s = None then None else errors_Join [shutdown_ret s, force_ret s])"

definition closed_answer :: "serve_state \<Rightarrow> gerror option" where
  "closed_answer s =
     errors_Join [joined s, if errors_Is (the (serve_ret s)) ErrServerClosed then None else serve_ret s]"

definition serve_inv :: "serve_state \<Rightarrow> bool" where
  "serve_inv s \<longleftrightarrow>
     (shutting_down s \<longleftrightarrow> runtime s \<noteq> Waiting) \<and>
     (runtime s \<in> {Waiting, Draining, Cancelling} \<longrightarrow> \<not> requests_cancelled s) \<and>
     (runtime s \<notin> {Waiting, Draining} \<longrightarrow> in_flight s = 0 \<or> deadline_passed s) \<and>
     (recorded s \<longrightarrow> serve_ret s \<noteq> None) \<and>
     (runtime s \<in> {Cancelling, Forcing} \<longrightarrow> shutdown_ret s \<noteq> None \<and> shutdownErr s = shutdown_ret s) \<and>
     (runtime s = AwaitDone \<longrightarrow> shutdownErr s = joined s) \<and>
     (case runtime s of
        Closed r \<Rightarrow> goroutine s = Exited \<and> r = closed_answer s
      | _ \<Rightarrow> recorded s \<longrightarrow> serveErr s = serve_ret s)"

lemma serve_inv_start: "serve_inv serve_start"
  by (simp add: serve_inv_def serve_start_def recorded_def)

lemma serve_inv_step: "serve_step l s t \<Longrightarrow> serve_inv s \<Longrightarrow> serve_inv t"
  by (erule serve_step.cases) (auto simp: serve_inv_def recorded_def joined_def closed_answer_def split: runtime_phase.splits)

lemma serving_inv: "serving s \<Longrightarrow> serve_inv s"
  by (induction rule: serving.induct) (auto simp: serve_inv_start serve_inv_step)

section \<open>Progress and termination\<close>

text \<open>Once the server shuts down, every step brings the end nearer.\<close>

definition runtime_rank :: "runtime_phase \<Rightarrow> nat" where
  "runtime_rank p =
     (case p of Waiting \<Rightarrow> 5 | Draining \<Rightarrow> 4 | Cancelling \<Rightarrow> 3 | Forcing \<Rightarrow> 2 | AwaitDone \<Rightarrow> 1 | Closed r \<Rightarrow> 0)"

definition server_rank :: "server_phase \<Rightarrow> nat" where
  "server_rank p = (case p of Serving \<Rightarrow> 3 | Returning e \<Rightarrow> 2 | Recorded \<Rightarrow> 1 | Exited \<Rightarrow> 0)"

definition remaining :: "serve_state \<Rightarrow> nat" where
  "remaining s = runtime_rank (runtime s) + server_rank (goroutine s) + in_flight s +
     (if deadline_passed s then 0 else 1) + (if stop_signal s then 0 else 1)"

lemma step_remaining: "serve_step l s t \<Longrightarrow> shutting_down s \<Longrightarrow> remaining t < remaining s \<and> shutting_down t"
  by (erule serve_step.cases) (auto simp: remaining_def runtime_rank_def server_rank_def)

lemma step_progress:
  assumes "serve_inv s" and "shutting_down s" and "\<forall>r. runtime s \<noteq> Closed r"
  shows "\<exists>l t. l \<notin> {Complete, Signal} \<and> serve_step l s t"
proof (cases "runtime s")
  case Draining
  then show ?thesis using assms(2) serve_step.expired [of s] serve_step.deadline [of s] by (cases "deadline_passed s") blast+
next
  case AwaitDone
  then show ?thesis
    using assms(2) serve_step.serve_closes [of s] serve_step.record_error [of s] serve_step.close_done [of s]
      serve_step.read_done [OF AwaitDone _ refl]
    by (cases "goroutine s") blast+
qed (use assms serve_step.cancel [of s] serve_step.force [of s] in \<open>auto simp: serve_inv_def\<close>)

inductive serve_run :: "serve_label list \<Rightarrow> serve_state \<Rightarrow> serve_state \<Rightarrow> bool" where
  none: "serve_run [] s s"
| more: "serve_step l s t \<Longrightarrow> serve_run ls t u \<Longrightarrow> serve_run (l # ls) s u"

inductive_cases serve_runE: "serve_run ls s t"

lemma serve_run_serving: "serve_run ls s t \<Longrightarrow> serving s \<Longrightarrow> serving t"
  by (induction rule: serve_run.induct) (auto intro: serving.step)

lemma serve_run_remaining: "serve_run ls s t \<Longrightarrow> shutting_down s \<Longrightarrow> shutting_down t \<and> length ls + remaining t \<le> remaining s"
proof (induction rule: serve_run.induct)
  case (more l s t ls u)
  from step_remaining [OF more.hyps(1) more.prems] more.IH show ?case by simp
qed simp

lemma serve_run_closes:
  assumes "serving s" "shutting_down s"
  shows "\<exists>ls t r. serve_run ls s t \<and> set ls \<inter> {Complete, Signal} = {} \<and> runtime t = Closed r"
  using assms
proof (induction "remaining s" arbitrary: s rule: less_induct)
  case less
  show ?case
  proof (cases "\<exists>r. runtime s = Closed r")
    case True
    then show ?thesis by (intro exI [of _ "[]"] exI [of _ s]) (simp add: serve_run.none)
  next
    case False
    then obtain l t where l: "l \<notin> {Complete, Signal}" "serve_step l s t"
      using step_progress [OF serving_inv [OF less.prems(1)] less.prems(2)] by blast
    from step_remaining [OF l(2) less.prems(2)] less.hyps [of t] serving.step [OF less.prems(1) l(2)]
    obtain ls u r where "serve_run ls t u" "set ls \<inter> {Complete, Signal} = {}" "runtime u = Closed r" by blast
    with l show ?thesis by (intro exI [of _ "l # ls"] exI [of _ u] exI [of _ r]) (auto intro: serve_run.more)
  qed
qed

lemma remaining_bound: "shutting_down s \<Longrightarrow> serve_inv s \<Longrightarrow> remaining s \<le> in_flight s + 9"
  by (cases "runtime s"; cases "goroutine s") (auto simp: remaining_def runtime_rank_def server_rank_def serve_inv_def)

text \<open>
  C32. Shutting down ends. From any moment of the shutdown, in every interleaving, at most nine steps
  more than there are requests in flight remain; an interleaving that can only go on by a request
  completing or by another stop signal has returned from the closer; and the closer does return in
  some interleaving in which no request ever completes, since the deadline forces it.
\<close>

theorem shutdown_terminates:
  assumes "serving s" and "shutting_down s"
  shows "(\<forall>ls t. serve_run ls s t \<longrightarrow> length ls \<le> in_flight s + 9 \<and>
      ((\<forall>l u. serve_step l t u \<longrightarrow> l \<in> {Complete, Signal}) \<longrightarrow> (\<exists>r. runtime t = Closed r))) \<and>
    (\<exists>ls t r. serve_run ls s t \<and> set ls \<inter> {Complete, Signal} = {} \<and> runtime t = Closed r)"
proof (intro conjI allI impI)
  fix ls t
  assume run: "serve_run ls s t"
  note t = serve_run_remaining [OF run assms(2)] and inv = serving_inv [OF serve_run_serving [OF run assms(1)]]
  show "length ls \<le> in_flight s + 9" using t remaining_bound [OF assms(2) serving_inv [OF assms(1)]] by simp
  assume "\<forall>l u. serve_step l t u \<longrightarrow> l \<in> {Complete, Signal}"
  then show "\<exists>r. runtime t = Closed r" using step_progress [OF inv] t by blast
qed (rule serve_run_closes [OF assms])

text \<open>A stop while a request is in flight.\<close>

definition demo_draining :: serve_state where
  "demo_draining = serve_start\<lparr>in_flight := 1, stop_signal := True, runtime := Draining, shutting_down := True\<rparr>"

lemma demo_draining_serving: "serving demo_draining" "shutting_down demo_draining"
proof -
  have "serve_step Accept serve_start (serve_start\<lparr>in_flight := 1\<rparr>)"
    using serve_step.accept [of serve_start] by (simp add: serve_start_def)
  moreover have "serve_step Signal (serve_start\<lparr>in_flight := 1\<rparr>) (serve_start\<lparr>in_flight := 1, stop_signal := True\<rparr>)"
    using serve_step.signal [of "serve_start\<lparr>in_flight := 1\<rparr>"] by (simp add: serve_start_def)
  moreover have "serve_step Wake (serve_start\<lparr>in_flight := 1, stop_signal := True\<rparr>) demo_draining"
    using serve_step.wake [of "serve_start\<lparr>in_flight := 1, stop_signal := True\<rparr>"] by (simp add: serve_start_def demo_draining_def)
  ultimately show "serving demo_draining" using serving.init serving.step by metis
  show "shutting_down demo_draining" by (simp add: demo_draining_def)
qed

theorem shutdown_terminates_witness:
  "\<exists>ls t r. serve_run ls demo_draining t \<and> Complete \<notin> set ls \<and> runtime t = Closed r \<and> length ls \<le> 10"
proof -
  note shutdown = shutdown_terminates [OF demo_draining_serving]
  then obtain ls t r where "serve_run ls demo_draining t" "set ls \<inter> {Complete, Signal} = {}" "runtime t = Closed r" by blast
  moreover from this shutdown have "length ls \<le> 10" by (auto simp: demo_draining_def)
  ultimately show ?thesis by blast
qed

section \<open>Safety and the sequential closer\<close>

lemma no_accept: "shutting_down s \<Longrightarrow> \<not> serve_step Accept s t" "shutting_down s \<Longrightarrow> \<not> serve_step (ServeFails e) s t"
  by (auto elim!: serve_step.cases)

text \<open>
  C33. Requests survive the stop signal. At every moment, requests are cancelled only when none is
  in flight or the deadline of the shutdown has passed; no request is accepted and serving cannot
  newly fail once the shutdown has begun; and the closer has returned only after the serving
  goroutine recorded its error and closed \<^verbatim>\<open>done\<close>, so that reading the error is not a race.
\<close>

theorem serving_safe:
  assumes "serving s"
  shows "(requests_cancelled s \<longrightarrow> in_flight s = 0 \<or> deadline_passed s) \<and>
    (shutting_down s \<longrightarrow> \<not> serve_step Accept s t \<and> \<not> serve_step (ServeFails e) s t) \<and>
    (runtime s = Closed r \<longrightarrow> goroutine s = Exited \<and> serve_ret s \<noteq> None)"
proof -
  note inv = serving_inv [OF assms, unfolded serve_inv_def recorded_def]
  from inv have "requests_cancelled s \<longrightarrow> in_flight s = 0 \<or> deadline_passed s" by auto
  moreover from inv have "goroutine s = Exited \<and> serve_ret s \<noteq> None" if "runtime s = Closed r" using that by simp
  ultimately show ?thesis using no_accept by blast
qed

theorem serving_safe_witness: "\<forall>t. \<not> serve_step Accept demo_draining t"
  using serving_safe [OF demo_draining_serving(1)] demo_draining_serving(2) by blast

text \<open>
  C34. Every interleaving refines the sequential closer. When the closer returns, whatever the
  order of the steps was, its answer is the one that \<^verbatim>\<open>close_server\<close> computes in one step from what
  \<^verbatim>\<open>Serve\<close>, \<^verbatim>\<open>Shutdown\<close> and \<^verbatim>\<open>Close\<close> returned.
\<close>

theorem serving_refines_closer:
  assumes "serving s" and "runtime s = Closed r"
  shows "r = fst (close_server (h\<lparr>serve_failure := serve_ret s, shutdown_answer := shutdown_ret s, force_answer := force_ret s\<rparr>))"
  using serving_inv [OF assms(1)] assms(2)
  by (auto simp: serve_inv_def recorded_def closed_answer_def joined_def close_server_def Let_def split: option.splits)

theorem serving_refines_closer_witness:
  "\<exists>h s r. serving s \<and> runtime s = Closed r \<and> shutting_down s \<and>
     r = fst (close_server (h\<lparr>serve_failure := serve_ret s, shutdown_answer := shutdown_ret s, force_answer := force_ret s\<rparr>))"
proof -
  from serve_run_closes [OF demo_draining_serving] obtain ls s r where
    run: "serve_run ls demo_draining s" and r: "runtime s = Closed r" by blast
  note s = serve_run_serving [OF run demo_draining_serving(1)]
  from serve_run_remaining [OF run demo_draining_serving(2)] have "shutting_down s" by blast
  with serving_refines_closer [OF s r] s r show ?thesis by blast
qed

end
