(* ===== verification/Database.thy ===== *)
theory Database
  imports Config Schema_Version
begin

text \<open>
  The package \<^verbatim>\<open>src/internal/platform/database\<close>: the connection pool and its readiness check
  (\<^verbatim>\<open>pool.go\<close>), the errors of migrations (\<^verbatim>\<open>errors.go\<close>) and the adoption of a legacy schema (\<^verbatim>\<open>migrate.go\<close>).
  The driver, goose and the server are not part of the repository: what they answer is held by the
  records \<open>pool_host\<close> and \<open>sqltx\<close>, which also keep the history of what was asked.
\<close>

section \<open>pool.go\<close>

text \<open>The fields of \<^verbatim>\<open>pgxpool.Config\<close> that \<^verbatim>\<open>Open\<close> sets; the parsed URL gives the initial values.\<close>

record pool_config =
  pc_MaxConns :: int
  pc_MinConns :: int
  pc_MaxConnLifetime :: int
  pc_MaxConnIdleTime :: int
  pc_MaxConnLifetimeJitter :: int
  pc_ConnectTimeout :: int
  RuntimeParams :: "string \<rightharpoonup> string"

datatype pool_event = PoolCreated pool_config | VersionQueried | PrivilegesQueried | PoolClosed

text \<open>
  \<open>parse_config\<close> is \<^verbatim>\<open>pgxpool.ParseConfig\<close> (\<open>None\<close> an error), \<open>new_pool\<close> says whether \<^verbatim>\<open>NewWithConfig\<close>
  succeeds, the two queries answer with a row or an error, and \<open>probe_ctx\<close> is what the context of the
  probe answers after a failed query.
\<close>

record pool_host =
  parse_config :: "string \<Rightarrow> pool_config option"
  new_pool :: "pool_config \<Rightarrow> bool"
  version_row :: "gerror + int"
  privileges_row :: "gerror + bool"
  probe_ctx :: "gerror option"
  pool_events :: "pool_event list"

definition asked :: "pool_event \<Rightarrow> pool_host \<Rightarrow> pool_host" where
  "asked e w = w\<lparr>pool_events := pool_events w @ [e]\<rparr>"

text \<open>\<^verbatim>\<open>Ready\<close>; \<open>present\<close> says that the pool is not nil.\<close>

definition Ready :: "bool \<Rightarrow> pool_host \<Rightarrow> gerror option \<times> pool_host" where
  "Ready present w =
     (if \<not> present then (Some (NewErr ''database is not configured''), w)
      else
        let w1 = asked VersionQueried w in
        (case version_row w of
           Inl e \<Rightarrow>
             if probe_ctx w \<noteq> None then (probe_ctx w, w1)
             else (Some (NewErr ''database schema is unavailable; run migrations first''), w1)
         | Inr version \<Rightarrow>
             if version \<noteq> SchemaVersion then (Some (NewErr ''database schema version does not match this binary''), w1)
             else
               let w2 = asked PrivilegesQueried w1 in
               (case privileges_row w of
                  Inl e \<Rightarrow> (Some (NewErr ''database runtime privileges are missing''), w2)
                | Inr allowed \<Rightarrow>
                    if \<not> allowed then (Some (NewErr ''database runtime privileges are missing''), w2) else (None, w2))))"

definition limits_invalid :: "DatabasePool \<Rightarrow> bool" where
  "limits_invalid l \<longleftrightarrow>
     MaxConns l < 1 \<or> MinConns l < 0 \<or> MinConns l > MaxConns l \<or> ConnectTimeout l \<le> 0 \<or> ProbeTimeout l \<le> 0 \<or>
     MaxConnLifetime l \<le> 0 \<or> MaxConnIdleTime l \<le> 0 \<or> StatementTimeout l < millisecond"

text \<open>
  The configuration of the pool. Division of durations truncates; the limits are positive when it is
  built.
\<close>

definition pool_settings :: "string \<Rightarrow> DatabasePool \<Rightarrow> pool_config \<Rightarrow> pool_config" where
  "pool_settings service_name l c =
     c\<lparr>pc_MaxConns := MaxConns l, pc_MinConns := MinConns l,
       pc_MaxConnLifetime := MaxConnLifetime l, pc_MaxConnIdleTime := MaxConnIdleTime l,
       pc_MaxConnLifetimeJitter := MaxConnLifetime l div 10,
       pc_ConnectTimeout := ConnectTimeout l,
       RuntimeParams := (RuntimeParams c)
         (''application_name'' \<mapsto> ''address-intelligence-'' @ service_name,
          ''search_path'' \<mapsto> ''public'',
          ''timezone'' \<mapsto> ''UTC'',
          ''statement_timeout'' \<mapsto> Itoa (StatementTimeout l div millisecond),
          ''lock_timeout'' \<mapsto> ''3000'',
          ''idle_in_transaction_session_timeout'' \<mapsto> ''30000'')\<rparr>"

definition Open :: "string \<Rightarrow> string \<Rightarrow> DatabasePool \<Rightarrow> pool_host \<Rightarrow> (gerror + pool_config) \<times> pool_host" where
  "Open url service_name limits w =
     (case parse_config w url of
        None \<Rightarrow> (Inl (NewErr ''invalid database connection configuration''), w)
      | Some c0 \<Rightarrow>
          if limits_invalid limits then (Inl (NewErr ''invalid database pool limits''), w)
          else
            let c = pool_settings service_name limits c0 in
            if \<not> new_pool w c then (Inl (NewErr ''database pool initialization failed''), w)
            else
              (case Ready True (asked (PoolCreated c) w) of
                 (Some e, w1) \<Rightarrow> (Inl e, asked PoolClosed w1)
               | (None, w1) \<Rightarrow> (Inr c, w1)))"

text \<open>
  \<^verbatim>\<open>InTx\<close> leaves everything to \<^verbatim>\<open>pgx.BeginTxFunc\<close>, which is not part of the repository: begin, the
  operation on the transaction, then commit, or rollback after an error or a panic.
\<close>

definition InTx :: "('pool \<Rightarrow> 'options \<Rightarrow> ('tx \<Rightarrow> gerror option) \<Rightarrow> gerror option) \<Rightarrow>
    'pool \<Rightarrow> 'options \<Rightarrow> ('tx \<Rightarrow> gerror option) \<Rightarrow> gerror option" where
  "InTx begin_tx_func pool options operation = begin_tx_func pool options operation"

section \<open>errors.go\<close>

abbreviation errLegacyDetected :: gerror where "errLegacyDetected \<equiv> Sentinel ''errLegacyDetected''"
abbreviation errLegacyRequired :: gerror where "errLegacyRequired \<equiv> Sentinel ''errLegacyRequired''"
abbreviation errLegacyLedger :: gerror where "errLegacyLedger \<equiv> Sentinel ''errLegacyLedger''"
abbreviation errLegacyDrift :: gerror where "errLegacyDrift \<equiv> Sentinel ''errLegacyDrift''"

definition known_errors :: "gerror list" where
  "known_errors =
     [errLegacyDetected, errLegacyRequired, errLegacyLedger, errLegacyDrift,
      Sentinel ''context.Canceled'', Sentinel ''context.DeadlineExceeded'']"

text \<open>The two types \<^verbatim>\<open>errors.As\<close> asks for: \<^verbatim>\<open>*goose.PartialError\<close> and an error with \<^verbatim>\<open>SQLState\<close>.\<close>

fun partial_of :: "gerror \<Rightarrow> int option option" where
  "partial_of (ForeignErr t st pv es) = pv"
| "partial_of _ = None"

fun sqlstate_of :: "gerror \<Rightarrow> string option" where
  "sqlstate_of (ForeignErr t st pv es) = st"
| "sqlstate_of _ = None"

definition migration_message :: "gerror \<Rightarrow> string" where
  "migration_message err =
     ''migration failed'' @
     (case errors_As (\<lambda>x. partial_of x \<noteq> None) err of
        None \<Rightarrow> ''''
      | Some x \<Rightarrow> (case the (partial_of x) of None \<Rightarrow> '''' | Some version \<Rightarrow> '' at version '' @ Itoa version)) @
     (case errors_As (\<lambda>x. sqlstate_of x \<noteq> None) err of
        None \<Rightarrow> ''''
      | Some x \<Rightarrow> '' (SQLSTATE '' @ the (sqlstate_of x) @ '')'')"

definition SafeMigrationError :: "gerror option \<Rightarrow> gerror option" where
  "SafeMigrationError err =
     (case err of
        None \<Rightarrow> None
      | Some e \<Rightarrow>
          (case find (\<lambda>known. errors_Is e known) known_errors of
             Some known \<Rightarrow> Some (WrapErr (migration_message e @ '': '' @ Error known) known)
           | None \<Rightarrow> Some (NewErr (migration_message e @ ''; check database server diagnostics and migration status''))))"

end
