(* ===== verification/Database_Migrate.thy ===== *)
theory Database_Migrate
  imports Database Go_Regex "HOL-Library.List_Lexorder" "HOL-Library.Char_ord"
begin

text \<open>
  \<^verbatim>\<open>src/internal/platform/database/migrate.go\<close>: the baseline migration, which creates the schema or
  adopts a legacy one after comparing its structure with a baseline created for the comparison.
\<close>

section \<open>A transaction\<close>

text \<open>
  What the server answers may depend on everything executed before. \<open>rows_answer\<close> gives the rows of the
  catalogue query for a namespace, each scanned or failed, and the final \<^verbatim>\<open>rows.Err()\<close>.
\<close>

record sqltx =
  executed :: "string list"
  exec_answer :: "string list \<Rightarrow> string \<Rightarrow> gerror option"
  regclass_answer :: "string list \<Rightarrow> gerror + bool"
  ledger_answer :: "string list \<Rightarrow> gerror + bool"
  rows_answer :: "string list \<Rightarrow> string \<Rightarrow> gerror + (gerror + string) list \<times> gerror option"

definition exec_sql :: "string \<Rightarrow> sqltx \<Rightarrow> gerror option \<times> sqltx" where
  "exec_sql sql t = (exec_answer t (executed t) sql, t\<lparr>executed := executed t @ [sql]\<rparr>)"

abbreviation pin_catalog :: string where "pin_catalog \<equiv> ''SET LOCAL search_path = pg_catalog''"
abbreviation probe_begin :: string where
  "probe_begin \<equiv> ''SAVEPOINT baseline_probe; CREATE SCHEMA aip_baseline_probe; SET LOCAL search_path = aip_baseline_probe, public''"
abbreviation probe_end :: string where
  "probe_end \<equiv> ''ROLLBACK TO SAVEPOINT baseline_probe; RELEASE SAVEPOINT baseline_probe; SET LOCAL search_path=public''"

section \<open>baselineSQL\<close>

definition baselineSQL :: "string \<Rightarrow> string" where
  "baselineSQL legacySQL = TrimSuffix (TrimSpace (TrimPrefix (TrimSpace legacySQL) ''BEGIN;'')) ''COMMIT;''"

section \<open>normalizeDumpedCheckArray\<close>

definition quoted_star :: regex where
  "quoted_star = Group 1 (Star (Alt (NoneOf [CHR 0x27]) (Lit [CHR 0x27, CHR 0x27])))"

definition wholeCheckArray :: regex where
  "wholeCheckArray = Seq [Lit ''(ARRAY['', Group 1 (Plus (NoneOf '']'')), Lit ''])::text[]'']"

definition itemCheckArray :: regex where
  "itemCheckArray = Seq [Lit ''ARRAY['', Group 1 (Plus (NoneOf '']'')), Lit '']'']"

definition wholeItem :: regex where
  "wholeItem = Cat BeginText (Seq [Lit [CHR 0x27], quoted_star, Lit (CHR 0x27 # ''::character varying''), EndText])"

definition castItem :: regex where
  "castItem = Cat BeginText (Seq [Lit (''('' @ [CHR 0x27]), quoted_star, Lit (CHR 0x27 # ''::character varying)::text''), EndText])"

text \<open>
  The replacement of one array: every element must have the expected form, otherwise the array stays.
\<close>

definition element :: "regex \<Rightarrow> string \<Rightarrow> string option" where
  "element item part = map_option (\<lambda>g. submatch g 1) (FindStringSubmatch item part)"

definition rewrite_array :: "regex \<Rightarrow> regex \<Rightarrow> string \<Rightarrow> string" where
  "rewrite_array whole item array =
     (let parts = Split (submatch (the (FindStringSubmatch whole array)) 1) '', '';
          elements = map (element item) parts
      in if None \<in> set elements then array else ''ARRAY_TEXT['' @ Join (map the elements) '','' @ '']'')"

definition normalizeDumpedCheckArray :: "string \<Rightarrow> string" where
  "normalizeDumpedCheckArray line =
     (if \<not> HasPrefix line ''constraint:'' then line
      else ReplaceAllStringFunc itemCheckArray (rewrite_array itemCheckArray castItem)
             (ReplaceAllStringFunc wholeCheckArray (rewrite_array wholeCheckArray wholeItem) line))"

section \<open>snapshot\<close>

definition snapshot_line :: "string \<Rightarrow> string \<Rightarrow> string" where
  "snapshot_line namespace line =
     normalizeDumpedCheckArray
       (ReplaceAll (ReplaceAll line (namespace @ ''.'') ''app_schema.'') ''public.'' ''app_schema.'')"

text \<open>The text of a snapshot with the error, or just the error.\<close>

definition snapshot :: "string \<Rightarrow> sqltx \<Rightarrow> (string \<times> gerror option) \<times> sqltx" where
  "snapshot namespace t =
     (case exec_sql pin_catalog t of
        (Some e, t1) \<Rightarrow> (('''', Some e), t1)
      | (None, t1) \<Rightarrow>
          (case rows_answer t1 (executed t1) namespace of
             Inl e \<Rightarrow> (('''', Some e), t1)
           | Inr (rows, rows_err) \<Rightarrow>
               (case map_sum_list (\<lambda>row. bind_sum row (\<lambda>line. Inr (snapshot_line namespace line))) rows of
                  Inl e \<Rightarrow> (('''', Some e), t1)
                | Inr lines \<Rightarrow> ((Join (sort lines) [CHR 0x0A], rows_err), t1))))"

section \<open>verifyLegacy and the baseline migration\<close>

definition verifyLegacy :: "string \<Rightarrow> sqltx \<Rightarrow> gerror option \<times> sqltx" where
  "verifyLegacy legacySQL t =
     (case ledger_answer t (executed t) of
        Inl e \<Rightarrow> (Some errLegacyLedger, t)
      | Inr valid \<Rightarrow>
          if \<not> valid then (Some errLegacyLedger, t)
          else
            (case snapshot ''public'' t of
               ((_, Some e), t1) \<Rightarrow> (Some e, t1)
             | ((actual, None), t1) \<Rightarrow>
                 (case exec_sql probe_begin t1 of
                    (Some e, t2) \<Rightarrow> (Some e, t2)
                  | (None, t2) \<Rightarrow>
                      (case exec_sql (baselineSQL legacySQL) t2 of
                         (Some e, t3) \<Rightarrow> (Some (WrapErr (''create baseline comparison: '' @ Error e) e), t3)
                       | (None, t3) \<Rightarrow>
                           (case snapshot ''aip_baseline_probe'' t3 of
                              ((_, Some e), t4) \<Rightarrow> (Some e, t4)
                            | ((expected, None), t4) \<Rightarrow>
                                (case exec_sql probe_end t4 of
                                   (Some e, t5) \<Rightarrow> (Some e, t5)
                                 | (None, t5) \<Rightarrow>
                                     if actual \<noteq> expected then (Some errLegacyDrift, t5) else (None, t5)))))))"

definition baseline :: "string \<Rightarrow> bool \<Rightarrow> sqltx \<Rightarrow> gerror option \<times> sqltx" where
  "baseline legacySQL adoptLegacy t =
     (case regclass_answer t (executed t) of
        Inl e \<Rightarrow> (Some e, t)
      | Inr exists \<Rightarrow>
          if exists then (if \<not> adoptLegacy then (Some errLegacyDetected, t) else verifyLegacy legacySQL t)
          else if adoptLegacy then (Some errLegacyRequired, t)
          else exec_sql (baselineSQL legacySQL) t)"

section \<open>NewMigrator\<close>

text \<open>
  The host of a migrator, before goose takes over: what parsing, pinging, the session locker, the
  embedded files and goose itself answer, and whether the dedicated pool is open: it is from
  \<^verbatim>\<open>stdlib.OpenDB\<close> until \<^verbatim>\<open>db.Close\<close>.
\<close>

record migrator_host =
  mg_parse :: "string \<Rightarrow> (string \<rightharpoonup> string) option"
  ping_answer :: "gerror option"
  locker_answer :: "gerror option"
  files_answer :: "gerror option"
  provider_answer :: "gerror option"
  connection_open :: bool

text \<open>What a migrator is made of: its runtime parameters, its connection timeout and limits, and the baseline.\<close>

record migrator =
  mg_params :: "string \<rightharpoonup> string"
  mg_connect_timeout :: int
  mg_max_open :: int
  mg_max_idle :: int
  mg_baseline :: "sqltx \<Rightarrow> gerror option \<times> sqltx"

definition OpenDB :: "migrator_host \<Rightarrow> migrator_host" where
  "OpenDB h = h\<lparr>connection_open := True\<rparr>"

definition CloseDB :: "migrator_host \<Rightarrow> migrator_host" where
  "CloseDB h = h\<lparr>connection_open := False\<rparr>"

definition NewMigrator :: "string \<Rightarrow> string \<Rightarrow> bool \<Rightarrow> migrator_host \<Rightarrow> (gerror + migrator) \<times> migrator_host" where
  "NewMigrator legacySQL url adoptLegacy h =
     (case mg_parse h url of
        None \<Rightarrow> (Inl (NewErr ''invalid migration connection configuration''), h)
      | Some params \<Rightarrow>
          let db = OpenDB h in
          if ping_answer h \<noteq> None then (Inl (NewErr ''migration database connection failed''), CloseDB db)
          else (case locker_answer h of Some e \<Rightarrow> (Inl e, CloseDB db) | None \<Rightarrow>
               (case files_answer h of Some e \<Rightarrow> (Inl e, CloseDB db) | None \<Rightarrow>
               (case provider_answer h of Some e \<Rightarrow> (Inl e, CloseDB db) | None \<Rightarrow>
                 (Inr \<lparr>mg_params = params
                         (''search_path'' \<mapsto> ''public'', ''lock_timeout'' \<mapsto> ''5000'',
                          ''statement_timeout'' \<mapsto> ''120000'', ''application_name'' \<mapsto> ''address-intelligence-migrate''),
                       mg_connect_timeout = 5 * second, mg_max_open = 2, mg_max_idle = 2,
                       mg_baseline = baseline legacySQL adoptLegacy\<rparr>,
                  db)))))"

end
