(* ===== verification/Database_Claims.thy ===== *)
theory Database_Claims
  imports Database_Migrate Config_Claims
begin

text \<open>
  What the database layer guarantees: a pool is published only when it was verified, migration errors
  carry no text of the driver, and adopting a legacy schema never rewrites it.
\<close>

section \<open>Publishing a pool\<close>

definition pool_errors :: "gerror list" where
  "pool_errors = map NewErr
     [''invalid database connection configuration'', ''invalid database pool limits'',
      ''database pool initialization failed'', ''database schema is unavailable; run migrations first'',
      ''database schema version does not match this binary'', ''database runtime privileges are missing'']"

lemma pool_settings_params [simp]:
  "RuntimeParams (pool_settings svc l c) ''search_path'' = Some ''public''"
  "RuntimeParams (pool_settings svc l c) ''statement_timeout'' = Some (Itoa (StatementTimeout l div millisecond))"
  "pc_MaxConns (pool_settings svc l c) = MaxConns l" "pc_MinConns (pool_settings svc l c) = MinConns l"
  by (simp_all add: pool_settings_def)


definition demo_limits :: DatabasePool where
  "demo_limits = \<lparr>MaxConns = 10, MinConns = 0, ConnectTimeout = 5 * second, ProbeTimeout = second,
     MaxConnLifetime = 1800 * second, MaxConnIdleTime = 300 * second, StatementTimeout = 30 * second\<rparr>"

definition demo_pool_host :: pool_host where
  "demo_pool_host = \<lparr>parse_config = (\<lambda>url. Some \<lparr>pc_MaxConns = 4, pc_MinConns = 0, pc_MaxConnLifetime = 0,
       pc_MaxConnIdleTime = 0, pc_MaxConnLifetimeJitter = 0, pc_ConnectTimeout = 0,
       RuntimeParams = [''search_path'' \<mapsto> ''evil'']\<rparr>),
     new_pool = (\<lambda>c. True), version_row = Inr 3, privileges_row = Inr True, probe_ctx = None, pool_events = []\<rparr>"


section \<open>Migration errors\<close>

text \<open>
  An error without its texts: what stays is its shape, the SQL states, the versions and the identity of
  sentinels and codes.
\<close>

primrec redact :: "gerror \<Rightarrow> gerror" where
  "redact (CodeErr c) = CodeErr c"
| "redact (AppErr c cause) = AppErr c (map_option redact cause)"
| "redact AppErrNil = AppErrNil"
| "redact (ValidationErr ds) = ValidationErr []"
| "redact ValidationErrNil = ValidationErrNil"
| "redact (RequestErr c) = RequestErr c"
| "redact (Sentinel v) = Sentinel v"
| "redact (NewErr t) = NewErr []"
| "redact (WrapErr t e) = WrapErr [] (redact e)"
| "redact (JoinErr es) = JoinErr (map redact es)"
| "redact (ForeignErr t st pv es) = ForeignErr [] st pv (map redact es)"
| "redact MaxBytesErr = MaxBytesErr"
| "redact InvalidUnmarshalErr = InvalidUnmarshalErr"

lemma Unwrap_redact: "Unwrap (redact e) = map redact (Unwrap e)"
  by (cases e) (auto split: option.splits)

lemma errors_As_redact:
  assumes "\<And>x. p (redact x) = p x"
  shows "errors_As p (redact e) = map_option redact (errors_As p e)"
    and "errors_As_list p (map redact es) = map_option redact (errors_As_list p es)"
  using assms
  by (induction p e and p es rule: errors_As_errors_As_list.induct)
    (simp_all add: errors_As.simps Unwrap_redact split: option.splits)

lemma observed_redact [simp]:
  "partial_of (redact e) = partial_of e" "sqlstate_of (redact e) = sqlstate_of e"
  "same_error (redact e) (Sentinel v) = same_error e (Sentinel v)" "Is_method (redact e) (Sentinel v) = Is_method e (Sentinel v)"
  by (cases e; simp)+

lemma errors_Is_redact [simp]: "errors_Is (redact e) (Sentinel v) = errors_Is e (Sentinel v)"
  by (simp add: errors_Is_def errors_As_redact)

lemma migration_message_redact: "migration_message (redact e) = migration_message e"
  unfolding migration_message_def
  by (simp add: errors_As_redact option.map_comp case_map_option comp_def split: option.splits)

text \<open>
  C38. A migration error carries no text of the driver. What \<^verbatim>\<open>SafeMigrationError\<close> returns is the same
  for two errors that differ only in their texts (messages with SQL, credentials or row values), so
  only versions, SQL states and the known sentinels show; the original error cannot be reached from
  it: everything below it is the known sentinel it matched, and a nil error stays nil.
\<close>

theorem SafeMigrationError_redacts:
  "SafeMigrationError (Some e) = SafeMigrationError (Some (redact e)) \<and>
   (\<exists>safe. SafeMigrationError (Some e) = Some safe \<and>
      (case find (errors_Is e) known_errors of
         Some known \<Rightarrow> chain safe = [safe, known] \<and> Error safe = migration_message e @ '': '' @ Error known
       | None \<Rightarrow> chain safe = [safe] \<and>
           Error safe = migration_message e @ ''; check database server diagnostics and migration status'')) \<and>
   SafeMigrationError None = None"
proof -
  have f: "find (errors_Is (redact e)) known_errors = find (errors_Is e) known_errors"
    by (simp add: known_errors_def)
  have "set known_errors \<subseteq> range Sentinel" by (auto simp: known_errors_def)
  then have s: "chain known = [known]" if "find (errors_Is e) known_errors = Some known" for known
    using that by (auto simp: find_Some_iff chain.simps dest!: nth_mem)
  show ?thesis
    by (cases "find (errors_Is e) known_errors")
      (simp_all add: SafeMigrationError_def f migration_message_redact s chain.simps [of "WrapErr t x" for t x] chain.simps [of "NewErr t" for t]
        del: Error.simps, simp_all)
qed

section \<open>The baseline\<close>

lemma snapshot_executed:
  "snd (snapshot ns t) = t\<lparr>executed := executed t @ [pin_catalog]\<rparr>"
  by (auto simp: snapshot_def exec_sql_def split: option.splits sum.splits prod.splits)

text \<open>The statements of an adoption, in order.\<close>

definition adoption_statements :: "string \<Rightarrow> string list" where
  "adoption_statements legacySQL = [pin_catalog, probe_begin, baselineSQL legacySQL, pin_catalog, probe_end]"

definition at_statement :: "string \<Rightarrow> nat \<Rightarrow> sqltx \<Rightarrow> sqltx" where
  "at_statement legacySQL n t = t\<lparr>executed := executed t @ take n (adoption_statements legacySQL)\<rparr>"

lemma at_statement_0: "at_statement legacySQL 0 t = t"
  by (simp add: at_statement_def)

lemma snapshot_at:
  "snd (snapshot ''public'' t) = at_statement legacySQL 1 t"
  "snd (snapshot ''aip_baseline_probe'' (at_statement legacySQL 3 t)) = at_statement legacySQL 4 t"
  by (simp_all add: snapshot_executed at_statement_def adoption_statements_def numeral_eq_Suc)

lemma exec_at:
  "snd (exec_sql probe_begin (at_statement legacySQL 1 t)) = at_statement legacySQL 2 t"
  "snd (exec_sql (baselineSQL legacySQL) (at_statement legacySQL 2 t)) = at_statement legacySQL 3 t"
  "snd (exec_sql probe_end (at_statement legacySQL 4 t)) = at_statement legacySQL 5 t"
  by (simp_all add: exec_sql_def at_statement_def adoption_statements_def numeral_eq_Suc)

lemma verifyLegacy_executed:
  assumes "verifyLegacy legacySQL t = (res, t')"
  shows "(\<exists>n \<le> 5. t' = at_statement legacySQL n t) \<and>
    (res = None \<longrightarrow> t' = at_statement legacySQL 5 t \<and> ledger_answer t (executed t) = Inr True \<and>
      (\<exists>actual. fst (snapshot ''public'' t) = (actual, None) \<and>
        fst (snapshot ''aip_baseline_probe'' (at_statement legacySQL 3 t)) = (actual, None)))"
proof (cases "ledger_answer t (executed t) = Inr True")
  case False
  then have "t' = at_statement legacySQL 0 t" "res \<noteq> None"
    using assms by (auto simp: verifyLegacy_def at_statement_0 split: sum.splits if_splits)
  then show ?thesis by auto
next
  case True
  obtain s1 e1 where 1: "snapshot ''public'' t = ((s1, e1), at_statement legacySQL 1 t)"
    using snapshot_at(1) [of t legacySQL] by (metis prod.collapse)
  obtain e2 where 2: "exec_sql probe_begin (at_statement legacySQL 1 t) = (e2, at_statement legacySQL 2 t)"
    using exec_at(1) by (metis prod.collapse)
  obtain e3 where 3: "exec_sql (baselineSQL legacySQL) (at_statement legacySQL 2 t) = (e3, at_statement legacySQL 3 t)"
    using exec_at(2) by (metis prod.collapse)
  obtain s4 e4 where 4: "snapshot ''aip_baseline_probe'' (at_statement legacySQL 3 t) = ((s4, e4), at_statement legacySQL 4 t)"
    using snapshot_at(2) [of legacySQL t] by (metis prod.collapse)
  obtain e5 where 5: "exec_sql probe_end (at_statement legacySQL 4 t) = (e5, at_statement legacySQL 5 t)"
    using exec_at(3) by (metis prod.collapse)
  have n: "\<exists>n \<le> 5. at_statement legacySQL k t = at_statement legacySQL n t" if "k \<le> 5" for k
    using that by blast
  show ?thesis using assms True 1 2 3 4 5 n
    by (cases e1; cases e2; cases e3; cases e4; cases e5) (auto simp: verifyLegacy_def split: if_splits)
qed


definition demo_tx :: sqltx where
  "demo_tx = \<lparr>executed = [], exec_answer = (\<lambda>h sql. None), regclass_answer = (\<lambda>h. Inr True), ledger_answer = (\<lambda>h. Inr True),
     rows_answer = (\<lambda>h ns. Inr ([Inr (''table:'' @ ns @ ''.places:r''), Inr ''column:places:id''], None))\<rparr>"

definition demo_legacy :: string where "demo_legacy = ''BEGIN; CREATE TABLE places(id int); COMMIT;''"

lemma demo_adopts: "fst (baseline demo_legacy True demo_tx) = None"
  by code_simp


end
