(* ===== verification/Database_Normalize.thy ===== *)
theory Database_Normalize
  imports Database_Migrate
begin

text \<open>
  The two ways PostgreSQL prints a check against a list of texts, and the proof that
  \<^verbatim>\<open>normalizeDumpedCheckArray\<close> maps both to the same line.
\<close>

section \<open>Searching an array\<close>

lemma consumes_NoneOf_plus: "consumes (Plus (NoneOf cs)) (\<lambda>w. w \<noteq> [] \<and> list_all (\<lambda>c. c \<notin> set cs) w)"
proof -
  have star: "consumes (Star (NoneOf cs)) (list_all (\<lambda>c. c \<notin> set cs))"
    by (rule consumes_cong [OF consumes_Star [OF consumes_NoneOf]]) (rule repeats_single)
  show ?thesis unfolding Plus_def
  proof (rule consumes_cong [OF consumes_Cat [OF consumes_NoneOf star]])
    fix w
    show "(\<exists>u v. w = u @ v \<and> (\<exists>c. u = [c] \<and> c \<notin> set cs) \<and> list_all (\<lambda>c. c \<notin> set cs) v) \<longleftrightarrow>
      w \<noteq> [] \<and> list_all (\<lambda>c. c \<notin> set cs) w"
      by (cases w) (auto, metis append_Cons append_Nil)
  qed
qed

text \<open>Both array patterns have the same form.\<close>

definition array_pattern :: "string \<Rightarrow> string \<Rightarrow> regex" where
  "array_pattern lead rest = Seq [Lit (lead @ ''[''), Group 1 (Plus (NoneOf '']'')), Lit ('']'' @ rest)]"

lemma array_patterns:
  "wholeCheckArray = array_pattern ''(ARRAY'' '')::text[]''" "itemCheckArray = array_pattern ''ARRAY'' ''''"
  by (simp_all add: wholeCheckArray_def itemCheckArray_def array_pattern_def)

lemma in_array_pattern:
  "st' \<in> set (all_matches n (array_pattern lead rest) ([], s)) \<longleftrightarrow>
     (\<exists>u t. st' = ([(1, u)], t) \<and> s = lead @ ''['' @ u @ '']'' @ rest @ t \<and> u \<noteq> [] \<and> CHR '']'' \<notin> set u)"
  unfolding array_pattern_def
  by (simp add: match_sets in_Group_consumes [OF consumes_NoneOf_plus] list_all_iff
      del: all_matches.simps Seq.simps Lit.simps all_matches_Seq_Cons) (auto)

lemma find_from_skip:
  assumes "\<And>a b. pre = a @ b \<Longrightarrow> b \<noteq> [] \<Longrightarrow> all_matches n r ([], b @ s) = []"
    and "all_matches n r ([], s) \<noteq> []" and "\<And>m. m \<in> set (all_matches n r ([], s)) \<Longrightarrow> m = (g, t)"
  shows "find_from n r (pre @ s) = Some (pre, t, g)"
  using assms(1)
proof (induction pre)
  case Nil
  from assms(2,3) have "\<exists>ms. all_matches n r ([], s) = (g, t) # ms" by (cases "all_matches n r ([], s)") auto
  then show ?case by (cases s) auto
next
  case (Cons c pre)
  have "all_matches n r ([], c # pre @ s) = []" using Cons.prems [of "[]" "c # pre"] by simp
  moreover have "find_from n r (pre @ s) = Some (pre, t, g)"
    by (rule Cons.IH) (metis Cons.prems append_Cons)
  ultimately show ?case by simp
qed

lemma find_from_nowhere:
  assumes "\<And>a b. s = a @ b \<Longrightarrow> all_matches n r ([], b) = []"
  shows "find_from n r s = None"
  using assms
proof (induction s)
  case (Cons c s)
  have "all_matches n r ([], c # s) = []" using Cons.prems [of "[]"] by simp
  moreover have "find_from n r s = None" by (rule Cons.IH) (metis Cons.prems append_Cons)
  ultimately show ?case by simp
qed simp

section \<open>Lines with one array\<close>

text \<open>A text with one opening bracket: where an array can be found in it.\<close>

lemma split_at_bracket:
  assumes "x @ c # y = x' @ c # y'" and "c \<notin> set x" and "c \<notin> set x'"
  shows "x = x' \<and> y = y'"
proof -
  have "takeWhile (\<lambda>d. d \<noteq> c) (x @ c # y) = x" "takeWhile (\<lambda>d. d \<noteq> c) (x' @ c # y') = x'"
    using assms(2,3) by (auto simp: takeWhile_append takeWhile_eq_all_conv)
  with assms(1) show ?thesis by auto
qed

lemma array_found:
  assumes "CHR ''['' \<notin> set pre" and "CHR ''['' \<notin> set lead" and "u \<noteq> []" and "CHR '']'' \<notin> set u"
  shows "find_from n (array_pattern lead rest) (pre @ lead @ ''['' @ u @ '']'' @ rest @ post) = Some (pre, post, [(1, u)])"
proof (rule find_from_skip)
  fix a b assume p: "pre = a @ b" and b: "b \<noteq> []"
  show "all_matches n (array_pattern lead rest) ([], b @ lead @ ''['' @ u @ '']'' @ rest @ post) = []"
  proof (rule ccontr)
    assume "all_matches n (array_pattern lead rest) ([], b @ lead @ ''['' @ u @ '']'' @ rest @ post) \<noteq> []"
    then obtain m where "m \<in> set (all_matches n (array_pattern lead rest) ([], b @ lead @ ''['' @ u @ '']'' @ rest @ post))"
      by (metis list.set_intros(1) neq_Nil_conv)
    then obtain w where "(b @ lead) @ CHR ''['' # (u @ '']'' @ rest @ post) = lead @ CHR ''['' # w"
      by (auto simp: in_array_pattern)
    from split_at_bracket [OF this] assms(1,2) p b show False by auto
  qed
next
  show "all_matches n (array_pattern lead rest) ([], lead @ ''['' @ u @ '']'' @ rest @ post) \<noteq> []"
    using assms(3,4) in_array_pattern [of "([(1, u)], post)"] by (metis list.set(1) empty_iff)
  fix m assume "m \<in> set (all_matches n (array_pattern lead rest) ([], lead @ ''['' @ u @ '']'' @ rest @ post))"
  then obtain u' t where m: "m = ([(1, u')], t)" "CHR '']'' \<notin> set u'"
    "u @ CHR '']'' # (rest @ post) = u' @ CHR '']'' # (rest @ t)" by (auto simp: in_array_pattern)
  from split_at_bracket [OF m(3)] assms(4) m show "m = ([(1, u)], post)" by simp
qed

lemma array_submatch:
  assumes "CHR ''['' \<notin> set lead" and "u \<noteq> []" and "CHR '']'' \<notin> set u"
  shows "submatch (the (FindStringSubmatch (array_pattern lead rest) (lead @ ''['' @ u @ '']'' @ rest))) 1 = u"
  using array_found [where pre = "[]" and lead = lead and u = u and rest = rest and post = "[]"] assms
  by (simp add: FindStringSubmatch_def submatch_def)

lemma array_not_found:
  assumes "\<And>a w. s = a @ lead @ CHR ''['' # w \<Longrightarrow> \<not> (\<exists>u t. w = u @ CHR '']'' # rest @ t \<and> CHR '']'' \<notin> set u)"
  shows "find_from n (array_pattern lead rest) s = None"
proof (rule find_from_nowhere, rule ccontr)
  fix a b assume s: "s = a @ b" and "all_matches n (array_pattern lead rest) ([], b) \<noteq> []"
  then obtain m where "m \<in> set (all_matches n (array_pattern lead rest) ([], b))"
    by (metis list.set_intros(1) neq_Nil_conv)
  then obtain u t where "b = lead @ CHR ''['' # u @ CHR '']'' # rest @ t" "CHR '']'' \<notin> set u" by (auto simp: in_array_pattern)
  with assms [of a] s show False by auto
qed

lemma array_replaced:
  assumes "CHR ''['' \<notin> set pre" and "CHR ''['' \<notin> set lead" and "u \<noteq> []" and "CHR '']'' \<notin> set u" and "CHR ''['' \<notin> set post"
  shows "ReplaceAllStringFunc (array_pattern lead rest) f (pre @ lead @ ''['' @ u @ '']'' @ rest @ post) =
    pre @ f (lead @ ''['' @ u @ '']'' @ rest) @ post"
proof -
  let ?s = "pre @ lead @ ''['' @ u @ '']'' @ rest @ post" and ?r = "array_pattern lead rest"
  obtain k where k: "length ?s = Suc k" by (metis append_is_Nil_conv list.distinct(1) list.exhaust length_Cons)
  have none: "find_from n ?r post = None" for n
    using assms(5) by (intro array_not_found) auto
  then have "replace_all k' n ?r f post = post" for k' n by (cases k') simp_all
  moreover have "take (length ?s - length pre - length post) (drop (length pre) ?s) = lead @ ''['' @ u @ '']'' @ rest" by simp
  ultimately show ?thesis using array_found [OF assms(1-4), of "length ?s" rest post]
    unfolding ReplaceAllStringFunc_def k by (simp add: k [symmetric] none)
qed

lemma array_kept: "find_from (length s) r s = None \<Longrightarrow> ReplaceAllStringFunc r f s = s"
  by (cases "length s") (simp_all add: ReplaceAllStringFunc_def)

section \<open>Elements\<close>

text \<open>A literal as the server quotes it.\<close>

fun quote_literal :: "string \<Rightarrow> string" where
  "quote_literal [] = []"
| "quote_literal (c # cs) = (if c = CHR 0x27 then [CHR 0x27, CHR 0x27] else [c]) @ quote_literal cs"

definition whole_element :: "string \<Rightarrow> string" where
  "whole_element v = CHR 0x27 # quote_literal v @ CHR 0x27 # ''::character varying''"

definition cast_element :: "string \<Rightarrow> string" where
  "cast_element v = CHR ''('' # CHR 0x27 # quote_literal v @ CHR 0x27 # ''::character varying)::text''"

definition quoted_word :: "bytes \<Rightarrow> bool" where
  "quoted_word w \<longleftrightarrow> (\<exists>c. w = [c] \<and> c \<notin> set [CHR 0x27]) \<or> w = [CHR 0x27, CHR 0x27]"

lemma consumes_quoted: "consumes (Star (Alt (NoneOf [CHR 0x27]) (Lit [CHR 0x27, CHR 0x27]))) (repeats quoted_word)"
proof -
  have "consumes (Alt (NoneOf [CHR 0x27]) (Lit [CHR 0x27, CHR 0x27])) quoted_word"
    by (rule consumes_cong [OF consumes_Alt [OF consumes_NoneOf consumes_Lit]]) (auto simp: quoted_word_def)
  then show ?thesis by (rule consumes_Star)
qed

lemma repeats_quote_literal: "repeats quoted_word (quote_literal v)"
proof (induction v)
  case (Cons c v)
  have "quoted_word (if c = CHR 0x27 then [CHR 0x27, CHR 0x27] else [c])" by (auto simp: quoted_word_def)
  from repeats_append [OF this _ Cons] show ?case by simp
qed (simp add: repeats_Nil)

lemma element_found:
  assumes "item = Cat BeginText (Seq [Lit front, quoted_star, Lit back_part, EndText])"
  shows "element item (front @ quote_literal v @ back_part) = Some (quote_literal v)"
proof -
  let ?s = "front @ quote_literal v @ back_part"
  have sets: "m \<in> set (all_matches n (Seq [Lit front, quoted_star, Lit back_part, EndText]) ([], ?s)) \<longleftrightarrow>
      (\<exists>w. m = ([(1, w)], []) \<and> ?s = front @ w @ back_part \<and> repeats quoted_word w)" for m n
    unfolding quoted_star_def
    by (simp add: match_sets in_Group_consumes [OF consumes_quoted] del: all_matches.simps Seq.simps Lit.simps all_matches_Seq_Cons) (auto)
  have "FindStringSubmatch item ?s = Some [(1, quote_literal v)]"
    unfolding assms
    by (rule FindStringSubmatch_anchored_unique [where t = "[]"])       (use repeats_quote_literal in \<open>auto simp: sets simp del: all_matches.simps Seq.simps Lit.simps all_matches_Seq_Cons\<close>)
  then show ?thesis by (simp add: element_def submatch_def)
qed

lemma whole_element_found: "element wholeItem (whole_element v) = Some (quote_literal v)"
  using element_found [OF wholeItem_def, of v] by (simp add: whole_element_def)

lemma cast_element_found: "element castItem (cast_element v) = Some (quote_literal v)"
  using element_found [OF castItem_def, of v] by (simp add: cast_element_def)

section \<open>Splitting the elements\<close>

fun no_separator :: "string \<Rightarrow> bool" where
  "no_separator (c # d # s) \<longleftrightarrow> \<not> (c = CHR '','' \<and> d = CHR '' '') \<and> no_separator (d # s)"
| "no_separator s \<longleftrightarrow> True"

lemma no_separator_iff: "no_separator s \<longleftrightarrow> \<not> Contains s '', ''"
  by (induction s rule: no_separator.induct) auto

lemma no_separator_append:
  "no_separator (a @ b) \<longleftrightarrow> no_separator a \<and> no_separator b \<and> \<not> (a \<noteq> [] \<and> last a = CHR '','' \<and> b \<noteq> [] \<and> hd b = CHR '' '')"
  by (induction a rule: no_separator.induct; cases b) auto

lemma no_separator_quote: "no_separator v \<Longrightarrow> no_separator (quote_literal v) \<and> (v \<noteq> [] \<longrightarrow> hd (quote_literal v) = hd v)"
  by (induction v rule: no_separator.induct) auto

lemma split_acc_part:
  "no_separator p \<Longrightarrow> split_acc '', '' acc (p @ '', '' @ s) = (rev acc @ p) # split_acc '', '' [] s"
proof (induction p arbitrary: acc rule: no_separator.induct)
  case (1 c d p)
  then show ?case by auto
qed auto

lemma split_acc_last: "no_separator p \<Longrightarrow> split_acc '', '' acc p = [rev acc @ p]"
  by (induction p arbitrary: acc rule: no_separator.induct) auto

lemma Split_Join_separator:
  "ps \<noteq> [] \<Longrightarrow> list_all no_separator ps \<Longrightarrow> Split (Join ps '', '') '', '' = ps"
proof (induction ps rule: induct_list012)
  case (2 p)
  then show ?case by (simp add: Split_def split_acc_last)
next
  case (3 p q ps)
  then show ?case using split_acc_part [of p "[]"] by (simp add: Split_def)
qed simp

section \<open>The two forms\<close>

text \<open>How the server prints a list of texts after a dump was restored, and directly.\<close>

definition whole_form :: "string list \<Rightarrow> string" where
  "whole_form vs = ''(ARRAY['' @ Join (map whole_element vs) '', '' @ ''])::text[]''"

definition cast_form :: "string list \<Rightarrow> string" where
  "cast_form vs = ''ARRAY['' @ Join (map cast_element vs) '', '' @ '']''"

definition normal_form :: "string list \<Rightarrow> string" where
  "normal_form vs = ''ARRAY_TEXT['' @ Join (map quote_literal vs) '','' @ '']''"

text \<open>Literals that cannot be confused with the brackets and separators of the list.\<close>

definition plain_literal :: "string \<Rightarrow> bool" where
  "plain_literal v \<longleftrightarrow> CHR ''['' \<notin> set v \<and> CHR '']'' \<notin> set v \<and> \<not> Contains v '', ''"

lemma set_quote_literal: "set (quote_literal v) = set v"
  by (induction v) auto

lemma set_Join_subset: "set (Join ps sep) \<subseteq> (\<Union>p \<in> set ps. set p) \<union> set sep"
  by (rule subsetI, drule set_Join, auto)

lemma Join_nonempty: "ps \<noteq> [] \<Longrightarrow> [] \<notin> set ps \<Longrightarrow> Join ps sep \<noteq> []"
  by (cases ps rule: list.exhaust; cases "tl ps") auto

lemma no_separator_elements:
  assumes "plain_literal v"
  shows "no_separator (whole_element v)" "no_separator (cast_element v)"
proof -
  have q: "no_separator (quote_literal v)" using assms no_separator_quote by (simp add: plain_literal_def no_separator_iff)
  have t: "no_separator (CHR 0x27 # ''::character varying'')" "no_separator (CHR 0x27 # ''::character varying)::text'')" by simp_all
  show "no_separator (whole_element v)"
    using q t no_separator_append [of "[CHR 0x27]" "quote_literal v @ CHR 0x27 # ''::character varying''"]
    by (simp add: whole_element_def no_separator_append)
  show "no_separator (cast_element v)"
    using q t no_separator_append [of "[CHR ''('', CHR 0x27]" "quote_literal v @ CHR 0x27 # ''::character varying)::text''"]
    by (simp add: cast_element_def no_separator_append)
qed

text \<open>The list of elements as an array pattern sees it.\<close>

lemma elements_text:
  assumes "vs \<noteq> []" and "list_all plain_literal vs"
  shows "Join (map whole_element vs) '', '' \<noteq> []" "Join (map cast_element vs) '', '' \<noteq> []"
    "{CHR ''['', CHR '']''} \<inter> set (Join (map whole_element vs) '', '') = {}"
    "{CHR ''['', CHR '']''} \<inter> set (Join (map cast_element vs) '', '') = {}"
    "{CHR ''['', CHR '']''} \<inter> set (Join (map quote_literal vs) '','') = {}"
proof -
  show "Join (map whole_element vs) '', '' \<noteq> []" "Join (map cast_element vs) '', '' \<noteq> []"
    using assms(1) Join_nonempty [of "map whole_element vs"] Join_nonempty [of "map cast_element vs"]
    by (simp_all add: image_iff whole_element_def cast_element_def)
  show "{CHR ''['', CHR '']''} \<inter> set (Join (map whole_element vs) '', '') = {}"
    using set_Join_subset [of "map whole_element vs" "'', ''"] assms(2)
    by (fastforce simp: whole_element_def set_quote_literal plain_literal_def list_all_iff)
  show "{CHR ''['', CHR '']''} \<inter> set (Join (map cast_element vs) '', '') = {}"
    using set_Join_subset [of "map cast_element vs" "'', ''"] assms(2)
    by (fastforce simp: cast_element_def set_quote_literal plain_literal_def list_all_iff)
  show "{CHR ''['', CHR '']''} \<inter> set (Join (map quote_literal vs) '','') = {}"
    using set_Join_subset [of "map quote_literal vs" "'',''"] assms(2)
    by (fastforce simp: set_quote_literal plain_literal_def list_all_iff)
qed

lemma rewrite_elements:
  assumes "vs \<noteq> []" "list_all plain_literal vs" "\<And>v. element item (el v) = Some (quote_literal v)"
    "\<And>v. plain_literal v \<Longrightarrow> no_separator (el v)"
    "submatch (the (FindStringSubmatch whole array)) 1 = Join (map el vs) '', ''"
  shows "rewrite_array whole item array = normal_form vs"
proof -
  have "Split (Join (map el vs) '', '') '', '' = map el vs"
    using assms(1,2,4) by (intro Split_Join_separator) (auto simp: list_all_iff)
  then show ?thesis using assms(3,5) by (auto simp: rewrite_array_def normal_form_def Let_def comp_def)
qed

lemma rewrite_whole:
  assumes "vs \<noteq> []" "list_all plain_literal vs"
  shows "rewrite_array wholeCheckArray wholeItem (whole_form vs) = normal_form vs"
proof (rule rewrite_elements [OF assms, where el = whole_element])
  show "submatch (the (FindStringSubmatch wholeCheckArray (whole_form vs))) 1 = Join (map whole_element vs) '', ''"
    using array_submatch [of "''(ARRAY''" "Join (map whole_element vs) '', ''" "'')::text[]''"] elements_text [OF assms]
    by (simp add: array_patterns whole_form_def)
qed (simp_all add: whole_element_found no_separator_elements)

lemma rewrite_cast:
  assumes "vs \<noteq> []" "list_all plain_literal vs"
  shows "rewrite_array itemCheckArray castItem (cast_form vs) = normal_form vs"
proof (rule rewrite_elements [OF assms, where el = cast_element])
  show "submatch (the (FindStringSubmatch itemCheckArray (cast_form vs))) 1 = Join (map cast_element vs) '', ''"
    using array_submatch [of "''ARRAY''" "Join (map cast_element vs) '', ''" "''''"] elements_text [OF assms]
    by (simp add: array_patterns cast_form_def)
qed (simp_all add: cast_element_found no_separator_elements)

lemma one_bracket:
  assumes "x @ c # y = a @ c # b" and "c \<notin> set x" and "c \<notin> set y"
  shows "x = a \<and> y = b"
proof (cases "c \<in> set a")
  case True
  then obtain a1 a2 where a: "a = a1 @ c # a2" "c \<notin> set a1" using split_list_first by fastforce
  with assms(1) split_at_bracket [of x c y a1 "a2 @ c # b"] assms(2) have "y = a2 @ c # b" by simp
  with assms(3) show ?thesis by simp
next
  case False
  then show ?thesis using split_at_bracket assms(1,2) by metis
qed

lemma normalize_whole:
  assumes "vs \<noteq> []" "list_all plain_literal vs" "CHR ''['' \<notin> set pre" "CHR ''['' \<notin> set post"
  shows "normalizeDumpedCheckArray (''constraint:'' @ pre @ whole_form vs @ post) = ''constraint:'' @ pre @ normal_form vs @ post"
proof -
  let ?pre = "''constraint:'' @ pre" and ?line = "''constraint:'' @ pre @ normal_form vs @ post"
  note u = elements_text [OF assms(1,2)]
  have "ReplaceAllStringFunc wholeCheckArray (rewrite_array wholeCheckArray wholeItem) (?pre @ whole_form vs @ post) =
      ?pre @ rewrite_array wholeCheckArray wholeItem (whole_form vs) @ post"
    using array_replaced [of ?pre "''(ARRAY''" "Join (map whole_element vs) '', ''" post "'')::text[]''"] u(1,3) assms(3,4)
    by (simp add: array_patterns whole_form_def)
  then have first: "ReplaceAllStringFunc wholeCheckArray (rewrite_array wholeCheckArray wholeItem) (?pre @ whole_form vs @ post) = ?line"
    by (simp add: rewrite_whole [OF assms(1,2)])
  have "find_from n itemCheckArray ?line = None" for n
    unfolding array_patterns
  proof (rule array_not_found)
    fix a w assume "?line = a @ ''ARRAY'' @ CHR ''['' # w"
    then have "(?pre @ ''ARRAY_TEXT'') @ CHR ''['' # (Join (map quote_literal vs) '','' @ '']'' @ post) = (a @ ''ARRAY'') @ CHR ''['' # w"
      by (simp add: normal_form_def)
    from one_bracket [OF this] u(5) assms(3,4) have "?pre @ ''ARRAY_TEXT'' = a @ ''ARRAY''" by auto
    then have "last (?pre @ ''ARRAY_TEXT'') = last (a @ ''ARRAY'')" by (simp only:)
    then show "\<not> (\<exists>u t. w = u @ CHR '']'' # '''' @ t \<and> CHR '']'' \<notin> set u)" by simp
  qed
  then have "ReplaceAllStringFunc itemCheckArray f ?line = ?line" for f by (rule array_kept)
  with first show ?thesis by (simp add: normalizeDumpedCheckArray_def)
qed

lemma normalize_cast:
  assumes "vs \<noteq> []" "list_all plain_literal vs" "CHR ''['' \<notin> set pre" "CHR ''['' \<notin> set post"
  shows "normalizeDumpedCheckArray (''constraint:'' @ pre @ cast_form vs @ post) = ''constraint:'' @ pre @ normal_form vs @ post"
proof -
  let ?pre = "''constraint:'' @ pre"
  let ?line = "?pre @ cast_form vs @ post"
  note u = elements_text [OF assms(1,2)]
  have "find_from n wholeCheckArray ?line = None" for n
    unfolding array_patterns
  proof (rule array_not_found)
    fix a w assume "?line = a @ ''(ARRAY'' @ CHR ''['' # w"
    then have "(?pre @ ''ARRAY'') @ CHR ''['' # (Join (map cast_element vs) '', '' @ '']'' @ post) = (a @ ''(ARRAY'') @ CHR ''['' # w"
      by (simp add: cast_form_def)
    from one_bracket [OF this] u(4) assms(3,4) have "CHR ''['' \<notin> set w" by auto
    then show "\<not> (\<exists>u t. w = u @ CHR '']'' # '')::text[]'' @ t \<and> CHR '']'' \<notin> set u)" by auto
  qed
  then have "ReplaceAllStringFunc wholeCheckArray f ?line = ?line" for f by (rule array_kept)
  moreover have "ReplaceAllStringFunc itemCheckArray (rewrite_array itemCheckArray castItem) ?line =
      ?pre @ rewrite_array itemCheckArray castItem (cast_form vs) @ post"
    using array_replaced [of ?pre "''ARRAY''" "Join (map cast_element vs) '', ''" post "''''"] u(2,4) assms(3,4)
    by (simp add: array_patterns cast_form_def)
  ultimately show ?thesis by (simp add: normalizeDumpedCheckArray_def rewrite_cast [OF assms(1,2)])
qed



text \<open>
  The comment in the code says that every literal is retained, but the separator between them is not
  distinguished from a comma inside one: a list of the literals \<open>a\<close> and \<open>b,c\<close> and a list of
  \<open>a,b\<close> and \<open>c\<close> normalise to the same line, so this drift is not seen.
\<close>

lemma normalize_merges_literals:
  "normalizeDumpedCheckArray (''constraint:t:c:'' @ cast_form [''a'', ''b,c'']) =
   normalizeDumpedCheckArray (''constraint:t:c:'' @ cast_form [''a,b'', ''c''])"
  using normalize_cast [of "[''a'', ''b,c'']" "''t:c:''" "''''"] normalize_cast [of "[''a,b'', ''c'']" "''t:c:''" "''''"]
  by (simp add: plain_literal_def normal_form_def)

end
