(* ===== verification/Entry_Points.thy ===== *)
theory Entry_Points
  imports Bootstrap Database_Migrate Import_Tx
begin

text \<open>
  The commands: \<^verbatim>\<open>RunMigrate\<close> and \<^verbatim>\<open>RunImportData\<close> of \<^verbatim>\<open>src/internal/bootstrap\<close> and the \<^verbatim>\<open>main\<close> packages of
  \<^verbatim>\<open>src/cmd\<close>, which run a component once and turn its outcome into a report and an exit code.
\<close>

section \<open>migrate.go\<close>

text \<open>What goose answers for a migrator: the status of the migrations, or the result of applying them.\<close>

record goose =
  status_rows :: "(int \<times> string) list"
  status_error :: "gerror option"
  up_answer :: "gerror + nat"

definition info :: "string \<Rightarrow> attrs \<Rightarrow> slog_record" where
  "info msg as = \<lparr>rec_level = 0, rec_message = msg, rec_attrs = as\<rparr>"

definition migrate_logger :: "environment \<Rightarrow> contextHandler" where
  "migrate_logger env =
     New_logger \<lparr>log_service = ''migrate'', log_environment = env ''APP_ENV'', log_version = '''', log_minimum = 0\<rparr>"

text \<open>The command once the provider exists: what it logs and the error it ends with.\<close>

definition migrate_command :: "environment \<Rightarrow> string \<Rightarrow> goose \<Rightarrow> printed list \<times> gerror option" where
  "migrate_command env command g =
     (let write = (\<lambda>msg as. log_plain (migrate_logger env) no_context (info msg as)) in
      if command = ''status'' then
        (List.map_filter
           (\<lambda>(version, st). write ''migration status'' [(''migration_version'', SInt version), (''state'', SString st)])
           (status_rows g),
         status_error g)
      else
        (case up_answer g of
           Inl e \<Rightarrow> ([], Some e)
         | Inr applied \<Rightarrow>
             (List.map_filter (\<lambda>as. write ''migrations completed'' as)
                [[(''applied'', SInt (int applied)), (''schema_version'', SInt SchemaVersion)]], None)))"

text \<open>\<open>apply_goose\<close> is goose run on the provider. The deferred \<^verbatim>\<open>Close\<close> closes the connection.\<close>

definition RunMigrate ::
  "environment \<Rightarrow> string \<Rightarrow> (migrator \<Rightarrow> goose) \<Rightarrow> string \<Rightarrow> migrator_host \<Rightarrow> gerror option \<times> printed list \<times> migrator_host" where
  "RunMigrate env legacySQL apply_goose command h =
     (if command \<noteq> ''up'' \<and> command \<noteq> ''status'' \<and> command \<noteq> ''adopt-legacy''
      then (Some (NewErr ''usage: migrate up|status|adopt-legacy''), [], h)
      else
        (case MigrationURL env of
           Inl e \<Rightarrow> (Some e, [], h)
         | Inr url \<Rightarrow>
             if url = ''''
             then (Some (NewErr ''MIGRATION_DATABASE_URL or split MIGRATION_DATABASE_* settings are required''), [], h)
             else
               (case NewMigrator legacySQL url (command = ''adopt-legacy'') h of
                  (Inl e, h') \<Rightarrow> (Some e, [], h')
                | (Inr m, h') \<Rightarrow>
                    (case migrate_command env command (apply_goose m) of
                       (lines, err) \<Rightarrow> (SafeMigrationError err, lines, CloseDB h')))))"

section \<open>importdata.go\<close>

text \<open>\<open>connect\<close> gives the environment of an import for a URL and a directory.\<close>

definition RunImportData ::
  "environment \<Rightarrow> (string \<Rightarrow> string \<Rightarrow> env) \<Rightarrow> string \<Rightarrow> db \<Rightarrow> ((gerror + import_error) + nat \<times> bool) \<times> db" where
  "RunImportData env connect dir d =
     (case MigrationURL env of
        Inl e \<Rightarrow> (Inl (Inl e), d)
      | Inr url \<Rightarrow>
          if url = '''' then (Inl (Inl (NewErr ''migration database credentials are required'')), d)
          else
            (case Import (connect url dir) snapshots d of
               (Inl e, d') \<Rightarrow> (Inl (Inr e), d')
             | (Inr r, d') \<Rightarrow> (Inr r, d')))"

section \<open>src/cmd\<close>

text \<open>\<^verbatim>\<open>healthcheck.go\<close>: \<open>valid_url\<close> says whether a request can be made of the URL, \<open>get\<close> is the answer of the client.\<close>

definition health_endpoint :: "environment \<Rightarrow> string" where
  "health_endpoint env =
     (if env ''HEALTHCHECK_URL'' = '''' then ''http://127.0.0.1:8080/health/live'' else env ''HEALTHCHECK_URL'')"

definition checkHealth :: "environment \<Rightarrow> (string \<Rightarrow> bool) \<Rightarrow> (string \<Rightarrow> gerror + int) \<Rightarrow> gerror option" where
  "checkHealth env valid_url get =
     (let endpoint = health_endpoint env in
      if \<not> valid_url endpoint then Some (NewErr ''invalid health request'')
      else
        (case get endpoint of
           Inl e \<Rightarrow> Some (NewErr ''health request failed'')
         | Inr st \<Rightarrow> if st \<noteq> 200 then Some (NewErr (''health request returned status '' @ Itoa st)) else None))"

text \<open>
  How a process ends: the failure it reports and its exit code; a panic ends it with code 2, and a
  runtime that blocks does not end.
\<close>

definition exit_of :: "environment \<Rightarrow> string \<Rightarrow> string \<Rightarrow> run_outcome \<Rightarrow> printed option \<times> nat option" where
  "exit_of env service_name version out =
     (case out of
        Returned None \<Rightarrow> (None, Some 0)
      | Returned (Some e) \<Rightarrow> (LogFailure env service_name version e, Some 1)
      | Panicking \<Rightarrow> (None, Some 2)
      | Blocked \<Rightarrow> (None, None))"

definition with_host :: "environment \<Rightarrow> string \<Rightarrow> string \<Rightarrow> run_outcome \<times> host \<Rightarrow> (printed option \<times> nat option) \<times> host" where
  "with_host env service_name version r = (exit_of env service_name version (fst r), snd r)"

definition worker_main :: "(bytes \<Rightarrow> bytes) \<Rightarrow> environment \<Rightarrow> string \<Rightarrow> host \<Rightarrow> (printed option \<times> nat option) \<times> host" where
  "worker_main uni env version h = with_host env ''worker'' version (run_new (NewWorker uni env [WithVersion version]) h)"

definition indexer_main :: "(bytes \<Rightarrow> bytes) \<Rightarrow> environment \<Rightarrow> string \<Rightarrow> host \<Rightarrow> (printed option \<times> nat option) \<times> host" where
  "indexer_main uni env version h = with_host env ''indexer'' version (run_new (NewIndexer uni env [WithVersion version]) h)"

definition api_main ::
  "(bytes \<Rightarrow> bytes) \<Rightarrow> (real \<Rightarrow> string) \<Rightarrow> int \<Rightarrow> ((string \<times> handler) list \<Rightarrow> handler) \<Rightarrow> gerror option \<Rightarrow>
   (string \<Rightarrow> bool) \<Rightarrow> (string \<Rightarrow> gerror + int) \<Rightarrow> environment \<Rightarrow> string \<Rightarrow> string list \<Rightarrow> host \<Rightarrow> (printed option \<times> nat option) \<times> host" where
  "api_main uni fmt now mux probe valid_url get env version args h =
     with_host env ''api'' version
       (if length args = 2 \<and> args ! 1 = ''healthcheck'' then (Returned (checkHealth env valid_url get), h)
        else run_new (NewAPI uni fmt now mux probe env [WithVersion version]) h)"

definition migrate_main ::
  "environment \<Rightarrow> string \<Rightarrow> (migrator \<Rightarrow> goose) \<Rightarrow> string \<Rightarrow> string list \<Rightarrow> migrator_host \<Rightarrow>
   (printed option \<times> nat option) \<times> printed list \<times> migrator_host" where
  "migrate_main env legacySQL apply_goose version args h =
     (let command = (if length args = 2 then args ! 1 else '''') in
      case RunMigrate env legacySQL apply_goose command h of
        (err, lines, h') \<Rightarrow> (exit_of env ''migrate'' version (Returned err), lines, h'))"

text \<open>\<^verbatim>\<open>importdata\<close> prints one line: the error, or what was imported.\<close>

datatype import_report = ImportFailed "gerror + import_error" | Report string

definition importdata_main :: "environment \<Rightarrow> (string \<Rightarrow> string \<Rightarrow> env) \<Rightarrow> string \<Rightarrow> db \<Rightarrow> (import_report \<times> nat) \<times> db" where
  "importdata_main env connect dir d =
     (case RunImportData env connect dir d of
        (Inl e, d') \<Rightarrow> ((ImportFailed e, 1), d')
      | (Inr (promoted, unchanged), d') \<Rightarrow>
          ((Report (if unchanged then ''source snapshots already imported; no changes''
                    else ''imported six source snapshots; promoted '' @ Itoa (int promoted) @
                         '' administrative units; level 4 retained unresolved''), 0), d'))"

section \<open>Properties\<close>

text \<open>
  A migration command closes its connection, whatever happens; an error of goose reaches the caller
  only as a safe error, and only the command \<^verbatim>\<open>adopt-legacy\<close> builds a migrator that adopts.
\<close>

lemma NewMigrator_closed: "NewMigrator legacySQL url adopt h = (Inl e, h') \<Longrightarrow> \<not> connection_open h \<Longrightarrow> \<not> connection_open h'"
  by (auto simp: NewMigrator_def CloseDB_def Let_def split: option.splits if_splits)

lemma NewMigrator_errors:
  "fst (NewMigrator legacySQL url adopt h) = Inl e \<Longrightarrow>
     e \<in> {NewErr ''invalid migration connection configuration'', NewErr ''migration database connection failed''} \<or>
     Some e \<in> {locker_answer h, files_answer h, provider_answer h}"
  by (auto simp: NewMigrator_def Let_def split: option.splits if_splits)

lemma NewMigrator_baseline: "NewMigrator legacySQL url adopt h = (Inr m, h') \<Longrightarrow> mg_baseline m = baseline legacySQL adopt"
  by (auto simp: NewMigrator_def Let_def split: option.splits if_splits)

lemma RunMigrate_closes:
  assumes "RunMigrate env legacySQL apply_goose command h = (err, lines, h')" and "\<not> connection_open h"
  shows "\<not> connection_open h'"
  using assms NewMigrator_closed
  by (auto simp: RunMigrate_def CloseDB_def split: if_splits sum.splits prod.splits)


definition demo_migrate_env :: environment where
  "demo_migrate_env = (\<lambda>k. if k = ''MIGRATION_DATABASE_URL'' then ''postgres://db/app'' else '''')"

definition demo_migrator_host :: migrator_host where
  "demo_migrator_host = \<lparr>mg_parse = (\<lambda>url. Some Map.empty), ping_answer = None, locker_answer = None, files_answer = None,
     provider_answer = None, connection_open = False\<rparr>"

definition demo_goose :: goose where
  "demo_goose = \<lparr>status_rows = [], status_error = None, up_answer = Inl (ForeignErr ''row (1, secret)'' (Some ''23505'') (Some (Some 2)) [])\<rparr>"


text \<open>
  A process that ends with code 0 reported nothing; one that ends with code 1 reported exactly one
  error with the identity of the command.
\<close>

lemma exit_reports:
  "exit_of env svc version out = (report, Some code) \<Longrightarrow>
     (code = 0 \<longrightarrow> out = Returned None \<and> report = None) \<and>
     (code = 1 \<longrightarrow> (\<exists>e p. out = Returned (Some e) \<and> report = Some p \<and> p_level p = 8 \<and>
        map_of (p_attrs p) ''service'' = Some (SString svc) \<and> map_of (p_attrs p) ''error'' = Some (SString (Error e))))"
  using Failure_reports [of env svc version]
  by (auto simp: exit_of_def LogFailure_def split: run_outcome.splits option.splits) fastforce

end
