(* ===== verification/Json_Grammar.thy ===== *)
theory Json_Grammar
  imports Json_Scan
begin

text \<open>
  The JSON grammar of RFC 8259, by nesting depth, and the proof that the scanner of \<^verbatim>\<open>Json_Scan\<close> finds
  exactly one value of the grammar at the head of its input.
\<close>

section \<open>The grammar\<close>

definition json_ws :: "bytes \<Rightarrow> bool" where
  "json_ws s \<longleftrightarrow> list_all json_space s"

fun string_body :: "bytes \<Rightarrow> bool" where
  "string_body [] = True"
| "string_body (c # s) =
     (if c = CHR 0x5C then
        (case s of
           [] \<Rightarrow> False
         | e # t \<Rightarrow>
             if e \<in> set (''bfnrt/'' @ [CHR 0x5C, CHR 0x22]) then string_body t
             else if e = CHR ''u'' then
               (case t of
                  h1 # h2 # h3 # h4 # r \<Rightarrow> json_hex h1 \<and> json_hex h2 \<and> json_hex h3 \<and> json_hex h4 \<and> string_body r
                | _ \<Rightarrow> False)
             else False)
      else c \<noteq> CHR 0x22 \<and> 32 \<le> (of_char c :: nat) \<and> string_body s)"

definition digits :: "bytes \<Rightarrow> bool" where
  "digits s \<longleftrightarrow> s \<noteq> [] \<and> list_all is_digit s"

definition integer_part :: "bytes \<Rightarrow> bool" where
  "integer_part s \<longleftrightarrow> s = ''0'' \<or> digits s \<and> hd s \<noteq> CHR ''0''"

definition fraction :: "bytes \<Rightarrow> bool" where
  "fraction s \<longleftrightarrow> s = [] \<or> (\<exists>ds. s = CHR ''.'' # ds \<and> digits ds)"

definition exponent :: "bytes \<Rightarrow> bool" where
  "exponent s \<longleftrightarrow> s = [] \<or>
     (\<exists>m sign ds. s = m # sign @ ds \<and> m \<in> set ''eE'' \<and> sign \<in> {'''', ''+'', ''-''} \<and> digits ds)"

definition json_number :: "bytes \<Rightarrow> bool" where
  "json_number s \<longleftrightarrow>
     (\<exists>sign i f e. s = sign @ i @ f @ e \<and> sign \<in> {'''', ''-''} \<and> integer_part i \<and> fraction f \<and> exponent e)"

definition json_literal :: "bytes \<Rightarrow> bool" where
  "json_literal s \<longleftrightarrow> s \<in> {''true'', ''false'', ''null''}"

definition quoted :: "bytes \<Rightarrow> bytes" where
  "quoted s = CHR 0x22 # s @ [CHR 0x22]"

inductive json_text :: "nat \<Rightarrow> bytes \<Rightarrow> bool"
  and json_elements :: "nat \<Rightarrow> bytes \<Rightarrow> bool"
  and json_members :: "nat \<Rightarrow> bytes \<Rightarrow> bool" where
  literal: "json_literal w \<Longrightarrow> json_text d w"
| number: "json_number w \<Longrightarrow> json_text d w"
| string_value: "string_body s \<Longrightarrow> json_text d (quoted s)"
| empty_array: "json_ws w \<Longrightarrow> json_text (Suc d) (CHR ''['' # w @ '']'')"
| array: "json_elements d w \<Longrightarrow> json_text (Suc d) (CHR ''['' # w @ '']'')"
| empty_object: "json_ws w \<Longrightarrow> json_text (Suc d) (CHR ''{'' # w @ ''}'')"
| object: "json_members d w \<Longrightarrow> json_text (Suc d) (CHR ''{'' # w @ ''}'')"
| one_element: "json_ws a \<Longrightarrow> json_text d v \<Longrightarrow> json_ws b \<Longrightarrow> json_elements d (a @ v @ b)"
| more_elements: "json_ws a \<Longrightarrow> json_text d v \<Longrightarrow> json_ws b \<Longrightarrow> json_elements d w \<Longrightarrow>
    json_elements d (a @ v @ b @ CHR '','' # w)"
| one_member: "json_ws a \<Longrightarrow> string_body k \<Longrightarrow> json_ws b \<Longrightarrow> json_ws a' \<Longrightarrow> json_text d v \<Longrightarrow> json_ws b' \<Longrightarrow>
    json_members d (a @ quoted k @ b @ CHR '':'' # a' @ v @ b')"
| more_members: "json_ws a \<Longrightarrow> string_body k \<Longrightarrow> json_ws b \<Longrightarrow> json_ws a' \<Longrightarrow> json_text d v \<Longrightarrow> json_ws b' \<Longrightarrow>
    json_members d w \<Longrightarrow> json_members d (a @ quoted k @ b @ CHR '':'' # a' @ v @ b' @ CHR '','' # w)"

lemma json_ws_Nil [simp]: "json_ws []"
  by (simp add: json_ws_def)

lemma string_body_append: "string_body a \<Longrightarrow> string_body (a @ b) = string_body b"
proof (induction a rule: string_body.induct)
  case (2 c s)
  show ?case
  proof (cases "c = CHR 0x5C")
    case False
    with 2 show ?thesis by simp
  next
    case True
    with 2(4) obtain e t where s: "s = e # t" by (cases s) auto
    show ?thesis
    proof (cases "e \<in> set (''bfnrt/'' @ [CHR 0x5C, CHR 0x22])")
      case esc: True
      with 2(4) True s have "string_body t" by (simp del: set_append set_simps append.simps)
      from 2(1) [OF True s esc this] True s esc show ?thesis by (simp del: set_append set_simps) 
    next
      case esc: False
      with 2(4) True s have u: "e = CHR ''u''" by (simp del: set_append set_simps append.simps split: if_splits)
      with 2(4) True s esc obtain h1 h2 h3 h4 r where r: "t = h1 # h2 # h3 # h4 # r" "json_hex h1" "json_hex h2" "json_hex h3" "json_hex h4"
        "string_body r" by (auto simp del: set_append set_simps append.simps split: list.splits)
      from 2(2) [OF True s esc u r(1) refl refl refl r(6)] show ?thesis using True s u r by simp
    qed
  qed
qed simp

section \<open>Scanning tokens\<close>

text \<open>A byte that cannot extend a number.\<close>

definition delimiter :: "char \<Rightarrow> bool" where
  "delimiter c \<longleftrightarrow> \<not> is_digit c \<and> c \<notin> set ''.eE''"

lemma json_space_facts [simp]:
  "json_space CHR '' ''" "\<not> json_space CHR 0x22" "\<not> json_space CHR ''{''" "\<not> json_space CHR ''}''" "\<not> json_space CHR ''[''"
  "\<not> json_space CHR '']''" "\<not> json_space CHR '',''" "\<not> json_space CHR '':''" "\<not> json_space CHR ''-''" "\<not> json_space CHR ''0''"
  "\<not> json_space CHR ''t''" "\<not> json_space CHR ''f''" "\<not> json_space CHR ''n''"
  by (simp_all add: json_space_def)

lemma digit_facts [simp]:
  "is_digit CHR ''0''" "\<not> is_digit CHR ''.''" "\<not> is_digit CHR ''e''" "\<not> is_digit CHR ''E''" "\<not> is_digit CHR ''+''" "\<not> is_digit CHR ''-''"
  "\<not> is_digit CHR '' ''" "\<not> is_digit CHR '',''" "\<not> is_digit CHR '']''" "\<not> is_digit CHR ''}''" "\<not> is_digit CHR '':''"
  by (simp_all add: is_digit_def)

lemma delimiters [simp]: "delimiter CHR '' ''" "delimiter CHR '',''" "delimiter CHR '']''" "delimiter CHR ''}''"
  by (simp_all add: delimiter_def)

lemma space_delimiter: "json_space c \<Longrightarrow> delimiter c"
  by (auto simp: json_space_def delimiter_def is_digit_def)

lemma digit_not: "is_digit c \<Longrightarrow> \<not> json_space c \<and> c \<notin> {CHR ''{'', CHR ''['', CHR 0x22, CHR ''-'', CHR ''t'', CHR ''f'', CHR ''n'', CHR '']''}"
  by (auto simp: is_digit_def json_space_def)

lemma digit_range: "is_digit c \<Longrightarrow> c \<noteq> CHR ''.'' \<and> c \<noteq> CHR ''e'' \<and> c \<noteq> CHR ''E'' \<and> c \<noteq> CHR ''+'' \<and> c \<noteq> CHR ''-''"
  by (auto simp: is_digit_def)

lemma read_loop:
  assumes "\<And>c. c \<in> set w \<Longrightarrow> scan_step st ps c = (Continue, st, ps)"
  shows "read_value st ps acc (w @ s) = read_value st ps (rev w @ acc) s"
  using assms by (induction w arbitrary: acc) auto

lemma read_space:
  assumes "json_ws w"
  shows "read_value BeginValue ps acc (w @ s) = read_value BeginValue ps (rev w @ acc) s"
    "read_value BeginValueOrEmpty ps acc (w @ s) = read_value BeginValueOrEmpty ps (rev w @ acc) s"
    "read_value BeginString ps acc (w @ s) = read_value BeginString ps (rev w @ acc) s"
    "read_value BeginStringOrEmpty ps acc (w @ s) = read_value BeginStringOrEmpty ps (rev w @ acc) s"
    "ps \<noteq> [] \<Longrightarrow> read_value EndValue ps acc (w @ s) = read_value EndValue ps (rev w @ acc) s"
  using assms by (intro read_loop; auto simp: json_ws_def list_all_iff begin_value_def begin_string_def end_value_def neq_Nil_conv)+

lemma read_string: "string_body w \<Longrightarrow> read_value InString ps acc (w @ s) = read_value InString ps (rev w @ acc) s"
proof (induction w arbitrary: acc rule: string_body.induct)
  case (2 c w)
  show ?case
  proof (cases "c = CHR 0x5C")
    case False
    with 2 show ?thesis by simp
  next
    case True
    with 2(4) obtain e t where w: "w = e # t" by (cases w) auto
    show ?thesis
    proof (cases "e \<in> set (''bfnrt/'' @ [CHR 0x5C, CHR 0x22])")
      case esc: True
      with 2(4) True w have "string_body t" by (simp del: set_append set_simps append.simps)
      from 2(1) [OF True w esc this] True w esc show ?thesis by (simp del: set_append set_simps append.simps) simp
    next
      case esc: False
      with 2(4) True w have u: "e = CHR ''u''" by (simp del: set_append set_simps append.simps split: if_splits)
      with 2(4) True w esc obtain h1 h2 h3 h4 r where r: "t = h1 # h2 # h3 # h4 # r" "json_hex h1" "json_hex h2" "json_hex h3" "json_hex h4"
        "string_body r" by (auto simp del: set_append set_simps append.simps split: list.splits)
      from 2(2) [OF True w esc u r(1) refl refl refl r(6)] show ?thesis using True w u r by (simp add: numeral_3_eq_3)
    qed
  qed
qed simp

text \<open>A scalar ends in a state in which a delimiter is read as after a value.\<close>

definition value_end :: "scan_state \<Rightarrow> bool" where
  "value_end st \<longleftrightarrow> st \<in> {EndValue, Digits0, Digits1, Dot0, Exp0}"

lemma value_end_step: "value_end st \<Longrightarrow> delimiter c \<Longrightarrow> scan_step st ps c = end_value ps c"
  by (auto simp: value_end_def delimiter_def after_integer_def)

lemma read_digits:
  assumes "list_all is_digit ds"
  shows "read_value Digits1 ps acc (ds @ s) = read_value Digits1 ps (rev ds @ acc) s"
    "read_value Dot0 ps acc (ds @ s) = read_value Dot0 ps (rev ds @ acc) s"
    "read_value Exp0 ps acc (ds @ s) = read_value Exp0 ps (rev ds @ acc) s"
  using assms by (intro read_loop; simp add: list_all_iff)+

lemma digits_cons: "digits ds \<Longrightarrow> \<exists>d r. ds = d # r \<and> is_digit d \<and> list_all is_digit r"
  by (cases ds) (auto simp: digits_def)

lemma begin_digit: "is_digit d \<Longrightarrow> d \<noteq> CHR ''0'' \<Longrightarrow> scan_step BeginValue ps d = (Continue, Digits1, ps)"
  using digit_not by (auto simp: begin_value_def)

lemma read_integer:
  assumes "integer_part i" and "st \<in> {BeginValue, Neg}"
  shows "\<exists>st' \<in> {Digits0, Digits1}. read_value st ps acc (i @ s) = read_value st' ps (rev i @ acc) s"
proof (cases "i = ''0''")
  case True
  then show ?thesis using assms(2) by (auto simp: begin_value_def)
next
  case False
  with assms(1) obtain d r where i: "i = d # r" "is_digit d" "list_all is_digit r" "d \<noteq> CHR ''0''"
    using digits_cons by (fastforce simp: integer_part_def)
  then have "scan_step st ps d = (Continue, Digits1, ps)" using assms(2) begin_digit by auto
  with i read_digits(1) [OF i(3)] show ?thesis by auto
qed

lemma read_fraction:
  assumes "fraction f" and "st \<in> {Digits0, Digits1}"
  shows "\<exists>st' \<in> {Digits0, Digits1, Dot0}. read_value st ps acc (f @ s) = read_value st' ps (rev f @ acc) s"
proof (cases "f = []")
  case False
  with assms(1) obtain d r where f: "f = CHR ''.'' # d # r" "is_digit d" "list_all is_digit r"
    using digits_cons by (fastforce simp: fraction_def)
  with assms(2) read_digits(2) [OF f(3)] show ?thesis by (auto simp: after_integer_def)
qed (use assms(2) in auto)

lemma read_exponent:
  assumes "exponent e" and "st \<in> {Digits0, Digits1, Dot0}"
  shows "\<exists>st'. value_end st' \<and> read_value st ps acc (e @ s) = read_value st' ps (rev e @ acc) s"
proof (cases "e = []")
  case False
  with assms(1) obtain m sign ds where e0: "e = m # sign @ ds" "m \<in> set ''eE''" "sign \<in> {'''', ''+'', ''-''}" "digits ds"
    unfolding exponent_def by blast
  from digits_cons [OF e0(4)] obtain d r where "ds = d # r" "is_digit d" "list_all is_digit r" by blast
  with e0 have e: "e = m # sign @ d # r" "m \<in> set ''eE''" "sign \<in> {'''', ''+'', ''-''}" "is_digit d" "list_all is_digit r"
    by simp_all
  have m: "scan_step st ps m = (Continue, Exp, ps)" using e(2) assms(2) by (auto simp: after_integer_def)
  have "read_value Exp ps acc' (sign @ d # r @ s) = read_value Exp0 ps (rev (sign @ d # r) @ acc') s" for acc'
  proof -
    note r = read_digits(3) [OF e(5)]
    consider "sign = ''''" | "sign = ''+''" | "sign = ''-''" using e(3) by blast
    then show ?thesis
      by cases (use digit_range [OF e(4)] e(4) in \<open>simp_all add: exp_sign_def r\<close>)
  qed
  with m e(1) show ?thesis by (intro exI [of _ Exp0]) (simp add: value_end_def)
qed (use assms(2) in \<open>auto simp: value_end_def\<close>)

lemma read_number:
  assumes "json_number w"
  shows "\<exists>st. value_end st \<and> read_value BeginValue ps acc (w @ s) = read_value st ps (rev w @ acc) s"
proof -
  from assms obtain sign i f e where w: "w = sign @ i @ f @ e" "sign \<in> {'''', ''-''}" "integer_part i" "fraction f" "exponent e"
    by (auto simp: json_number_def)
  define st0 where "st0 = (if sign = '''' then BeginValue else Neg)"
  have "read_value BeginValue ps acc (sign @ i @ f @ e @ s) = read_value st0 ps (rev sign @ acc) (i @ f @ e @ s)"
    using w(2) by (auto simp: st0_def begin_value_def)
  moreover have "st0 \<in> {BeginValue, Neg}" by (simp add: st0_def)
  moreover obtain st1 where "st1 \<in> {Digits0, Digits1}"
    "read_value st0 ps (rev sign @ acc) (i @ f @ e @ s) = read_value st1 ps (rev i @ rev sign @ acc) (f @ e @ s)"
    using read_integer [OF w(3) calculation(2), of ps "rev sign @ acc" "f @ e @ s"] by blast
  moreover from this(1) obtain st2 where "st2 \<in> {Digits0, Digits1, Dot0}"
    "read_value st1 ps (rev i @ rev sign @ acc) (f @ e @ s) = read_value st2 ps (rev f @ rev i @ rev sign @ acc) (e @ s)"
    using read_fraction [OF w(4)] by blast
  moreover from this(1) obtain st3 where "value_end st3"
    "read_value st2 ps (rev f @ rev i @ rev sign @ acc) (e @ s) = read_value st3 ps (rev e @ rev f @ rev i @ rev sign @ acc) s"
    using read_exponent [OF w(5)] by blast
  ultimately show ?thesis using w(1) by (intro exI [of _ st3]) simp
qed

lemma read_literal:
  "json_literal w \<Longrightarrow> read_value BeginValue ps acc (w @ s) = read_value EndValue ps (rev w @ acc) s"
  by (auto simp: json_literal_def begin_value_def)

lemma read_quoted:
  assumes "string_body w"
  shows "read_value BeginValue ps acc (quoted w @ s) = read_value EndValue ps (rev (quoted w) @ acc) s"
    "read_value BeginString ps acc (quoted w @ s) = read_value EndValue ps (rev (quoted w) @ acc) s"
    "read_value BeginStringOrEmpty ps acc (quoted w @ s) = read_value EndValue ps (rev (quoted w) @ acc) s"
  using read_string [OF assms, of ps _ "CHR 0x22 # s"] by (simp_all add: quoted_def begin_value_def begin_string_def)

section \<open>Scanning values\<close>

text \<open>After the byte that closes a container: the value is found, or the container around it goes on.\<close>

definition close_at :: "container list \<Rightarrow> bytes \<Rightarrow> bytes \<Rightarrow> read_result" where
  "close_at ps acc s = (if ps = [] then Found (rev acc) s else read_value EndValue ps acc s)"

definition reads_text :: "nat \<Rightarrow> bytes \<Rightarrow> bool" where
  "reads_text d w \<longleftrightarrow>
     (\<forall>ps acc s. length ps + d \<le> max_nesting \<longrightarrow>
        read_value BeginValue ps acc (w @ s) = close_at ps (rev w @ acc) s \<or>
        (\<exists>st. value_end st \<and> read_value BeginValue ps acc (w @ s) = read_value st ps (rev w @ acc) s))"

definition reads_elements :: "nat \<Rightarrow> bytes \<Rightarrow> bool" where
  "reads_elements d w \<longleftrightarrow>
     (\<forall>ps acc s. length (ArrayValue # ps) + d \<le> max_nesting \<longrightarrow>
        read_value BeginValue (ArrayValue # ps) acc (w @ CHR '']'' # s) =
        read_value EndValue (ArrayValue # ps) (rev w @ acc) (CHR '']'' # s))"

definition reads_members :: "nat \<Rightarrow> bytes \<Rightarrow> bool" where
  "reads_members d w \<longleftrightarrow>
     (\<forall>ps acc s. length (ObjectKey # ps) + d \<le> max_nesting \<longrightarrow>
        read_value BeginString (ObjectKey # ps) acc (w @ CHR ''}'' # s) =
        read_value EndValue (ObjectValue # ps) (rev w @ acc) (CHR ''}'' # s))"

lemma read_inner:
  assumes "reads_text d w" "length ps + d \<le> max_nesting" "ps \<noteq> []" "delimiter c"
  shows "read_value BeginValue ps acc (w @ c # s) = read_value EndValue ps (rev w @ acc) (c # s)"
proof -
  have "read_value st ps (rev w @ acc) (c # s) = read_value EndValue ps (rev w @ acc) (c # s)" if "value_end st" for st
    using value_end_step [OF that assms(4)] by simp
  then show ?thesis using assms(1,2,3) unfolding reads_text_def close_at_def by metis
qed

lemma read_padded:
  assumes "json_ws a" "reads_text d v" "json_ws b" "length ps + d \<le> max_nesting" "ps \<noteq> []" "delimiter c"
  shows "read_value BeginValue ps acc (a @ v @ b @ c # s) = read_value EndValue ps (rev (a @ v @ b) @ acc) (c # s)"
proof -
  have "read_value BeginValue ps acc' (v @ b @ c # s) = read_value EndValue ps (rev v @ acc') (b @ c # s)" for acc'
  proof (cases b)
    case (Cons e t)
    then have "delimiter e" using assms(3) space_delimiter by (simp add: json_ws_def)
    from read_inner [OF assms(2,4,5) this] Cons show ?thesis by simp
  qed (use read_inner [OF assms(2,4,5,6)] in simp)
  then show ?thesis using read_space(1) [OF assms(1)] read_space(5) [OF assms(3,5)] by simp
qed

text \<open>The head of a value, of a list of elements and of a list of members.\<close>

lemma number_head: "json_number w \<Longrightarrow> \<exists>c t. w = c # t \<and> \<not> json_space c \<and> c \<noteq> CHR '']''"
proof -
  assume "json_number w"
  then obtain sign i f e where w: "w = sign @ i @ f @ e" "sign \<in> {'''', ''-''}" "integer_part i" unfolding json_number_def by blast
  have "\<exists>c t. i = c # t \<and> is_digit c"
  proof (cases "i = ''0''")
    case False
    with w(3) have "digits i" by (simp add: integer_part_def)
    from digits_cons [OF this] show ?thesis by blast
  qed simp
  then obtain c t where i: "i = c # t" "is_digit c" by blast
  show ?thesis
  proof (cases "sign = ''''")
    case True
    with w i digit_not [OF i(2)] show ?thesis by simp
  next
    case False
    with w have "w = CHR ''-'' # i @ f @ e" by simp
    then show ?thesis by simp
  qed
qed

lemma text_head: "json_text d w \<Longrightarrow> \<exists>c t. w = c # t \<and> \<not> json_space c \<and> c \<noteq> CHR '']''"
proof (erule json_text.cases)
  fix v assume "w = v" "json_literal v"
  then consider "w = ''true''" | "w = ''false''" | "w = ''null''" unfolding json_literal_def by blast
  then show ?thesis by cases simp_all
next
  fix v assume "w = v" "json_number v"
  then show ?thesis using number_head by blast
qed (simp_all add: quoted_def)

lemma padded_head:
  assumes "json_ws a" "json_text d v"
  shows "\<exists>a' c t. a @ v @ r = a' @ c # t \<and> json_ws a' \<and> \<not> json_space c \<and> c \<noteq> CHR '']''"
proof -
  from text_head [OF assms(2)] obtain c t where "v = c # t" "\<not> json_space c" "c \<noteq> CHR '']''" by blast
  with assms(1) show ?thesis by (intro exI [of _ a] exI [of _ c] exI [of _ "t @ r"]) simp
qed

lemma elements_head: "json_elements d w \<Longrightarrow> \<exists>a c t. w = a @ c # t \<and> json_ws a \<and> \<not> json_space c \<and> c \<noteq> CHR '']''"
proof (erule json_elements.cases)
  fix a d' v b assume "w = a @ v @ b" "json_ws a" "json_text d' v"
  then show ?thesis using padded_head by blast
next
  fix a d' v b w' assume "w = a @ v @ b @ CHR '','' # w'" "json_ws a" "json_text d' v"
  then show ?thesis using padded_head by blast
qed

lemma members_head: "json_members d w \<Longrightarrow> \<exists>a t. w = a @ CHR 0x22 # t \<and> json_ws a"
proof (erule json_members.cases)
  fix a k b a' d' v b' assume "w = a @ quoted k @ b @ CHR '':'' # a' @ v @ b'" "json_ws a"
  then show ?thesis by (auto simp: quoted_def)
next
  fix a k b a' d' v b' w' assume "w = a @ quoted k @ b @ CHR '':'' # a' @ v @ b' @ CHR '','' # w'" "json_ws a"
  then show ?thesis by (auto simp: quoted_def)
qed

lemma read_elements_start:
  assumes "json_elements d w"
  shows "read_value BeginValueOrEmpty ps acc (w @ s) = read_value BeginValue ps acc (w @ s)"
proof -
  from elements_head [OF assms] obtain a c t where w: "w = a @ c # t" "json_ws a" "\<not> json_space c" "c \<noteq> CHR '']''" by blast
  have "read_value BeginValueOrEmpty ps acc' (c # t @ s) = read_value BeginValue ps acc' (c # t @ s)" for acc'
    using w(3,4) by simp
  with w read_space(1,2) [OF w(2)] show ?thesis by simp
qed

lemma read_members_start:
  assumes "json_members d w"
  shows "read_value BeginStringOrEmpty ps acc (w @ s) = read_value BeginString ps acc (w @ s)"
proof -
  from members_head [OF assms] obtain a t where w: "w = a @ CHR 0x22 # t" "json_ws a" by blast
  have "read_value BeginStringOrEmpty ps acc' (CHR 0x22 # t @ s) = read_value BeginString ps acc' (CHR 0x22 # t @ s)" for acc'
    by simp
  with w read_space(3,4) [OF w(2)] show ?thesis by simp
qed

lemma reads_textI:
  assumes "\<And>ps acc s. length ps + d \<le> max_nesting \<Longrightarrow>
      read_value BeginValue ps acc (w @ s) = close_at ps (rev w @ acc) s \<or>
      (\<exists>st. value_end st \<and> read_value BeginValue ps acc (w @ s) = read_value st ps (rev w @ acc) s)"
  shows "reads_text d w"
  using assms unfolding reads_text_def by blast

lemma close_array:
  "read_value EndValue (ArrayValue # ps) acc (CHR '']'' # s) = close_at ps (CHR '']'' # acc) s"
  "read_value BeginValueOrEmpty (ArrayValue # ps) acc (CHR '']'' # s) = close_at ps (CHR '']'' # acc) s"
  by (simp_all add: end_value_def pop_def close_at_def)

lemma close_object:
  "read_value EndValue (ObjectValue # ps) acc (CHR ''}'' # s) = close_at ps (CHR ''}'' # acc) s"
  "read_value BeginStringOrEmpty (ObjectKey # ps) acc (CHR ''}'' # s) = close_at ps (CHR ''}'' # acc) s"
  by (simp_all add: end_value_def pop_def close_at_def)

lemma open_container:
  assumes "length ps + Suc d \<le> max_nesting"
  shows "read_value BeginValue ps acc (CHR ''['' # s) = read_value BeginValueOrEmpty (ArrayValue # ps) (CHR ''['' # acc) s"
    "read_value BeginValue ps acc (CHR ''{'' # s) = read_value BeginStringOrEmpty (ObjectKey # ps) (CHR ''{'' # acc) s"
  using assms by (simp_all add: begin_value_def push_def)

lemma read_member:
  assumes "json_ws a" "string_body k" "json_ws b" "json_ws a'" "reads_text d v" "json_ws b'"
    and "length (ObjectKey # ps) + d \<le> max_nesting" "delimiter c"
  shows "read_value BeginString (ObjectKey # ps) acc (a @ quoted k @ b @ CHR '':'' # a' @ v @ b' @ c # s) =
    read_value EndValue (ObjectValue # ps) (rev (a @ quoted k @ b @ CHR '':'' # a' @ v @ b') @ acc) (c # s)"
proof -
  have "read_value BeginString (ObjectKey # ps) acc (a @ quoted k @ b @ CHR '':'' # a' @ v @ b' @ c # s) =
      read_value EndValue (ObjectKey # ps) (rev b @ rev (quoted k) @ rev a @ acc) (CHR '':'' # a' @ v @ b' @ c # s)"
    using read_space(3) [OF assms(1)] read_quoted(2) [OF assms(2)] read_space(5) [OF assms(3)] by simp
  also have "\<dots> = read_value BeginValue (ObjectValue # ps) (CHR '':'' # rev b @ rev (quoted k) @ rev a @ acc) (a' @ v @ b' @ c # s)"
    by (simp add: end_value_def)
  also have "\<dots> = read_value EndValue (ObjectValue # ps)
      (rev (a' @ v @ b') @ CHR '':'' # rev b @ rev (quoted k) @ rev a @ acc) (c # s)"
    by (rule read_padded [OF assms(4,5,6)]) (use assms(7,8) in simp_all)
  finally show ?thesis by simp
qed

lemma reads_array:
  assumes "json_elements d w" "reads_elements d w"
  shows "reads_text (Suc d) (CHR ''['' # w @ '']'')"
proof (rule reads_textI)
  fix ps :: "container list" and acc s assume l: "length ps + Suc d \<le> max_nesting"
  have "read_value BeginValue ps acc ((CHR ''['' # w @ '']'') @ s) =
      read_value BeginValueOrEmpty (ArrayValue # ps) (CHR ''['' # acc) (w @ CHR '']'' # s)"
    using open_container(1) [OF l] by simp
  also have "\<dots> = read_value EndValue (ArrayValue # ps) (rev w @ CHR ''['' # acc) (CHR '']'' # s)"
    using read_elements_start [OF assms(1)] assms(2) l unfolding reads_elements_def by simp
  finally show "read_value BeginValue ps acc ((CHR ''['' # w @ '']'') @ s) = close_at ps (rev (CHR ''['' # w @ '']'') @ acc) s \<or>
    (\<exists>st. value_end st \<and> read_value BeginValue ps acc ((CHR ''['' # w @ '']'') @ s) = read_value st ps (rev (CHR ''['' # w @ '']'') @ acc) s)"
    using close_array(1) by simp
qed

lemma reads_object:
  assumes "json_members d w" "reads_members d w"
  shows "reads_text (Suc d) (CHR ''{'' # w @ ''}'')"
proof (rule reads_textI)
  fix ps :: "container list" and acc s assume l: "length ps + Suc d \<le> max_nesting"
  have "read_value BeginValue ps acc ((CHR ''{'' # w @ ''}'') @ s) =
      read_value BeginStringOrEmpty (ObjectKey # ps) (CHR ''{'' # acc) (w @ CHR ''}'' # s)"
    using open_container(2) [OF l] by simp
  also have "\<dots> = read_value EndValue (ObjectValue # ps) (rev w @ CHR ''{'' # acc) (CHR ''}'' # s)"
    using read_members_start [OF assms(1)] assms(2) l unfolding reads_members_def by simp
  finally show "read_value BeginValue ps acc ((CHR ''{'' # w @ ''}'') @ s) = close_at ps (rev (CHR ''{'' # w @ ''}'') @ acc) s \<or>
    (\<exists>st. value_end st \<and> read_value BeginValue ps acc ((CHR ''{'' # w @ ''}'') @ s) = read_value st ps (rev (CHR ''{'' # w @ ''}'') @ acc) s)"
    using close_object(1) by simp
qed

lemma reads_more_elements:
  assumes "json_ws a" "reads_text d v" "json_ws b" "reads_elements d w"
  shows "reads_elements d (a @ v @ b @ CHR '','' # w)"
  unfolding reads_elements_def
proof (intro allI impI)
  fix ps :: "container list" and acc s assume l: "length (ArrayValue # ps) + d \<le> max_nesting"
  have "read_value BeginValue (ArrayValue # ps) acc ((a @ v @ b @ CHR '','' # w) @ CHR '']'' # s) =
      read_value EndValue (ArrayValue # ps) (rev (a @ v @ b) @ acc) (CHR '','' # w @ CHR '']'' # s)"
    using read_padded [OF assms(1,2,3) l, of "CHR '',''"] by simp
  also have "\<dots> = read_value BeginValue (ArrayValue # ps) (CHR '','' # rev (a @ v @ b) @ acc) (w @ CHR '']'' # s)"
    by (simp add: end_value_def)
  finally show "read_value BeginValue (ArrayValue # ps) acc ((a @ v @ b @ CHR '','' # w) @ CHR '']'' # s) =
      read_value EndValue (ArrayValue # ps) (rev (a @ v @ b @ CHR '','' # w) @ acc) (CHR '']'' # s)"
    using assms(4) l unfolding reads_elements_def by simp
qed

lemma reads_more_members:
  assumes "json_ws a" "string_body k" "json_ws b" "json_ws a'" "reads_text d v" "json_ws b'" "reads_members d w"
  shows "reads_members d (a @ quoted k @ b @ CHR '':'' # a' @ v @ b' @ CHR '','' # w)"
  unfolding reads_members_def
proof (intro allI impI)
  fix ps :: "container list" and acc s assume l: "length (ObjectKey # ps) + d \<le> max_nesting"
  let ?m = "a @ quoted k @ b @ CHR '':'' # a' @ v @ b'"
  have "read_value BeginString (ObjectKey # ps) acc ((a @ quoted k @ b @ CHR '':'' # a' @ v @ b' @ CHR '','' # w) @ CHR ''}'' # s) =
      read_value EndValue (ObjectValue # ps) (rev ?m @ acc) (CHR '','' # w @ CHR ''}'' # s)"
    using read_member [OF assms(1,2,3,4,5,6) l, of "CHR '',''"] by simp
  also have "\<dots> = read_value BeginString (ObjectKey # ps) (CHR '','' # rev ?m @ acc) (w @ CHR ''}'' # s)"
    by (simp add: end_value_def)
  finally show "read_value BeginString (ObjectKey # ps) acc ((a @ quoted k @ b @ CHR '':'' # a' @ v @ b' @ CHR '','' # w) @ CHR ''}'' # s) =
      read_value EndValue (ObjectValue # ps) (rev (a @ quoted k @ b @ CHR '':'' # a' @ v @ b' @ CHR '','' # w) @ acc) (CHR ''}'' # s)"
    using assms(7) l unfolding reads_members_def by simp
qed

lemma grammar_reads:
  "json_text d w \<Longrightarrow> reads_text d w"
  "json_elements d w \<Longrightarrow> reads_elements d w"
  "json_members d w \<Longrightarrow> reads_members d w"
proof (induction rule: json_text_json_elements_json_members.inducts)
  case (literal w d)
  have "value_end EndValue" by (simp add: value_end_def)
  then show ?case using read_literal [OF literal] by (intro reads_textI) blast
next
  case (number w d)
  then show ?case using read_number [OF number] by (intro reads_textI) blast
next
  case (string_value s d)
  have "value_end EndValue" by (simp add: value_end_def)
  then show ?case using read_quoted(1) [OF string_value] by (intro reads_textI) blast
next
  case (empty_array w d)
  show ?case
    by (rule reads_textI) (simp add: open_container read_space(2) [OF empty_array] close_array del: read_value.simps)
next
  case (array d w)
  then show ?case using reads_array by blast
next
  case (empty_object w d)
  show ?case
    by (rule reads_textI) (simp add: open_container read_space(4) [OF empty_object] close_object del: read_value.simps)
next
  case (object d w)
  then show ?case using reads_object by blast
next
  case (one_element a d v b)
  show ?case unfolding reads_elements_def
    using read_padded [OF one_element(1,4,3)] by simp
next
  case (more_elements a d v b w)
  then show ?case using reads_more_elements by blast
next
  case (one_member a k b a' d v b')
  show ?case unfolding reads_members_def
    using read_member [OF one_member(1,2,3,4,7,6)] by simp
next
  case (more_members a k b a' d v b' w)
  then show ?case using reads_more_members by blast
qed

section \<open>Decoding one value\<close>

lemma digits_last: "digits ds \<Longrightarrow> \<not> json_space (last ds)"
  using digit_not by (auto simp: digits_def list_all_iff)

lemma number_last: "json_number w \<Longrightarrow> w \<noteq> [] \<and> \<not> json_space (last w)"
proof -
  assume "json_number w"
  then obtain sign i f e where w: "w = sign @ i @ f @ e" "integer_part i" "fraction f" "exponent e" unfolding json_number_def by blast
  have i: "i \<noteq> []" "\<not> json_space (last i)"
    using w(2) digits_last unfolding integer_part_def by (auto simp: digits_def)
  have f: "f = [] \<or> \<not> json_space (last f)"
    using w(3) digits_last unfolding fraction_def by (auto simp: digits_def)
  have e: "e = [] \<or> \<not> json_space (last e)"
  proof (cases "e = []")
    case False
    with w(4) obtain m sign' ds where "e = m # sign' @ ds" "digits ds" unfolding exponent_def by blast
    then show ?thesis using digits_last [of ds] by (simp add: digits_def)
  qed simp
  show ?thesis using w(1) i f e by (auto simp: last_append)
qed

lemma text_last: "json_text d w \<Longrightarrow> w \<noteq> [] \<and> \<not> json_space (last w)"
proof (erule json_text.cases)
  fix v assume "w = v" "json_literal v"
  then consider "w = ''true''" | "w = ''false''" | "w = ''null''" unfolding json_literal_def by blast
  then show ?thesis by cases (simp_all add: json_space_def)
next
  fix v assume "w = v" "json_number v"
  then show ?thesis using number_last by blast
qed (simp_all add: quoted_def)

lemma trim_text:
  assumes "json_ws a" "json_text d w"
  shows "trim_json (a @ w) = w"
proof -
  from text_head [OF assms(2)] obtain c t where c: "w = c # t" "\<not> json_space c" by blast
  have "dropWhile json_space (a @ w) = w"
    using assms(1) c by (simp add: json_ws_def list_all_iff dropWhile_append2)
  moreover from text_last [OF assms(2)] have "dropWhile json_space (rev w) = rev w"
    by (cases w rule: rev_cases) simp_all
  ultimately show ?thesis by (simp add: trim_json_def)
qed

text \<open>
  A text of the grammar, with space before it and followed by the end of the input or by a byte that
  cannot extend a number, is found exactly.
\<close>

lemma Decode_text:
  assumes "json_text d w" "d \<le> max_nesting" "json_ws a" "s = [] \<or> delimiter (hd s)" "s = [] \<longrightarrow> stream_end = None"
  shows "Decode_raw stream_end (a @ w @ s) = Value w s"
proof -
  note r = grammar_reads(1) [OF assms(1), unfolded reads_text_def, rule_format, of "[]" "rev a @ []" s]
  have start: "read_value BeginValue [] [] (a @ w @ s) = read_value BeginValue [] (rev a) (w @ s)"
    using read_space(1) [OF assms(3)] by simp
  from r assms(2) consider "read_value BeginValue [] (rev a) (w @ s) = Found (a @ w) s"
    | st where "value_end st" "read_value BeginValue [] (rev a) (w @ s) = read_value st [] (rev w @ rev a) s"
    by (auto simp: close_at_def)
  then show ?thesis
  proof cases
    case 1
    then show ?thesis using start trim_text [OF assms(3,1)] by (simp add: Decode_raw_def)
  next
    case (2 st)
    have e: "scan_step st [] c = (ScanEnd, EndTop, [])" if "delimiter c" for c
      using value_end_step [OF 2(1) that] by (simp add: end_value_def)
    show ?thesis
    proof (cases s)
      case Nil
      then show ?thesis using start 2(2) e trim_text [OF assms(3,1)] assms(5) by (simp add: Decode_raw_def)
    next
      case (Cons c t)
      then have "delimiter c" using assms(4) by simp
      with Cons show ?thesis using start 2(2) e trim_text [OF assms(3,1)] by (simp add: Decode_raw_def)
    qed
  qed
qed

lemma Decode_blank: "json_ws b \<Longrightarrow> Decode_raw None b = AtEOF"
  using read_space(1) [of b "[]" "[]" "[]"] by (simp add: Decode_raw_def begin_value_def json_ws_def)

end
