(* ===== verification/Json_Sound.thy ===== *)
theory Json_Sound
  imports Json_Grammar
begin

text \<open>
  The other direction of \<^verbatim>\<open>Json_Grammar\<close>: whatever the scanner finds is a text of the grammar, nested no
  deeper than its limit. The invariant of the loop says what the bytes read so far are: the frames of the
  open containers from the outside in, and the part of a token that has been read.
\<close>

section \<open>Extending texts on the right\<close>

lemma json_ws_append [simp]: "json_ws (a @ b) \<longleftrightarrow> json_ws a \<and> json_ws b" "json_ws [c] \<longleftrightarrow> json_space c"
  by (auto simp: json_ws_def)

lemma json_ws_Cons [simp]: "json_ws (c # a) \<longleftrightarrow> json_space c \<and> json_ws a"
  by (simp add: json_ws_def)

lemma snoc_text:
  "json_text d v0 \<Longrightarrow> True"
  "json_elements d w \<Longrightarrow> json_ws a \<Longrightarrow> json_text d v \<Longrightarrow> json_elements d (w @ CHR '','' # a @ v)"
  "json_members d w \<Longrightarrow> json_ws a \<Longrightarrow> string_body k \<Longrightarrow> json_ws b \<Longrightarrow> json_ws a' \<Longrightarrow> json_text d v \<Longrightarrow>
    json_members d (w @ CHR '','' # a @ quoted k @ b @ CHR '':'' # a' @ v)"
proof (induction rule: json_text_json_elements_json_members.inducts)
  case (one_element a1 d v1 b1)
  then have "json_elements d (a @ v @ [])" by (intro json_text_json_elements_json_members.one_element) simp_all
  with one_element show ?case using more_elements [of a1 d v1 b1 "a @ v"] by simp
next
  case (more_elements a1 d v1 b1 w)
  then show ?case using json_text_json_elements_json_members.more_elements [of a1 d v1 b1 "w @ CHR '','' # a @ v"] by simp
next
  case (one_member a1 k1 b1 a1' d v1 b1')
  then have "json_members d (a @ quoted k @ b @ CHR '':'' # a' @ v @ [])"
    by (intro json_text_json_elements_json_members.one_member) simp_all
  with one_member show ?case
    using more_members [of a1 k1 b1 a1' d v1 b1' "a @ quoted k @ b @ CHR '':'' # a' @ v"] by simp
next
  case (more_members a1 k1 b1 a1' d v1 b1' w)
  then show ?case
    using json_text_json_elements_json_members.more_members
      [of a1 k1 b1 a1' d v1 b1' "w @ CHR '','' # a @ quoted k @ b @ CHR '':'' # a' @ v"] by simp
qed simp_all

lemmas elements_snoc = snoc_text(2) and members_snoc = snoc_text(3)

lemma space_text:
  "json_text d v0 \<Longrightarrow> True"
  "json_elements d w \<Longrightarrow> json_space c \<Longrightarrow> json_elements d (w @ [c])"
  "json_members d w \<Longrightarrow> json_space c \<Longrightarrow> json_members d (w @ [c])"
proof (induction rule: json_text_json_elements_json_members.inducts)
  case (one_element a d v b)
  then show ?case using json_text_json_elements_json_members.one_element [of a d v "b @ [c]"] by simp
next
  case (more_elements a d v b w)
  then show ?case using json_text_json_elements_json_members.more_elements [of a d v b "w @ [c]"] by simp
next
  case (one_member a k b a' d v b')
  then show ?case using json_text_json_elements_json_members.one_member [of a k b a' d v "b' @ [c]"] by simp
next
  case (more_members a k b a' d v b' w)
  then show ?case using json_text_json_elements_json_members.more_members [of a k b a' d v b' "w @ [c]"] by simp
qed simp_all

section \<open>Frames\<close>

text \<open>The nesting that is left inside the open containers.\<close>

definition room :: "container list \<Rightarrow> nat" where
  "room ps = max_nesting - length ps"

text \<open>
  The text of an array before its next value, of an object before its next key, of an object after a
  key, and of an object before the value of a key; \<open>d\<close> is the nesting left inside.
\<close>

definition array_open :: "nat \<Rightarrow> bytes \<Rightarrow> bool" where
  "array_open d t \<longleftrightarrow> (\<exists>a. json_ws a \<and> (t = CHR ''['' # a \<or> (\<exists>w. json_elements d w \<and> t = CHR ''['' # w @ CHR '','' # a)))"

definition object_open :: "nat \<Rightarrow> bytes \<Rightarrow> bool" where
  "object_open d t \<longleftrightarrow> (\<exists>a. json_ws a \<and> (t = CHR ''{'' # a \<or> (\<exists>w. json_members d w \<and> t = CHR ''{'' # w @ CHR '','' # a)))"

definition key_read :: "nat \<Rightarrow> bytes \<Rightarrow> bool" where
  "key_read d t \<longleftrightarrow> (\<exists>p k b. object_open d p \<and> string_body k \<and> json_ws b \<and> t = p @ quoted k @ b)"

definition value_open :: "nat \<Rightarrow> bytes \<Rightarrow> bool" where
  "value_open d t \<longleftrightarrow> (\<exists>p a. key_read d p \<and> json_ws a \<and> t = p @ CHR '':'' # a)"

fun waiting :: "container \<Rightarrow> nat \<Rightarrow> bytes \<Rightarrow> bool" where
  "waiting ArrayValue d t = array_open d t"
| "waiting ObjectValue d t = value_open d t"
| "waiting ObjectKey d t = False"

fun filled :: "container \<Rightarrow> nat \<Rightarrow> bytes \<Rightarrow> bool" where
  "filled ArrayValue d t = (\<exists>w. json_elements d w \<and> t = CHR ''['' # w)"
| "filled ObjectValue d t = (\<exists>w. json_members d w \<and> t = CHR ''{'' # w)"
| "filled ObjectKey d t = key_read d t"

lemma array_open_space: "json_space c \<Longrightarrow> array_open d t \<Longrightarrow> array_open d (t @ [c])"
  unfolding array_open_def by (elim exE, rule_tac x = "a @ [c]" in exI) auto

lemma object_open_space: "json_space c \<Longrightarrow> object_open d t \<Longrightarrow> object_open d (t @ [c])"
  unfolding object_open_def by (elim exE, rule_tac x = "a @ [c]" in exI) auto

lemma key_read_space: "json_space c \<Longrightarrow> key_read d t \<Longrightarrow> key_read d (t @ [c])"
  unfolding key_read_def by (elim exE, rule_tac x = p in exI, rule_tac x = k in exI, rule_tac x = "b @ [c]" in exI) auto

lemma value_open_space: "json_space c \<Longrightarrow> value_open d t \<Longrightarrow> value_open d (t @ [c])"
  unfolding value_open_def by (elim exE, rule_tac x = p in exI, rule_tac x = "a @ [c]" in exI) auto

lemmas open_space = array_open_space object_open_space key_read_space value_open_space

lemma waiting_space: "json_space c \<Longrightarrow> waiting k d t \<Longrightarrow> waiting k d (t @ [c])"
  by (cases k) (simp_all add: open_space)

lemma filled_space: "json_space c \<Longrightarrow> filled k d t \<Longrightarrow> filled k d (t @ [c])"
  by (cases k) (auto simp: open_space space_text)

lemma array_value: "array_open d t \<Longrightarrow> json_text d v \<Longrightarrow> filled ArrayValue d (t @ v)"
  using one_element [of _ d v "[]"] elements_snoc [of d _ _ v] by (auto simp: array_open_def)

lemma object_value:
  assumes "value_open d t" "json_text d v" shows "filled ObjectValue d (t @ v)"
proof -
  from assms(1) obtain a0 a k b a' where k: "json_ws a" "string_body k" "json_ws b" "json_ws a'"
    and t: "t = a0 @ a @ quoted k @ b @ CHR '':'' # a'" and o: "a0 = ''{'' \<or> (\<exists>w. json_members d w \<and> a0 = CHR ''{'' # w @ '','')"
    unfolding value_open_def key_read_def object_open_def
    by (clarsimp, elim disjE, force, clarsimp, metis append.assoc append_Cons append_Nil)
  from o show ?thesis
  proof (elim disjE exE conjE)
    assume "a0 = ''{''"
    with t one_member [OF k assms(2), of "[]"] show ?thesis by simp
  next
    fix w assume "json_members d w" "a0 = CHR ''{'' # w @ '',''"
    with t members_snoc [OF this(1) k assms(2)] show ?thesis by simp
  qed
qed

lemma waiting_value: "waiting k d t \<Longrightarrow> json_text d v \<Longrightarrow> filled k d (t @ v)"
  by (cases k) (simp_all add: array_value object_value del: filled.simps)

text \<open>The bytes before a value inside open containers, the innermost one first, and the bytes up to the end of one.\<close>

fun before_value :: "container list \<Rightarrow> bytes \<Rightarrow> bool" where
  "before_value [] p = json_ws p"
| "before_value (k # ps) p = (\<exists>q t. before_value ps q \<and> waiting k (room (k # ps)) t \<and> p = q @ t)"

fun after_value :: "container list \<Rightarrow> bytes \<Rightarrow> bool" where
  "after_value [] p = (\<exists>a v. json_ws a \<and> json_text max_nesting v \<and> p = a @ v)"
| "after_value (k # ps) p = (\<exists>q t. before_value ps q \<and> filled k (room (k # ps)) t \<and> p = q @ t)"

definition before_key :: "container list \<Rightarrow> bytes \<Rightarrow> bool" where
  "before_key ps p \<longleftrightarrow> (\<exists>rest q t. ps = ObjectKey # rest \<and> before_value rest q \<and> object_open (room ps) t \<and> p = q @ t)"

lemma before_value_space: "json_space c \<Longrightarrow> before_value ps p \<Longrightarrow> before_value ps (p @ [c])"
  by (cases ps) (auto, metis append.assoc waiting_space)

lemma after_value_space: "json_space c \<Longrightarrow> ps \<noteq> [] \<Longrightarrow> after_value ps p \<Longrightarrow> after_value ps (p @ [c])"
  by (cases ps) (auto, metis append.assoc filled_space)

lemma before_key_space: "json_space c \<Longrightarrow> before_key ps p \<Longrightarrow> before_key ps (p @ [c])"
  unfolding before_key_def by (metis append.assoc object_open_space)

lemma value_read: "before_value ps p \<Longrightarrow> json_text (room ps) v \<Longrightarrow> after_value ps (p @ v)"
proof (cases ps)
  case (Cons k rest)
  assume "before_value ps p" and v: "json_text (room ps) v"
  with Cons obtain q t where "before_value rest q" "waiting k (room ps) t" "p = q @ t" by auto
  with v Cons show ?thesis
    by (simp del: filled.simps) (rule exI [of _ q], simp add: waiting_value del: filled.simps)
qed (auto simp: room_def)

lemma key_finished: "before_key ps p \<Longrightarrow> string_body k \<Longrightarrow> after_value ps (p @ quoted k)"
proof -
  assume "before_key ps p" "string_body k"
  then obtain rest q t where ps: "ps = ObjectKey # rest" "before_value rest q" "object_open (room ps) t" "p = q @ t"
    unfolding before_key_def by blast
  then have "key_read (room ps) (t @ quoted k)"
    unfolding key_read_def using \<open>string_body k\<close> by (intro exI [of _ t] exI [of _ k] exI [of _ "[]"]) simp
  with ps show ?thesis by simp (rule exI [of _ q], simp)
qed

section \<open>One step\<close>

text \<open>A signed integer part, and one with a fraction.\<close>

definition signed_integer :: "bytes \<Rightarrow> bool" where
  "signed_integer x \<longleftrightarrow> (\<exists>sign i. sign \<in> {'''', ''-''} \<and> integer_part i \<and> x = sign @ i)"

definition mantissa :: "bytes \<Rightarrow> bool" where
  "mantissa x \<longleftrightarrow> (\<exists>y f. signed_integer y \<and> fraction f \<and> x = y @ f)"

text \<open>The part of a token that has been read in a state.\<close>

fun token :: "scan_state \<Rightarrow> bytes \<Rightarrow> bool" where
  "token Neg x = (x = ''-'')"
| "token Digits0 x = (x = ''0'' \<or> x = ''-0'')"
| "token Digits1 x = (\<exists>sign ds. sign \<in> {'''', ''-''} \<and> digits ds \<and> hd ds \<noteq> CHR ''0'' \<and> x = sign @ ds)"
| "token Dot x = (\<exists>y. signed_integer y \<and> x = y @ ''.'')"
| "token Dot0 x = (\<exists>y ds. signed_integer y \<and> digits ds \<and> x = y @ CHR ''.'' # ds)"
| "token Exp x = (\<exists>y m. mantissa y \<and> m \<in> set ''eE'' \<and> x = y @ [m])"
| "token ExpSign x = (\<exists>y m g. mantissa y \<and> m \<in> set ''eE'' \<and> g \<in> set ''+-'' \<and> x = y @ [m, g])"
| "token Exp0 x = (\<exists>y m g ds. mantissa y \<and> m \<in> set ''eE'' \<and> g \<in> {'''', ''+'', ''-''} \<and> digits ds \<and> x = y @ m # g @ ds)"
| "token (InLiteral w) x = (w \<noteq> [] \<and> json_literal (x @ w))"
| "token _ x = False"

fun string_token :: "scan_state \<Rightarrow> bytes \<Rightarrow> bool" where
  "string_token InString x = (\<exists>b. string_body b \<and> x = CHR 0x22 # b)"
| "string_token InStringEsc x = (\<exists>b. string_body b \<and> x = CHR 0x22 # b @ [CHR 0x5C])"
| "string_token (InStringEscU n) x =
     (\<exists>b hs. string_body b \<and> list_all json_hex hs \<and> length hs + n = 3 \<and> x = CHR 0x22 # b @ [CHR 0x5C, CHR ''u''] @ hs)"
| "string_token _ x = False"

text \<open>The invariant of the loop.\<close>

definition reading :: "scan_state \<Rightarrow> container list \<Rightarrow> bytes \<Rightarrow> bool" where
  "reading st ps p \<longleftrightarrow> length ps \<le> max_nesting \<and>
     (case st of
        BeginValue \<Rightarrow> before_value ps p
      | BeginValueOrEmpty \<Rightarrow> (\<exists>rest q a. ps = ArrayValue # rest \<and> before_value rest q \<and> json_ws a \<and> p = q @ CHR ''['' # a)
      | BeginStringOrEmpty \<Rightarrow> (\<exists>rest q a. ps = ObjectKey # rest \<and> before_value rest q \<and> json_ws a \<and> p = q @ CHR ''{'' # a)
      | BeginString \<Rightarrow> before_key ps p
      | EndValue \<Rightarrow> after_value ps p
      | EndTop \<Rightarrow> False
      | _ \<Rightarrow> (\<exists>q x. p = q @ x \<and> (before_value ps q \<and> token st x \<or> (before_value ps q \<or> before_key ps q) \<and> string_token st x)))"

text \<open>What a step makes of the bytes read before it and its own.\<close>

definition good :: "bytes \<Rightarrow> char \<Rightarrow> scanned \<Rightarrow> bool" where
  "good p c out =
     (case out of
        (Continue, st, ps) \<Rightarrow> reading st ps (p @ [c])
      | (ScanClose, st, ps) \<Rightarrow> if ps = [] then after_value [] (p @ [c]) else reading st ps (p @ [c])
      | (ScanEnd, st, ps) \<Rightarrow> after_value [] p
      | (ScanError, st, ps) \<Rightarrow> True)"

lemma good_simps [simp]:
  "good p c (Continue, st, ps) = reading st ps (p @ [c])" "good p c (ScanEnd, st, ps) = after_value [] p"
  "good p c (ScanError, st, ps)"
  "good p c (ScanClose, st, ps) = (if ps = [] then after_value [] (p @ [c]) else reading st ps (p @ [c]))"
  by (simp_all add: good_def)

lemma pop_good:
  assumes "length (k # ps) \<le> max_nesting" "before_value ps q" "p = q @ t" "json_text (Suc (room (k # ps))) (t @ [c])"
  shows "good p c (pop (k # ps))"
proof -
  have "Suc (room (k # ps)) = room ps" using assms(1) by (simp add: room_def)
  with assms(4) have "after_value ps (q @ t @ [c])" using value_read [OF assms(2)] by simp
  with assms(1,3) show ?thesis by (auto simp: pop_def reading_def)
qed

lemma end_value_good:
  assumes "after_value ps p" "length ps \<le> max_nesting"
  shows "good p c (end_value ps c)"
proof (cases ps)
  case Nil
  with assms(1) show ?thesis by (simp add: end_value_def)
next
  case (Cons k rest)
  with assms(1) obtain q t where f: "before_value rest q" "filled k (room ps) t" "p = q @ t" by auto
  have same: "room (ObjectValue # rest) = room ps" "room (ObjectKey # rest) = room ps" "room (ArrayValue # rest) = room ps"
    by (simp_all add: room_def Cons)
  show ?thesis
  proof (cases "json_space c")
    case True
    with assms after_value_space [OF True, of ps p] Cons show ?thesis by (simp add: end_value_def reading_def)
  next
    case space: False
    show ?thesis
    proof (cases k)
      case ObjectKey
      with f(2) have "value_open (room ps) (t @ '':'')" unfolding value_open_def by (intro exI [of _ t] exI [of _ "[]"]) simp
      with f(1,3) have "before_value (ObjectValue # rest) (p @ '':'')"
        by (simp add: same) (rule exI [of _ q], simp)
      with space ObjectKey assms(2) Cons show ?thesis by (simp add: end_value_def reading_def del: before_value.simps)
    next
      case ObjectValue
      with f(2) obtain w where w: "json_members (room ps) w" "t = CHR ''{'' # w" by auto
      have "object_open (room ps) (t @ '','')" unfolding object_open_def using w by (intro exI [of _ "[]"]) auto
      with f(1,3) have key: "before_key (ObjectKey # rest) (p @ '','')"
        unfolding before_key_def by (intro exI [of _ rest] exI [of _ q] exI [of _ "t @ '',''"]) (simp add: same)
      have "good p CHR ''}'' (pop ps)"
        using pop_good [OF _ f(1,3), of k] object [OF w(1)] w(2) assms(2) Cons by simp
      with space ObjectValue key assms(2) Cons show ?thesis by (simp add: end_value_def reading_def)
    next
      case ArrayValue
      with f(2) obtain w where w: "json_elements (room ps) w" "t = CHR ''['' # w" by auto
      have "array_open (room ps) (t @ '','')" unfolding array_open_def using w by (intro exI [of _ "[]"]) auto
      with f(1,3) have elem: "before_value (ArrayValue # rest) (p @ '','')"
        by (simp add: same) (rule exI [of _ q], simp)
      have "good p CHR '']'' (pop ps)"
        using pop_good [OF _ f(1,3), of k] array [OF w(1)] w(2) assms(2) Cons by simp
      with space ArrayValue elem assms(2) Cons show ?thesis by (simp add: end_value_def reading_def del: before_value.simps)
    qed
  qed
qed

text \<open>Inside a token the invariant is about the token alone.\<close>

definition outside :: "scan_state \<Rightarrow> bool" where
  "outside st \<longleftrightarrow> st \<in> {BeginValue, BeginValueOrEmpty, BeginStringOrEmpty, BeginString, EndValue, EndTop}"

lemma reading_inside: "\<not> outside st \<Longrightarrow> reading st ps p \<longleftrightarrow> length ps \<le> max_nesting \<and>
    (\<exists>q x. p = q @ x \<and> (before_value ps q \<and> token st x \<or> (before_value ps q \<or> before_key ps q) \<and> string_token st x))"
  by (cases st) (simp_all add: reading_def outside_def)

lemma token_inside: "token st x \<Longrightarrow> \<not> outside st \<and> \<not> string_token st y"
  by (cases st) (simp_all add: outside_def)

lemma string_token_inside: "string_token st x \<Longrightarrow> \<not> outside st \<and> \<not> token st y"
  by (cases st) (simp_all add: outside_def)

lemma reading_token: "before_value ps q \<Longrightarrow> length ps \<le> max_nesting \<Longrightarrow> token st x \<Longrightarrow> reading st ps (q @ x)"
  using token_inside [of st x] by (subst reading_inside) blast+

lemma reading_string: "before_value ps q \<or> before_key ps q \<Longrightarrow> length ps \<le> max_nesting \<Longrightarrow> string_token st x \<Longrightarrow> reading st ps (q @ x)"
  using string_token_inside [of st x] by (subst reading_inside) blast+

lemma string_started: "before_value ps p \<or> before_key ps p \<Longrightarrow> length ps \<le> max_nesting \<Longrightarrow> reading InString ps (p @ [CHR 0x22])"
  by (rule reading_string) simp_all

lemma begin_value_good:
  assumes "before_value ps p" "length ps \<le> max_nesting"
  shows "good p c (begin_value ps c)"
proof -
  have space: "json_space c \<Longrightarrow> reading BeginValue ps (p @ [c])" using before_value_space [OF _ assms(1)] assms(2) by (simp add: reading_def)
  have object: "length ps < max_nesting \<Longrightarrow> reading BeginStringOrEmpty (ObjectKey # ps) (p @ ''{'')"
    and array: "length ps < max_nesting \<Longrightarrow> reading BeginValueOrEmpty (ArrayValue # ps) (p @ ''['')"
    using assms by (simp_all add: reading_def) (rule exI [of _ p], simp)+
  note t = reading_token [OF assms]
  have "token Neg ''-''" "token Digits0 ''0''" "token (InLiteral ''rue'') ''t''" "token (InLiteral ''alse'') ''f''"
    "token (InLiteral ''ull'') ''n''" "is_digit c \<Longrightarrow> c \<noteq> CHR ''0'' \<Longrightarrow> token Digits1 [c]"
    by (auto simp: json_literal_def digits_def)
  from this [THEN t] show ?thesis
    using space object array string_started [of ps p] assms unfolding begin_value_def push_def by auto
qed

lemma begin_string_good:
  assumes "before_key ps p" "length ps \<le> max_nesting"
  shows "good p c (begin_string ps c)"
  using assms before_key_space [of c ps p] string_started [of ps p] by (simp add: begin_string_def reading_def)

section \<open>Tokens\<close>

lemma digits_snoc: "digits ds \<Longrightarrow> is_digit c \<Longrightarrow> digits (ds @ [c])" "digits ds \<Longrightarrow> hd (ds @ [c]) = hd ds"
  by (auto simp: digits_def)

lemma digits_single: "is_digit c \<Longrightarrow> digits [c]"
  by (simp add: digits_def)

lemma signed_integerI: "sign \<in> {'''', ''-''} \<Longrightarrow> integer_part i \<Longrightarrow> signed_integer (sign @ i)"
  unfolding signed_integer_def by blast

lemma token_integer: "token st x \<Longrightarrow> st \<in> {Digits0, Digits1} \<Longrightarrow> signed_integer x"
  using signed_integerI [of "''''"] signed_integerI [of "''-''"] by (auto simp: integer_part_def)

lemma mantissaI: "signed_integer y \<Longrightarrow> mantissa y" "signed_integer y \<Longrightarrow> digits ds \<Longrightarrow> mantissa (y @ CHR ''.'' # ds)"
  unfolding mantissa_def fraction_def by (metis append_Nil2, blast)

lemma token_mantissa: "token st x \<Longrightarrow> st \<in> {Digits0, Digits1, Dot0} \<Longrightarrow> mantissa x"
  using token_integer [of st x] mantissaI by (cases "st = Dot0") auto

lemma mantissa_number: "mantissa y \<Longrightarrow> exponent e \<Longrightarrow> json_number (y @ e)"
  unfolding mantissa_def signed_integer_def json_number_def by (elim exE conjE) (simp, blast)

lemma token_number:
  assumes "token st x" "value_end st" shows "json_number x"
proof (cases "st = Exp0")
  case True
  with assms(1) obtain y m g ds where x: "mantissa y" "m \<in> set ''eE''" "g \<in> {'''', ''+'', ''-''}" "digits ds" "x = y @ m # g @ ds"
    by (simp del: set_simps) blast
  then have "exponent (m # g @ ds)" unfolding exponent_def by blast
  with x mantissa_number show ?thesis by blast
next
  case False
  with assms have "st \<in> {Digits0, Digits1, Dot0}" by (auto simp: value_end_def)
  with token_mantissa [OF assms(1)] mantissa_number [of x "''''"] show ?thesis by (simp add: exponent_def)
qed

text \<open>A number that a byte cannot extend is a value, and the byte is read after it.\<close>

lemma number_good:
  assumes "before_value ps q" "length ps \<le> max_nesting" "token st x" "value_end st"
  shows "good (q @ x) c (end_value ps c)"
  by (rule end_value_good [OF value_read [OF assms(1) number [OF token_number [OF assms(3,4)]]] assms(2)])

text \<open>How a byte extends a token.\<close>

lemma token_digit:
  assumes "is_digit c"
  shows "token Neg x \<Longrightarrow> c \<noteq> CHR ''0'' \<Longrightarrow> token Digits1 (x @ [c])"
    and "token Digits1 x \<Longrightarrow> token Digits1 (x @ [c])"
    and "token Dot x \<Longrightarrow> token Dot0 (x @ [c])"
    and "token Dot0 x \<Longrightarrow> token Dot0 (x @ [c])"
proof -
  note d = digits_single [OF assms] and s = digits_snoc(1) [OF _ assms] digits_snoc(2)
  show "token Neg x \<Longrightarrow> c \<noteq> CHR ''0'' \<Longrightarrow> token Digits1 (x @ [c])"
    using d by (simp, intro exI [of _ "''-''"]) simp
  show "token Digits1 x \<Longrightarrow> token Digits1 (x @ [c])" unfolding token.simps by (elim exE conjE) (metis append.assoc s)
  show "token Dot x \<Longrightarrow> token Dot0 (x @ [c])" using d by auto
  show "token Dot0 x \<Longrightarrow> token Dot0 (x @ [c])" unfolding token.simps by (elim exE conjE) (metis append.assoc append_Cons s(1))
qed

lemma token_exponent:
  assumes "is_digit c"
  shows "token Exp x \<Longrightarrow> token Exp0 (x @ [c])" and "token ExpSign x \<Longrightarrow> token Exp0 (x @ [c])"
    and "token Exp0 x \<Longrightarrow> token Exp0 (x @ [c])"
proof -
  have e: "token Exp0 (y @ m # g @ ds)" if "mantissa y" "m \<in> set ''eE''" "g \<in> {'''', ''+'', ''-''}" "digits ds" for y m g ds
    unfolding token.simps using that by blast
  note d = digits_single [OF assms]
  show "token Exp0 (x @ [c])" if "token Exp x"
  proof -
    from that obtain y m where "mantissa y" "m \<in> set ''eE''" "x = y @ [m]" unfolding token.simps by blast
    with e [of y m "''''" "[c]"] d show ?thesis by (simp del: token.simps)
  qed
  show "token Exp0 (x @ [c])" if "token ExpSign x"
  proof -
    from that obtain y m g where x: "mantissa y" "m \<in> set ''eE''" "g \<in> set ''+-''" "x = y @ [m, g]" unfolding token.simps by blast
    then have "[g] \<in> {'''', ''+'', ''-''}" by auto
    from e [OF x(1,2) this d] x(4) show ?thesis by (simp del: token.simps)
  qed
  show "token Exp0 (x @ [c])" if "token Exp0 x"
  proof -
    from that obtain y m g ds where x: "mantissa y" "m \<in> set ''eE''" "g \<in> {'''', ''+'', ''-''}" "digits ds" "x = y @ m # g @ ds"
      unfolding token.simps by blast
    from e [OF x(1-3) digits_snoc(1) [OF x(4) assms]] x(5) show ?thesis by (simp del: token.simps)
  qed
qed

lemma token_mark:
  "token st x \<Longrightarrow> st \<in> {Digits0, Digits1} \<Longrightarrow> token Dot (x @ ''.'')"
  "token st x \<Longrightarrow> st \<in> {Digits0, Digits1, Dot0} \<Longrightarrow> c \<in> set ''eE'' \<Longrightarrow> token Exp (x @ [c])"
  "token Exp x \<Longrightarrow> c \<in> set ''+-'' \<Longrightarrow> token ExpSign (x @ [c])"
proof -
  show "token st x \<Longrightarrow> st \<in> {Digits0, Digits1} \<Longrightarrow> token Dot (x @ ''.'')"
    using token_integer [of st x] unfolding token.simps by blast
  show "token st x \<Longrightarrow> st \<in> {Digits0, Digits1, Dot0} \<Longrightarrow> c \<in> set ''eE'' \<Longrightarrow> token Exp (x @ [c])"
    using token_mantissa [of st x] unfolding token.simps by blast
  show "token Exp x \<Longrightarrow> c \<in> set ''+-'' \<Longrightarrow> token ExpSign (x @ [c])"
    unfolding token.simps by (elim exE conjE) (metis append.assoc append_Cons append_Nil)
qed

text \<open>How a byte extends a string.\<close>

lemma string_body_plain: "string_body b \<Longrightarrow> c \<noteq> CHR 0x5C \<Longrightarrow> c \<noteq> CHR 0x22 \<Longrightarrow> 32 \<le> (of_char c :: nat) \<Longrightarrow> string_body (b @ [c])"
  by (simp add: string_body_append)

lemma string_body_escape: "string_body b \<Longrightarrow> c \<in> set (''bfnrt/'' @ [CHR 0x5C, CHR 0x22]) \<Longrightarrow> string_body (b @ [CHR 0x5C, c])"
  by (simp add: string_body_append del: set_append set_simps append.simps)

lemma string_body_unicode: "string_body b \<Longrightarrow> list_all json_hex hs \<Longrightarrow> length hs = 4 \<Longrightarrow> string_body (b @ [CHR 0x5C, CHR ''u''] @ hs)"
  by (auto simp: string_body_append numeral_eq_Suc length_Suc_conv)

lemma string_step:
  assumes "before_value ps q \<or> before_key ps q" "length ps \<le> max_nesting" "string_token st x"
  shows "good (q @ x) c (scan_step st ps c)"
proof -
  note r = reading_string [OF assms(1,2)]
  have closed: "after_value ps (q @ CHR 0x22 # b @ [CHR 0x22])" if "string_body b" for b
    using assms(1) value_read [OF _ string_value [OF that]] key_finished [OF _ that] by (auto simp: quoted_def)
  consider b where "st = InString" "string_body b" "x = CHR 0x22 # b"
    | b where "st = InStringEsc" "string_body b" "x = CHR 0x22 # b @ [CHR 0x5C]"
    | n b hs where "st = InStringEscU n" "string_body b" "list_all json_hex hs" "length hs + n = 3" "x = CHR 0x22 # b @ [CHR 0x5C, CHR ''u''] @ hs"
    using assms(3) by (cases st) auto
  then show ?thesis
  proof cases
    case (1 b)
    have "c \<noteq> CHR 0x22 \<Longrightarrow> c \<noteq> CHR 0x5C \<Longrightarrow> 32 \<le> (of_char c :: nat) \<Longrightarrow> string_token InString (x @ [c])"
      using 1 string_body_plain [of b c] by simp
    moreover have "string_token InStringEsc (x @ [CHR 0x5C])" using 1 by simp
    moreover have "reading EndValue ps (q @ x @ [CHR 0x22])" using closed [OF 1(2)] 1 assms(2) by (simp add: reading_def)
    ultimately show ?thesis using 1(1) r [of InString] r [of InStringEsc] by (simp del: string_token.simps)
  next
    case (2 b)
    have "string_token InString (x @ [c])" if "c \<in> set (''bfnrt/'' @ [CHR 0x5C, CHR 0x22])"
      using 2 string_body_escape [OF 2(2) that] by simp
    moreover have "string_token (InStringEscU 3) (x @ ''u'')" using 2 by simp
    ultimately show ?thesis using 2(1) r [of InString] r [of "InStringEscU 3"]
      by (simp del: string_token.simps set_append set_simps append.simps add: append_assoc)
  next
    case (3 n b hs)
    have "string_token (case n of 0 \<Rightarrow> InString | Suc m \<Rightarrow> InStringEscU m) (x @ [c])" if "json_hex c"
    proof (cases n)
      case 0
      then show ?thesis using 3 that string_body_unicode [of b "hs @ [c]"] by simp
    next
      case (Suc m)
      have "string_token (InStringEscU m) (x @ [c])"
        unfolding string_token.simps by (rule exI [of _ b], rule exI [of _ "hs @ [c]"]) (use 3 that Suc in simp)
      then show ?thesis by (simp add: Suc)
    qed
    then show ?thesis using 3(1) r by (simp del: string_token.simps)
  qed
qed

lemma token_step:
  assumes "before_value ps q" "length ps \<le> max_nesting" "token st x"
  shows "good (q @ x) c (scan_step st ps c)"
proof -
  note r = reading_token [OF assms(1,2)] and v = number_good [OF assms(1,2,3), of c] and t = assms(3)
  have lit: "good (q @ x) c (scan_step (InLiteral w) ps c)" if st: "st = InLiteral w" for w
  proof -
    from t st obtain e rest where w: "w = e # rest" "json_literal (x @ e # rest)" by (cases w) auto
    have "reading EndValue ps (q @ x @ [e])" if "rest = []"
      using value_read [OF assms(1) literal [OF w(2)]] that assms(2) by (simp add: reading_def)
    moreover have "token (InLiteral rest) (x @ [e])" if "rest \<noteq> []" using w that by simp
    ultimately show ?thesis using w(1) r [of "InLiteral rest" "x @ [e]"] by (auto simp del: token.simps)
  qed
  have zero: "token Digits0 (x @ ''0'')" if "st = Neg" using t that by simp
  have sign: "good (q @ x) c (exp_sign ps c)" if "st \<in> {Exp, ExpSign}"
    using that t token_exponent [of c x] r [of Exp0 "x @ [c]"] by (auto simp: exp_sign_def simp del: token.simps)
  have "st \<in> {Neg, Digits0, Digits1, Dot, Dot0, Exp, ExpSign, Exp0} \<or> (\<exists>w. st = InLiteral w)" using t by (cases st) auto
  then consider "st = Neg" | "st = Digits0" | "st = Digits1" | "st = Dot" | "st = Dot0" | "st = Exp" | "st = ExpSign" | "st = Exp0"
    | w where "st = InLiteral w" by blast
  then show ?thesis
    by cases (use t r v zero sign lit token_digit [of c x] token_exponent(3) [of c x] token_mark(1,2) [of st x] token_mark(3) [of x c] in
      \<open>auto simp: after_integer_def value_end_def simp del: token.simps\<close>)
qed

section \<open>The loop\<close>

lemma scan_good:
  assumes "reading st ps p" shows "good p c (scan_step st ps c)"
proof (cases "outside st")
  case True
  have len: "length ps \<le> max_nesting" using assms by (simp add: reading_def)
  from True consider "st = BeginValue" | "st = BeginValueOrEmpty" | "st = BeginStringOrEmpty" | "st = BeginString" | "st = EndValue" | "st = EndTop"
    by (auto simp: outside_def)
  then show ?thesis
  proof cases
    case 1
    with assms len begin_value_good show ?thesis by (simp add: reading_def)
  next
    case 2
    with assms obtain rest q a where s: "ps = ArrayValue # rest" "before_value rest q" "json_ws a" "p = q @ CHR ''['' # a"
      by (auto simp: reading_def)
    have "before_value ps p" using s by (simp, intro exI [of _ q]) (auto simp: array_open_def)
    moreover have "good p CHR '']'' (pop ps)" using pop_good [OF _ s(2,4), of ArrayValue] empty_array [OF s(3)] len s(1) by simp
    moreover have "reading BeginValueOrEmpty ps (p @ [c])" if "json_space c"
      using s len that by (simp add: reading_def, intro exI [of _ q]) simp
    ultimately show ?thesis using 2 len begin_value_good [of ps p c] s(1) by (simp add: end_value_def)
  next
    case 3
    with assms obtain rest q a where s: "ps = ObjectKey # rest" "before_value rest q" "json_ws a" "p = q @ CHR ''{'' # a"
      by (auto simp: reading_def)
    have "before_key ps p" unfolding before_key_def
      by (rule exI [of _ rest], rule exI [of _ q], rule exI [of _ "CHR ''{'' # a"]) (use s in \<open>auto simp: object_open_def\<close>)
    moreover have "good p CHR ''}'' (pop (ObjectValue # rest))"
      using pop_good [OF _ s(2,4), of ObjectValue] empty_object [OF s(3)] len s(1) by simp
    moreover have "reading BeginStringOrEmpty ps (p @ [c])" if "json_space c"
      using s len that by (simp add: reading_def, intro exI [of _ q]) simp
    ultimately show ?thesis using 3 len begin_string_good [of ps p c] s(1) by (simp add: end_value_def)
  next
    case 4
    with assms len begin_string_good show ?thesis by (simp add: reading_def)
  next
    case 5
    with assms len end_value_good show ?thesis by (simp add: reading_def)
  next
    case 6
    with assms show ?thesis by (simp add: reading_def)
  qed
next
  case False
  with assms show ?thesis using token_step string_step by (subst (asm) reading_inside) blast+
qed

lemma read_value_sound:
  "reading st ps (rev acc) \<Longrightarrow>
   (case read_value st ps acc s of
      Found t rest \<Rightarrow> after_value [] t \<and> rev acc @ s = t @ rest
    | SyntaxError \<Rightarrow> True
    | RanOut st' ps' t \<Rightarrow> reading st' ps' t \<and> t = rev acc @ s)"
proof (induction s arbitrary: st ps acc)
  case (Cons c s)
  obtain code st' ps' where step: "scan_step st ps c = (code, st', ps')" by (cases "scan_step st ps c")
  with scan_good [OF Cons.prems, of c] have g: "good (rev acc) c (code, st', ps')" by simp
  show ?case
  proof (cases code)
    case Continue
    with g Cons.IH [of st' ps' "c # acc"] step show ?thesis by (simp split: read_result.splits)
  next
    case ScanClose
    with g Cons.IH [of st' ps' "c # acc"] step show ?thesis by (auto split: if_splits read_result.splits)
  qed (use g step in simp_all)
qed simp

lemma after_value_trim: "after_value [] t \<Longrightarrow> \<exists>a v. json_ws a \<and> json_text max_nesting v \<and> t = a @ v \<and> trim_json t = v"
  using trim_text by fastforce

text \<open>Whatever is decoded is a text of the grammar with space before it.\<close>

lemma Decode_sound:
  assumes "Decode_raw stream_end s = Value v rest"
  shows "\<exists>a. json_ws a \<and> s = a @ v @ rest \<and> json_text max_nesting v"
proof -
  have start: "reading BeginValue [] (rev [])" by (simp add: reading_def)
  note sound = read_value_sound [OF start, of s]
  show ?thesis
  proof (cases "read_value BeginValue [] [] s")
    case (Found t r)
    with assms sound after_value_trim [of t] show ?thesis by (auto simp: Decode_raw_def)
  next
    case (RanOut st ps t)
    with assms have "fst (scan_step st ps CHR '' '') = ScanEnd" and v: "v = trim_json t" "rest = []"
      by (auto simp: Decode_raw_def split: option.splits if_splits)
    moreover have "good t CHR '' '' (scan_step st ps CHR '' '')" and "t = s" using RanOut sound scan_good [of st ps t] by auto
    ultimately have "after_value [] s" by (cases "scan_step st ps CHR '' ''") auto
    with after_value_trim [of s] v \<open>t = s\<close> show ?thesis by auto
  qed (use assms in \<open>simp add: Decode_raw_def\<close>)
qed

lemma Decode_end: "Decode_raw stream_end s = AtEOF \<Longrightarrow> stream_end = None \<and> json_ws s"
proof -
  assume a: "Decode_raw stream_end s = AtEOF"
  have start: "reading BeginValue [] (rev [])" by (simp add: reading_def)
  from a read_value_sound [OF start, of s] show ?thesis
    by (auto simp: Decode_raw_def json_ws_def split: read_result.splits option.splits if_splits)
qed

end
