(* ===== verification/Http_Request.thy ===== *)
theory Http_Request
  imports Http_Error Json_Sound
begin

text \<open>
  \<^verbatim>\<open>src/internal/platform/httpserver/request.go\<close> and \<^verbatim>\<open>time.go\<close>: decoding a JSON request, with the parts of \<^verbatim>\<open>mime\<close> and
  \<^verbatim>\<open>net/http\<close> it uses (\<^verbatim>\<open>ParseMediaType\<close> and \<^verbatim>\<open>MaxBytesReader\<close>) and the scanner of \<^verbatim>\<open>Json_Scan\<close>. Decoding the
  value into the caller's destination works by reflection on its type and is an argument.
\<close>

section \<open>mime.ParseMediaType\<close>

definition tspecial :: "char \<Rightarrow> bool" where
  "tspecial c \<longleftrightarrow> c \<in> set (''()<>@,;:/[]?='' @ [CHR 0x5C, CHR 0x22])"

definition token_char :: "char \<Rightarrow> bool" where
  "token_char c \<longleftrightarrow> 32 < (of_char c :: nat) \<and> (of_char c :: nat) < 127 \<and> \<not> tspecial c"

definition consume_token :: "bytes \<Rightarrow> bytes \<times> bytes" where
  "consume_token v = (takeWhile token_char v, dropWhile token_char v)"

fun quoted_value :: "bytes \<Rightarrow> bytes \<Rightarrow> (bytes \<times> bytes) option" where
  "quoted_value acc [] = None"
| "quoted_value acc (c # s) =
     (if c = CHR 0x22 then Some (rev acc, s)
      else if c = CHR 0x5C \<and> s \<noteq> [] \<and> tspecial (hd s)
        then (case s of [] \<Rightarrow> None | d # t \<Rightarrow> quoted_value (d # acc) t)
      else if c = CHR 0x0D \<or> c = CHR 0x0A then None
      else quoted_value (c # acc) s)"

definition consume_value :: "bytes \<Rightarrow> bytes \<times> bytes" where
  "consume_value v =
     (case v of
        [] \<Rightarrow> ([], [])
      | c # s \<Rightarrow>
          if c \<noteq> CHR 0x22 then consume_token v
          else (case quoted_value [] s of Some r \<Rightarrow> r | None \<Rightarrow> ([], v)))"

definition trim_space_left :: "bytes \<Rightarrow> bytes" where
  "trim_space_left v = trim_left space_runes v"

text \<open>A parameter: its name, empty when there is none, its value and the rest.\<close>

definition consume_media_param :: "(bytes \<Rightarrow> bytes) \<Rightarrow> bytes \<Rightarrow> bytes \<times> bytes \<times> bytes" where
  "consume_media_param uni v =
     (case trim_space_left v of
        [] \<Rightarrow> ([], [], v)
      | c # r0 \<Rightarrow>
          if c \<noteq> CHR '';'' then ([], [], v)
          else
            (case consume_token (trim_space_left r0) of
               (param, r1) \<Rightarrow>
                 if param = [] then ([], [], v)
                 else
                   (case trim_space_left r1 of
                      [] \<Rightarrow> ([], [], v)
                    | e # r2 \<Rightarrow>
                        if e \<noteq> CHR ''='' then ([], [], v)
                        else
                          (case consume_value (trim_space_left r2) of
                             (val, r3) \<Rightarrow>
                               if val = [] \<and> r3 = trim_space_left r2 then ([], [], v)
                               else (ToLower uni param, val, r3)))))"

lemma trim_left_length: "length (trim_left rs v) \<le> length v"
proof (induction rs v rule: trim_left.induct)
  case (1 rs s)
  then show ?case by (subst trim_left.simps) (auto simp: le_diff_conv intro: le_trans)
qed

lemma trim_space_left_length: "length (trim_space_left v) \<le> length v"
  by (simp add: trim_space_left_def trim_left_length)

lemma quoted_value_length: "quoted_value acc s = Some (a, r) \<Longrightarrow> length r < length s"
  by (induction acc s rule: quoted_value.induct) (auto split: if_splits list.splits intro: less_SucI)

lemma consume_value_length: "consume_value v = (a, r) \<Longrightarrow> length r \<le> length v"
  by (auto simp: consume_value_def consume_token_def length_dropWhile_le split: list.splits if_splits option.splits
      dest!: quoted_value_length intro: le_SucI)

lemma consume_media_param_length:
  assumes "consume_media_param uni v = (key, val, rest)" "key \<noteq> []"
  shows "length rest < length v"
proof -
  from assms obtain c r0 param r1 e r2 r3 where
    "trim_space_left v = c # r0" "consume_token (trim_space_left r0) = (param, r1)"
    "trim_space_left r1 = e # r2" "consume_value (trim_space_left r2) = (val, r3)" "rest = r3"
    by (auto simp: consume_media_param_def split: list.splits if_splits prod.splits)
  moreover from this have "length r1 \<le> length (trim_space_left r0)"
    by (auto simp: consume_token_def length_dropWhile_le)
  ultimately show ?thesis
    using trim_space_left_length [of v] trim_space_left_length [of r0] trim_space_left_length [of r1]
      trim_space_left_length [of r2] consume_value_length [of "trim_space_left r2" val r3] by simp
qed

text \<open>The loop over the parameters; \<open>False\<close> is an error. Continuations are stitched together without errors.\<close>

function media_params :: "(bytes \<Rightarrow> bytes) \<Rightarrow> (bytes \<times> bytes) list \<Rightarrow> bytes \<Rightarrow> bool" where
  "media_params uni params v =
     (let v1 = trim_space_left v in
      if v1 = [] then True
      else
        (case consume_media_param uni v1 of
           (key, val, rest) \<Rightarrow>
             if key = [] then TrimSpace rest = '';''
             else if map_of params key \<noteq> None \<and> map_of params key \<noteq> Some val then False
             else media_params uni ((key, val) # params) rest))"
  by pat_completeness auto
termination
  by (relation "measure (\<lambda>(uni, params, v). length v)")
    (simp_all, metis consume_media_param_length le_less_trans less_le_trans trim_space_left_length)

declare media_params.simps [simp del]

definition checkMediaType :: "bytes \<Rightarrow> bool" where
  "checkMediaType s =
     (case consume_token s of
        (typ, rest) \<Rightarrow>
          if typ = [] then False
          else if rest = [] then True
          else if hd rest \<noteq> CHR ''/'' then False
          else (case consume_token (tl rest) of (subtype, rest') \<Rightarrow> subtype \<noteq> [] \<and> rest' = []))"

definition ParseMediaType :: "(bytes \<Rightarrow> bytes) \<Rightarrow> bytes \<Rightarrow> bytes option" where
  "ParseMediaType uni v =
     (let base = fst (Cut v (CHR '';'')); mediatype = TrimSpace (ToLower uni base) in
      if \<not> checkMediaType mediatype then None
      else if media_params uni [] (drop (length base) v) then Some mediatype else None)"

section \<open>request.go\<close>

text \<open>
  What arrives: the header, the declared length and the body, which is a text that ends or fails with
  an error of the connection; \<open>None\<close> is a nil body.
\<close>

type_synonym stream = "bytes \<times> gerror option"

record incoming =
  in_header :: header
  ContentLength :: int
  Body :: "stream option"

definition MaxBytesReader :: "int \<Rightarrow> stream \<Rightarrow> stream" where
  "MaxBytesReader n b = (if int (length (fst b)) \<le> n then b else (take (nat n) (fst b), Some MaxBytesErr))"

definition DefaultMaxBodyBytes :: int where "DefaultMaxBodyBytes = 1048576"

text \<open>The error of a decoder that did not find a value.\<close>

fun decoder_error :: "gerror decoded \<Rightarrow> gerror" where
  "decoder_error Malformed = ForeignErr ''invalid character'' None None []"
| "decoder_error UnexpectedEOF = Sentinel ''io.ErrUnexpectedEOF''"
| "decoder_error AtEOF = Sentinel ''io.EOF''"
| "decoder_error (ReadFailed e) = e"
| "decoder_error (Value v rest) = Sentinel ''io.EOF''"

definition decodeError :: "gerror \<Rightarrow> gerror" where
  "decodeError e =
     (if errors_As (\<lambda>x. x = MaxBytesErr) e \<noteq> None then RequestErr errBodyTooLarge
      else if errors_As (\<lambda>x. x = InvalidUnmarshalErr) e \<noteq> None then e
      else RequestErr errInvalidRequest)"

text \<open>\<open>dst\<close> decodes a value into the caller's destination, rejecting unknown fields.\<close>

definition decodeValue :: "(bytes \<Rightarrow> gerror option) \<Rightarrow> bytes \<Rightarrow> gerror option" where
  "decodeValue dst raw = map_option decodeError (dst raw)"

text \<open>The error and, if the destination was reached, the value it was given.\<close>

definition DecodeJSON :: "(bytes \<Rightarrow> bytes) \<Rightarrow> incoming \<Rightarrow> (bytes \<Rightarrow> gerror option) \<Rightarrow> int \<Rightarrow> gerror option \<times> bytes option" where
  "DecodeJSON uni r dst maxBytes =
     (if maxBytes \<le> 0 then (Some (NewErr ''JSON body limit must be positive''), None)
      else if ParseMediaType uni (header_get (in_header r) ''Content-Type'') \<noteq> Some ''application/json''
        then (Some (RequestErr errMediaType), None)
      else if ContentLength r > maxBytes then (Some (RequestErr errBodyTooLarge), None)
      else
        (case Body r of
           None \<Rightarrow> (Some (RequestErr errInvalidRequest), None)
         | Some b \<Rightarrow>
             (case MaxBytesReader maxBytes b of
                (text_of, stream_end) \<Rightarrow>
                  (case Decode_raw stream_end text_of of
                     Value raw rest \<Rightarrow>
                       (case Decode_raw stream_end rest of
                          AtEOF \<Rightarrow>
                            if raw = ''null'' then (Some (RequestErr errInvalidRequest), None)
                            else (decodeValue dst raw, Some raw)
                        | Value extra rest' \<Rightarrow> (Some (RequestErr errInvalidRequest), None)
                        | failed \<Rightarrow> (Some (decodeError (decoder_error failed)), None))
                   | failed \<Rightarrow> (Some (decodeError (decoder_error failed)), None)))))"

section \<open>time.go\<close>

text \<open>
  A \<^verbatim>\<open>time.Time\<close>: the instant, in nanoseconds since the epoch, and the offset of its location, in seconds
  east of UTC, by which it is shown.
\<close>

record go_time =
  instant :: int
  utc_offset :: int

definition Timestamp :: "go_time \<Rightarrow> go_time" where
  "Timestamp t = t\<lparr>utc_offset := 0\<rparr>"

text \<open>Instants are kept, and equal instants become equal values, so that they print alike.\<close>

lemma Timestamp_instant: "instant (Timestamp t) = instant t" "Timestamp t = Timestamp u \<longleftrightarrow> instant t = instant u"
  by (cases t; cases u; simp add: Timestamp_def)+

section \<open>Properties\<close>

lemma decodeError_public:
  "decodeError e \<in> {RequestErr errBodyTooLarge, RequestErr errInvalidRequest} \<or>
   decodeError e = e \<and> InvalidUnmarshalErr \<in> set (chain e)"
  by (auto simp: decodeError_def errors_As_None)

lemma decodeError_cases:
  "decodeError e \<in> {RequestErr errBodyTooLarge, RequestErr errInvalidRequest} \<or> InvalidUnmarshalErr \<in> set (chain (decodeError e))"
  using decodeError_public [of e] by auto

lemma AtEOF_stream: "Decode_raw stream_end s = AtEOF \<Longrightarrow> stream_end = None"
  by (auto simp: Decode_raw_def split: read_result.splits option.splits if_splits)

lemma MaxBytesReader_whole: "MaxBytesReader n (s, e) = (s', None) \<Longrightarrow> s' = s \<and> e = None \<and> int (length s) \<le> n"
  by (auto simp: MaxBytesReader_def split: if_splits)

lemma DecodeJSON_given:
  assumes "DecodeJSON uni r dst maxBytes = (err, Some raw)"
  shows "0 < maxBytes \<and> ParseMediaType uni (header_get (in_header r) ''Content-Type'') = Some ''application/json'' \<and>
    ContentLength r \<le> maxBytes \<and> raw \<noteq> ''null'' \<and> err = map_option decodeError (dst raw) \<and>
    (\<exists>text_of rest. Body r = Some (text_of, None) \<and> int (length text_of) \<le> maxBytes \<and>
       Decode_raw (None :: gerror option) text_of = Value raw rest \<and> Decode_raw (None :: gerror option) rest = AtEOF)"
proof -
  from assms have guards: "0 < maxBytes" "ParseMediaType uni (header_get (in_header r) ''Content-Type'') = Some ''application/json''"
    "ContentLength r \<le> maxBytes" by (auto simp: DecodeJSON_def split: if_splits)
  from assms guards obtain s e s' e' rest where b: "Body r = Some (s, e)" "MaxBytesReader maxBytes (s, e) = (s', e')"
    "Decode_raw e' s' = Value raw rest" "Decode_raw e' rest = AtEOF" "raw \<noteq> ''null''" "err = decodeValue dst raw"
    by (auto simp: DecodeJSON_def split: option.splits prod.splits decoded.splits if_splits)
  from AtEOF_stream [OF b(4)] have "e' = None" .
  with MaxBytesReader_whole [of maxBytes s e s'] b guards show ?thesis by (auto simp: decodeValue_def)
qed

lemma DecodeJSON_error:
  assumes "DecodeJSON uni r dst maxBytes = (Some e, given)"
  shows "e \<in> {RequestErr errBodyTooLarge, RequestErr errInvalidRequest, RequestErr errMediaType,
      NewErr ''JSON body limit must be positive''} \<or> InvalidUnmarshalErr \<in> set (chain e)"
proof -
  have "e \<in> {RequestErr errBodyTooLarge, RequestErr errInvalidRequest, RequestErr errMediaType,
      NewErr ''JSON body limit must be positive''} \<or> (\<exists>f. e = decodeError f)"
    using assms by (auto simp: DecodeJSON_def decodeValue_def split: option.splits prod.splits decoded.splits if_splits)
  then show ?thesis using decodeError_cases by auto
qed

text \<open>
  C11. Only one bounded JSON value reaches the destination. Whatever arrives, if the destination is
  given a value then the request declares \<^verbatim>\<open>application/json\<close>, the whole body arrived within the limit
  and declared no more, it holds that one value and nothing but space around it, and the value is
  not null. Otherwise there is an error; and every error is one of the three public request
  errors, the error of a non-positive limit, or the programming error of a destination that cannot
  be decoded into.
\<close>

theorem DecodeJSON_guards:
  assumes "DecodeJSON uni r dst maxBytes = (err, given)"
  shows "(case given of
      None \<Rightarrow> err \<noteq> None
    | Some raw \<Rightarrow> 0 < maxBytes \<and> ParseMediaType uni (header_get (in_header r) ''Content-Type'') = Some ''application/json'' \<and>
        ContentLength r \<le> maxBytes \<and> raw \<noteq> ''null'' \<and> err = map_option decodeError (dst raw) \<and>
        (\<exists>text_of rest. Body r = Some (text_of, None) \<and> int (length text_of) \<le> maxBytes \<and>
           Decode_raw (None :: gerror option) text_of = Value raw rest \<and> Decode_raw (None :: gerror option) rest = AtEOF)) \<and>
    (case err of
       None \<Rightarrow> True
     | Some e \<Rightarrow> e \<in> {RequestErr errBodyTooLarge, RequestErr errInvalidRequest, RequestErr errMediaType,
           NewErr ''JSON body limit must be positive''} \<or> InvalidUnmarshalErr \<in> set (chain e))"
proof -
  have "err \<noteq> None" if "given = None"
    using assms that by (auto simp: DecodeJSON_def split: if_splits option.splits prod.splits decoded.splits)
  moreover note DecodeJSON_given DecodeJSON_error
  ultimately show ?thesis using assms by (cases given; cases err) (simp_all only: option.case simp_thms, blast+)
qed

definition demo_incoming :: incoming where
  "demo_incoming = \<lparr>in_header = [(''Content-Type'', [''application/json; charset=utf-8''])], ContentLength = -1,
     Body = Some ('' [1, {} ]'', None)\<rparr>"

lemma demo_media: "ParseMediaType (map lower_char) (header_get (in_header demo_incoming) ''Content-Type'') = Some ''application/json''"
  by code_simp

theorem DecodeJSON_guards_witness:
  "\<exists>raw. snd (DecodeJSON (map lower_char) demo_incoming (\<lambda>v. None) 100) = Some raw \<and> raw \<noteq> ''null''"
proof -
  have g: "snd (DecodeJSON (map lower_char) demo_incoming (\<lambda>v. None) 100) = Some ''[1, {} ]''" by code_simp
  obtain err given where d: "DecodeJSON (map lower_char) demo_incoming (\<lambda>v. None) 100 = (err, given)" by fastforce
  from DecodeJSON_guards [OF d] g d show ?thesis by auto
qed

text \<open>
  Every JSON value within the limits is decoded. If the request is declared as JSON, the body is a
  text of the JSON grammar of nesting at most ten thousand, with any space around it, it is not
  null, and neither its length nor the declared length exceeds the limit, then the destination is
  given exactly that text, and its answer decides.
\<close>

theorem DecodeJSON_accepts:
  assumes "ParseMediaType uni (header_get (in_header r) ''Content-Type'') = Some ''application/json''"
    and "Body r = Some (a @ w @ b, None)" and "json_ws a" and "json_ws b" and "json_text d w" and "d \<le> max_nesting" and "w \<noteq> ''null''"
    and "int (length (a @ w @ b)) \<le> maxBytes" and "ContentLength r \<le> maxBytes"
  shows "DecodeJSON uni r dst maxBytes = (map_option decodeError (dst w), Some w)"
proof -
  have "w \<noteq> []" using text_last [OF assms(5)] by blast
  then have pos: "0 < maxBytes" using assms(8) by (cases w) auto
  have "b = [] \<or> delimiter (hd b)" using assms(4) space_delimiter by (cases b) (auto simp: json_ws_def)
  then have first: "Decode_raw (None :: gerror option) (a @ w @ b) = Value w b"
    using Decode_text [OF assms(5,6,3)] by blast
  have second: "Decode_raw (None :: gerror option) b = AtEOF" by (rule Decode_blank [OF assms(4)])
  show ?thesis using assms pos first second by (simp add: DecodeJSON_def MaxBytesReader_def decodeValue_def)
qed

lemma demo_text: "json_text 2 ''[1, {} ]''"
proof -
  have "json_number ''1''" unfolding json_number_def
    by (intro exI [of _ "''''"] exI [of _ "''1''"])
      (simp add: integer_part_def digits_def is_digit_def fraction_def exponent_def)
  then have "json_text 1 ''1''" by (rule number)
  moreover have "json_text 1 ''{}''" using empty_object [of "''''" 0] by (simp add: json_ws_def)
  then have "json_elements 1 '' {} ''" using one_element [of "'' ''" 1 "''{}''" "'' ''"] by (simp add: json_ws_def)
  ultimately have "json_elements 1 ''1, {} ''" using more_elements [of "''''" 1 "''1''" "''''" "'' {} ''"] by (simp add: json_ws_def)
  then show ?thesis using array [of 1 "''1, {} ''"] by (simp add: numeral_2_eq_2)
qed

theorem DecodeJSON_accepts_witness:
  "DecodeJSON (map lower_char) demo_incoming (\<lambda>v. None) 100 = (None, Some ''[1, {} ]'')"
  using DecodeJSON_accepts [of "map lower_char" demo_incoming "'' ''" "''[1, {} ]''" "''''" 2 100 "\<lambda>v. None", OF demo_media]
    demo_text by (simp add: demo_incoming_def json_ws_def max_nesting_def)

text \<open>
  C10. The destination of a request is given exactly the JSON values. A value reaches it, and its answer is then
  the result, if and only if the request declares \<^verbatim>\<open>application/json\<close>, the whole body has arrived
  within the limit and declares no more, and the body is that value, a text of the JSON grammar
  of nesting at most ten thousand other than null, with nothing but space around it.
\<close>

theorem DecodeJSON_decides:
  "DecodeJSON uni r dst maxBytes = (err, Some raw) \<longleftrightarrow>
     0 < maxBytes \<and> ParseMediaType uni (header_get (in_header r) ''Content-Type'') = Some ''application/json'' \<and>
     ContentLength r \<le> maxBytes \<and> raw \<noteq> ''null'' \<and> err = map_option decodeError (dst raw) \<and>
     (\<exists>a b. Body r = Some (a @ raw @ b, None) \<and> json_ws a \<and> json_ws b \<and> json_text max_nesting raw \<and>
        int (length (a @ raw @ b)) \<le> maxBytes)"
    (is "?given \<longleftrightarrow> ?allowed")
proof
  assume ?given
  note g = DecodeJSON_given [OF this]
  then obtain s rest where s: "Body r = Some (s, None)" "int (length s) \<le> maxBytes"
    "Decode_raw (None :: gerror option) s = Value raw rest" "Decode_raw (None :: gerror option) rest = AtEOF" by blast
  from Decode_sound [OF s(3)] Decode_end [OF s(4)] s(1,2) g show ?allowed by blast
next
  assume ?allowed
  then show ?given using DecodeJSON_accepts [of uni r _ raw _ max_nesting maxBytes dst] by blast
qed

end
