(* ===== verification/Json_Read.thy ===== *)
theory Json_Read
  imports Http_Error
begin

text \<open>
  A reader of JSON values, written against RFC 8259 and not against the encoder: what a client makes
  of a response. It is executable and takes the length of the text as the bound of its recursion.
  The facts say that a value that was read reads the same with more fuel and with more text after
  it, that the strings of the encoder read as the bytes they encode (invalid UTF-8 replaced), and
  that what the encoder prints reads as the value it was given.
\<close>

section \<open>The reader\<close>

datatype jvalue = VBool bool | VNull | VNumber string | VString bytes | VArr "jvalue list" | VObj "(bytes \<times> jvalue) list"

definition read_space :: "char \<Rightarrow> bool" where
  "read_space c \<longleftrightarrow> c \<in> {CHR '' '', CHR 0x09, CHR 0x0A, CHR 0x0D}"

definition skip :: "string \<Rightarrow> string" where
  "skip s = dropWhile read_space s"

definition number_char :: "char \<Rightarrow> bool" where
  "number_char c \<longleftrightarrow> is_digit c \<or> c \<in> {CHR ''-'', CHR ''+'', CHR ''.'', CHR ''e'', CHR ''E''}"

definition hex_value :: "char \<Rightarrow> nat" where
  "hex_value c =
     (let n = of_char c :: nat in if n < 58 then n - 48 else if n < 71 then n - 55 else n - 87)"

text \<open>The UTF-8 encoding of a code unit; a surrogate is read as the replacement character.\<close>

definition utf8_encode :: "nat \<Rightarrow> bytes" where
  "utf8_encode n =
     (if n < 128 then [char_of n]
      else if n < 2048 then [char_of (192 + n div 64), char_of (128 + n mod 64)]
      else if 55296 \<le> n \<and> n \<le> 57343 then [CHR 0xEF, CHR 0xBF, CHR 0xBD]
      else [char_of (224 + n div 4096), char_of (128 + n div 64 mod 64), char_of (128 + n mod 64)])"

text \<open>The character that a one-letter escape stands for.\<close>

definition escaped :: "char \<Rightarrow> char option" where
  "escaped c =
     (if c \<in> {CHR 0x22, CHR 0x5C, CHR ''/''} then Some c
      else if c = CHR ''b'' then Some (CHR 0x08) else if c = CHR ''f'' then Some (CHR 0x0C)
      else if c = CHR ''n'' then Some (CHR 0x0A) else if c = CHR ''r'' then Some (CHR 0x0D)
      else if c = CHR ''t'' then Some (CHR 0x09) else None)"

text \<open>The characters of a string up to its closing quote, and what follows the quote.\<close>

definition prepend :: "bytes \<Rightarrow> (bytes \<times> string) option \<Rightarrow> (bytes \<times> string) option" where
  "prepend bs res = map_option (\<lambda>(b, r). (bs @ b, r)) res"

fun read_chars :: "string \<Rightarrow> (bytes \<times> string) option" where
  "read_chars [] = None"
| "read_chars (c # cs) =
     (if c = CHR 0x22 then Some ([], cs)
      else if c = CHR 0x5C then
        (case cs of
           [] \<Rightarrow> None
         | e # rest \<Rightarrow>
             if e = CHR ''u'' then
               (case rest of
                  w # x # y # z # rest' \<Rightarrow>
                    prepend (utf8_encode (((hex_value w * 16 + hex_value x) * 16 + hex_value y) * 16 + hex_value z)) (read_chars rest')
                | _ \<Rightarrow> None)
             else (case escaped e of None \<Rightarrow> None | Some b \<Rightarrow> prepend [b] (read_chars rest)))
      else if (of_char c :: nat) < 32 then None
      else prepend [c] (read_chars cs))"

fun read_value :: "nat \<Rightarrow> string \<Rightarrow> (jvalue \<times> string) option"
  and read_elements :: "nat \<Rightarrow> string \<Rightarrow> (jvalue list \<times> string) option"
  and read_members :: "nat \<Rightarrow> string \<Rightarrow> ((bytes \<times> jvalue) list \<times> string) option" where
  "read_value 0 s = None"
| "read_value (Suc n) s =
     (case skip s of
        [] \<Rightarrow> None
      | c # cs \<Rightarrow>
          if c = CHR 0x22 then map_option (\<lambda>(b, r). (VString b, r)) (read_chars cs)
          else if c = CHR ''['' then
            (case skip cs of
               [] \<Rightarrow> None
             | d # ds \<Rightarrow> if d = CHR '']'' then Some (VArr [], ds) else map_option (\<lambda>(vs, r). (VArr vs, r)) (read_elements n cs))
          else if c = CHR ''{'' then
            (case skip cs of
               [] \<Rightarrow> None
             | d # ds \<Rightarrow> if d = CHR ''}'' then Some (VObj [], ds) else map_option (\<lambda>(ms, r). (VObj ms, r)) (read_members n cs))
          else if number_char c then Some (VNumber (takeWhile number_char (c # cs)), dropWhile number_char (c # cs))
          else if take 4 (c # cs) = ''true'' then Some (VBool True, drop 4 (c # cs))
          else if take 5 (c # cs) = ''false'' then Some (VBool False, drop 5 (c # cs))
          else if take 4 (c # cs) = ''null'' then Some (VNull, drop 4 (c # cs))
          else None)"
| "read_elements 0 s = None"
| "read_elements (Suc n) s =
     (case read_value n s of
        None \<Rightarrow> None
      | Some (v, r) \<Rightarrow>
          (case skip r of
             [] \<Rightarrow> None
           | d # r' \<Rightarrow>
               if d = CHR '','' then map_option (\<lambda>(vs, r''). (v # vs, r'')) (read_elements n r')
               else if d = CHR '']'' then Some ([v], r') else None))"
| "read_members 0 s = None"
| "read_members (Suc n) s =
     (case skip s of
        [] \<Rightarrow> None
      | c # cs \<Rightarrow>
          if c \<noteq> CHR 0x22 then None
          else
            (case read_chars cs of
               None \<Rightarrow> None
             | Some (k, r) \<Rightarrow>
                 (case skip r of
                    [] \<Rightarrow> None
                  | d # r1 \<Rightarrow>
                      if d \<noteq> CHR '':'' then None
                      else
                        (case read_value n r1 of
                           None \<Rightarrow> None
                         | Some (v, r2) \<Rightarrow>
                             (case skip r2 of
                                [] \<Rightarrow> None
                              | e # r3 \<Rightarrow>
                                  if e = CHR '','' then map_option (\<lambda>(ms, r4). ((k, v) # ms, r4)) (read_members n r3)
                                  else if e = CHR ''}'' then Some ([(k, v)], r3) else None)))))"

text \<open>The value that a whole text is, with nothing around it.\<close>

definition read_json :: "string \<Rightarrow> jvalue option" where
  "read_json s = (case read_value (Suc (length s)) s of Some (v, []) \<Rightarrow> Some v | _ \<Rightarrow> None)"

section \<open>More fuel and more text\<close>

definition delimited :: "string \<Rightarrow> bool" where
  "delimited t \<longleftrightarrow> t = [] \<or> \<not> number_char (hd t)"

lemma skip_append: "skip s = c # cs \<Longrightarrow> skip (s @ t) = c # cs @ t"
  unfolding skip_def by (induction s) (auto split: if_splits)

lemma prepend_Some: "prepend bs res = Some (b, r) \<longleftrightarrow> (\<exists>b'. res = Some (b', r) \<and> b = bs @ b')"
  by (auto simp: prepend_def)

lemma read_chars_more: "read_chars s = Some (b, r) \<Longrightarrow> read_chars (s @ t) = Some (b, r @ t)"
proof (induction s arbitrary: b r rule: read_chars.induct)
  case (2 c cs)
  note prems = 2(4)
  consider (quote) "c = CHR 0x22" | (escape) "c \<noteq> CHR 0x22" "c = CHR 0x5C"
    | (plain) "c \<noteq> CHR 0x22" "c \<noteq> CHR 0x5C" "\<not> (of_char c :: nat) < 32"
    | (control) "c \<noteq> CHR 0x22" "c \<noteq> CHR 0x5C" "(of_char c :: nat) < 32" by blast
  then show ?case
  proof cases
    case quote
    then show ?thesis using prems by simp
  next
    case plain
    with prems obtain b' where "read_chars cs = Some (b', r)" "b = [c] @ b'" by (auto simp: prepend_Some)
    with plain 2(3) show ?thesis by (simp add: prepend_def)
  next
    case escape
    then obtain e rest where cs: "cs = e # rest" using prems by (cases cs) simp_all
    show ?thesis
    proof (cases "e = CHR ''u''")
      case True
      with escape cs prems obtain w x y z rest' where r: "rest = w # x # y # z # rest'"
        by (simp split: list.splits)
      with True escape cs prems obtain b' where b: "read_chars rest' = Some (b', r)"
        "b = utf8_encode (((hex_value w * 16 + hex_value x) * 16 + hex_value y) * 16 + hex_value z) @ b'"
        by (auto simp: prepend_Some)
      have "read_chars (rest' @ t) = Some (b', r @ t)"
        using 2(1) [OF escape cs True] r b(1) by simp
      with True escape cs r b show ?thesis by (simp add: prepend_def)
    next
      case False
      with escape cs prems obtain d b' where b: "escaped e = Some d" "read_chars rest = Some (b', r)" "b = d # b'"
        by (auto simp: prepend_Some split: option.splits)
      have "read_chars (rest @ t) = Some (b', r @ t)" using 2(2) [OF escape cs False b(1,2)] .
      with False escape cs b show ?thesis by (simp add: prepend_def)
    qed
  next
    case control
    then show ?thesis using prems by simp
  qed
qed simp

lemma number_more:
  "delimited t \<Longrightarrow> takeWhile number_char (s @ t) = takeWhile number_char s \<and>
     dropWhile number_char (s @ t) = dropWhile number_char s @ t"
  by (induction s) (cases t; auto simp: delimited_def)+

lemma take_more: "take n s = w \<Longrightarrow> length w = n \<Longrightarrow> take n (s @ t) = w \<and> drop n (s @ t) = drop n s @ t"
  by auto

lemma read_more:
  "\<lbrakk>read_value n s = Some (v, r); n \<le> m; delimited t\<rbrakk> \<Longrightarrow> read_value m (s @ t) = Some (v, r @ t)"
  "\<lbrakk>read_elements n s = Some (vs, r); n \<le> m; delimited t\<rbrakk> \<Longrightarrow> read_elements m (s @ t) = Some (vs, r @ t)"
  "\<lbrakk>read_members n s = Some (ms, r); n \<le> m; delimited t\<rbrakk> \<Longrightarrow> read_members m (s @ t) = Some (ms, r @ t)"
proof (induction n s and n s and n s arbitrary: v r m and vs r m and ms r m
    rule: read_value_read_elements_read_members.induct)
  case (2 n s)
  note prems = 2(3)
  from 2(4) obtain m' where m: "m = Suc m'" "n \<le> m'" by (cases m) simp_all
  from prems obtain c cs where s: "skip s = c # cs" by (cases "skip s") simp_all
  note st = skip_append [OF s, of t]
  consider (str) "c = CHR 0x22" | (arr) "c = CHR ''[''" | (obj) "c = CHR ''{''"
    | (num) "c \<notin> {CHR 0x22, CHR ''['', CHR ''{''}" "number_char c"
    | (lit) "c \<notin> {CHR 0x22, CHR ''['', CHR ''{''}" "\<not> number_char c" by blast
  then show ?case
  proof cases
    case str
    with prems s obtain b where "read_chars cs = Some (b, r)" "v = VString b" by (auto simp del: read_chars.simps)
    with str m(1) st read_chars_more show ?thesis by (simp del: read_chars.simps)
  next
    case arr
    with prems s obtain d ds where d: "skip cs = d # ds" by (cases "skip cs") simp_all
    show ?thesis
    proof (cases "d = CHR '']''")
      case True
      with arr prems s d m(1) st skip_append [OF d, of t] show ?thesis by simp
    next
      case False
      with arr prems s d obtain vs where vs: "read_elements n cs = Some (vs, r)" "v = VArr vs" by auto
      have "c \<noteq> CHR 0x22" using arr by simp
      from 2(1) [OF s this arr d False vs(1) m(2) 2(5)] show ?thesis
        using arr False d m(1) st skip_append [OF d, of t] vs(2) by simp
    qed
  next
    case obj
    with prems s obtain d ds where d: "skip cs = d # ds" by (cases "skip cs") simp_all
    show ?thesis
    proof (cases "d = CHR ''}''")
      case True
      with obj prems s d m(1) st skip_append [OF d, of t] show ?thesis by simp
    next
      case False
      with obj prems s d obtain ms where ms: "read_members n cs = Some (ms, r)" "v = VObj ms" by auto
      have "c \<noteq> CHR 0x22" "c \<noteq> CHR ''[''" using obj by simp_all
      from 2(2) [OF s this obj d False ms(1) m(2) 2(5)] show ?thesis
        using obj False d m(1) st skip_append [OF d, of t] ms(2) by simp
    qed
  next
    case num
    with prems s have "v = VNumber (takeWhile number_char (c # cs))" "r = dropWhile number_char (c # cs)" by auto
    with num m(1) st number_more [OF 2(5), of "c # cs"] show ?thesis by simp
  next
    case lit
    with prems s have "take 4 (c # cs) = ''true'' \<and> v = VBool True \<and> r = drop 4 (c # cs) \<or>
      take 5 (c # cs) = ''false'' \<and> v = VBool False \<and> r = drop 5 (c # cs) \<or>
      take 4 (c # cs) = ''null'' \<and> v = VNull \<and> r = drop 4 (c # cs)" (is "?T \<or> ?F \<or> ?N")
      by (simp del: take_Suc_Cons drop_Suc_Cons split: if_splits)
    moreover have "read_value m (s @ t) =
        (if take 4 ((c # cs) @ t) = ''true'' then Some (VBool True, drop 4 ((c # cs) @ t))
         else if take 5 ((c # cs) @ t) = ''false'' then Some (VBool False, drop 5 ((c # cs) @ t))
         else if take 4 ((c # cs) @ t) = ''null'' then Some (VNull, drop 4 ((c # cs) @ t)) else None)"
      using lit m(1) st by simp
    ultimately show ?thesis
      using take_more [of 4 "c # cs" "''true''" t] take_more [of 5 "c # cs" "''false''" t] take_more [of 4 "c # cs" "''null''" t]
      by (elim disjE) auto
  qed
next
  case (4 n s)
  from 4(4) obtain m' where m: "m = Suc m'" "n \<le> m'" by (cases m) simp_all
  from 4(3) obtain v r1 where v: "read_value n s = Some (v, r1)" by (cases "read_value n s") auto
  with 4(3) obtain d r2 where d: "skip r1 = d # r2" by (cases "skip r1") simp_all
  note IH = 4(1) [OF v m(2) 4(5)]
  show ?case
  proof (cases "d = CHR '',''")
    case True
    with 4(3) v d obtain us where us: "read_elements n r2 = Some (us, r)" "vs = v # us" by auto
    from 4(2) [OF v refl d True us(1) m(2) 4(5)] show ?thesis
      using True IH d m(1) skip_append [OF d, of t] us(2) by simp
  next
    case False
    with 4(3) v d have "d = CHR '']''" "vs = [v]" "r = r2" by (simp_all split: if_splits)
    with False IH m(1) skip_append [OF d, of t] show ?thesis by simp
  qed
next
  case (6 n s)
  from 6(4) obtain m' where m: "m = Suc m'" "n \<le> m'" by (cases m) simp_all
  from 6(3) obtain cs where s: "skip s = CHR 0x22 # cs" by (cases "skip s") (simp_all split: if_splits)
  with 6(3) obtain k r0 where k: "read_chars cs = Some (k, r0)" by (cases "read_chars cs") (auto simp del: read_chars.simps)
  with 6(3) s obtain r1 where c: "skip r0 = CHR '':'' # r1" by (cases "skip r0") (simp_all del: read_chars.simps split: if_splits)
  with 6(3) s k obtain v r2 where v: "read_value n r1 = Some (v, r2)"
    by (cases "read_value n r1") (auto simp del: read_chars.simps)
  with 6(3) s k c obtain e r3 where e: "skip r2 = e # r3" by (cases "skip r2") (simp_all del: read_chars.simps)
  note start = skip_append [OF s, of t] read_chars_more [OF k, of t] skip_append [OF c, of t] skip_append [OF e, of t]
  have IH: "read_value m' (r1 @ t) = Some (v, r2 @ t)"
    using 6(1) [OF s _ k refl c _ v m(2) 6(5)] by simp
  show ?case
  proof (cases "e = CHR '',''")
    case True
    with 6(3) s k c v e obtain us where us: "read_members n r3 = Some (us, r)" "ms = (k, v) # us"
      by (auto simp del: read_chars.simps)
    have "read_members m' (r3 @ t) = Some (us, r @ t)"
      using 6(2) [OF s _ k refl c _ v refl e True us(1) m(2) 6(5)] by simp
    with True start IH m(1) us(2) show ?thesis by (simp del: read_chars.simps)
  next
    case False
    with 6(3) s k c v e have "e = CHR ''}''" "ms = [(k, v)]" "r = r3"
      by (simp_all del: read_chars.simps split: if_splits)
    with False start IH m(1) show ?thesis by (simp del: read_chars.simps)
  qed
qed simp_all

section \<open>Strings of the encoder\<close>

text \<open>What a string reads as: every byte that is not part of valid UTF-8 becomes U+FFFD.\<close>

fun to_valid :: "bytes \<Rightarrow> bytes" where
  "to_valid [] = []"
| "to_valid (c # cs) =
     (if is_ascii c then c # to_valid cs
      else let n = utf8_size (c # cs)
           in if n = 0 then [CHR 0xEF, CHR 0xBF, CHR 0xBD] @ to_valid cs
              else take n (c # cs) @ to_valid (drop (n - 1) cs))"

lemma to_valid_ascii: "list_all is_ascii s \<Longrightarrow> to_valid s = s"
  by (induction s) simp_all

lemma hex_value_digit: "n < 16 \<Longrightarrow> hex_value (hex_digit n) = n"
proof -
  assume "n < 16"
  then consider "n < 10" | "n = 10" | "n = 11" | "n = 12" | "n = 13" | "n = 14" | "n = 15" by linarith
  then show ?thesis unfolding hex_value_def hex_digit_def by cases (simp_all add: Let_def)
qed

lemma read_ascii: "is_ascii c \<Longrightarrow> read_chars (json_ascii c @ t) = prepend [c] (read_chars t)"
proof -
  assume a: "is_ascii c"
  define n where "n = (of_char c :: nat)"
  have c: "c = char_of n" by (simp add: n_def)
  have n: "n < 128" using a by (simp add: is_ascii_def n_def)
  have plain: "read_chars (c # t) = prepend [c] (read_chars t)" if "c \<noteq> CHR 0x22" "c \<noteq> CHR 0x5C" "\<not> n < 32"
    using that by (simp add: n_def)
  consider "c = CHR 0x22 \<or> c = CHR 0x5C" | "c \<noteq> CHR 0x22" "c \<noteq> CHR 0x5C" "n \<in> {8, 12, 10, 13, 9}"
    | "c \<noteq> CHR 0x22" "c \<noteq> CHR 0x5C" "n \<notin> {8, 12, 10, 13, 9}" "n < 32 \<or> c \<in> {CHR ''<'', CHR ''>'', CHR ''&''}"
    | "c \<noteq> CHR 0x22" "c \<noteq> CHR 0x5C" "\<not> n < 32" "c \<notin> {CHR ''<'', CHR ''>'', CHR ''&''}" by blast
  then show ?thesis
  proof cases
    case 1
    then have "json_ascii c = [CHR 0x5C, c]" "escaped c = Some c" "c \<noteq> CHR ''u''"
      by (auto simp: json_ascii_def Let_def escaped_def)
    then show ?thesis by simp
  next
    case 2
    have ch: "char_of (8 :: nat) = CHR 0x08" "char_of (12 :: nat) = CHR 0x0C" "char_of (10 :: nat) = CHR 0x0A"
      "char_of (13 :: nat) = CHR 0x0D" "char_of (9 :: nat) = CHR 0x09" by code_simp+
    from 2(3) have "c \<in> {CHR 0x08, CHR 0x0C, CHR 0x0A, CHR 0x0D, CHR 0x09}"
      unfolding c by (elim insertE emptyE) (simp_all only: ch insert_iff simp_thms)
    then show ?thesis by (elim insertE emptyE) (simp_all add: json_ascii_def Let_def escaped_def)
  next
    case 3
    then have "json_ascii c = [CHR 0x5C, CHR ''u'', CHR ''0'', CHR ''0'', hex_digit (n div 16), hex_digit (n mod 16)]"
      by (simp add: json_ascii_def Let_def n_def)
    moreover have "utf8_encode n = [c]" using n by (simp add: utf8_encode_def c)
    moreover have "hex_value (CHR ''0'') = 0" by (simp add: hex_value_def)
    moreover have "(n div 16) * 16 + n mod 16 = n" by simp
    moreover have "n div 16 < 16" using n by simp
    ultimately show ?thesis by (simp add: hex_value_digit)
  next
    case 4
    then have "json_ascii c = [c]" using n by (auto simp: json_ascii_def Let_def n_def)
    with 4 plain show ?thesis by simp
  qed
qed

lemma prepend_prepend: "prepend a (prepend b res) = prepend (a @ b) res"
  by (cases res) (auto simp: prepend_def)

lemma prepend_Nil: "prepend [] res = res"
  by (cases res) (auto simp: prepend_def)

lemma read_high: "list_all (\<lambda>c. \<not> is_ascii c) bs \<Longrightarrow> read_chars (bs @ t) = prepend bs (read_chars t)"
proof (induction bs)
  case Nil
  then show ?case by (simp add: prepend_Nil)
next
  case (Cons c bs)
  then have "read_chars ((c # bs) @ t) = prepend [c] (read_chars (bs @ t))" by (auto simp: is_ascii_def)
  with Cons show ?case by (simp add: prepend_prepend del: read_chars.simps)
qed

lemma utf8_high: "list_all (\<lambda>c. \<not> is_ascii c) (take (utf8_size s) s)"
proof (cases s)
  case (Cons a t)
  note a = Cons
  show ?thesis
  proof (cases t)
    case (Cons b rest)
    then show ?thesis unfolding a
      by (auto simp: utf8_size_def Let_def byte_in_def is_ascii_def numeral_eq_Suc split: list.splits if_splits)
  qed (simp add: a utf8_size_def)
qed (simp add: utf8_size_def)



lemma read_escape:
  "read_chars (CHR 0x5C # CHR ''u'' # w # x # y # z # t) =
     prepend (utf8_encode (((hex_value w * 16 + hex_value x) * 16 + hex_value y) * 16 + hex_value z)) (read_chars t)"
  by simp

lemma read_replacement:
  "read_chars (CHR 0x5C # CHR ''u'' # CHR ''f'' # CHR ''f'' # CHR ''f'' # CHR ''d'' # t) =
     prepend [CHR 0xEF, CHR 0xBF, CHR 0xBD] (read_chars t)"
proof -
  have "hex_value (CHR ''f'') = 15" "hex_value (CHR ''d'') = 13" by (simp_all add: hex_value_def)
  then have n: "((hex_value (CHR ''f'') * 16 + hex_value (CHR ''f'')) * 16 + hex_value (CHR ''f'')) * 16 + hex_value (CHR ''d'') = 65533"
    by simp
  have "utf8_encode 65533 = [CHR 0xEF, CHR 0xBF, CHR 0xBD]"
    by (simp add: utf8_encode_def char_of_def bit_iff_odd)
  with n show ?thesis by (simp only: read_escape)
qed

lemma read_separator:
  assumes "line_separator r"
  shows "read_chars (CHR 0x5C # CHR ''u'' # CHR ''2'' # CHR ''0'' # CHR ''2'' #
      (if last r = CHR 0xA8 then CHR ''8'' else CHR ''9'') # t) = prepend r (read_chars t)"
proof -
  have "hex_value (CHR ''2'') = 2" "hex_value (CHR ''0'') = 0" "hex_value (CHR ''8'') = 8" "hex_value (CHR ''9'') = 9"
    by (simp_all add: hex_value_def)
  then have n: "((hex_value (CHR ''2'') * 16 + hex_value (CHR ''0'')) * 16 + hex_value (CHR ''2'')) * 16 + hex_value (CHR ''8'') = 8232"
    "((hex_value (CHR ''2'') * 16 + hex_value (CHR ''0'')) * 16 + hex_value (CHR ''2'')) * 16 + hex_value (CHR ''9'') = 8233"
    by simp_all
  have "utf8_encode 8232 = [CHR 0xE2, CHR 0x80, CHR 0xA8]" "utf8_encode 8233 = [CHR 0xE2, CHR 0x80, CHR 0xA9]"
    by (simp_all add: utf8_encode_def char_of_def bit_iff_odd)
  with n have "last r = CHR 0xA8 \<Longrightarrow> r = [CHR 0xE2, CHR 0x80, CHR 0xA8] \<Longrightarrow> ?thesis"
    "last r \<noteq> CHR 0xA8 \<Longrightarrow> r = [CHR 0xE2, CHR 0x80, CHR 0xA9] \<Longrightarrow> ?thesis"
    by (simp_all only: read_escape if_True if_False simp_thms)
  with assms show ?thesis by (auto simp: line_separator_def)
qed

lemma read_json_chars: "read_chars (json_chars s @ t) = prepend (to_valid s) (read_chars t)"
proof (induction s rule: json_chars.induct)
  case 1
  then show ?case by (simp add: prepend_Nil)
next
  case (2 c cs)
  define n where "n = utf8_size (c # cs)"
  show ?case
  proof (cases "is_ascii c")
    case True
    with 2(1) show ?thesis using read_ascii [OF True, of "json_chars cs @ t"]
      by (simp add: prepend_prepend del: read_chars.simps)
  next
    case high: False
    note IH = 2(2,3,4) [OF high n_def refl refl]
    consider "n = 0" | "n \<noteq> 0" "line_separator (take n (c # cs))" | "n \<noteq> 0" "\<not> line_separator (take n (c # cs))" by blast
    then show ?thesis
    proof cases
      case 1
      with IH(1) high show ?thesis
        by (simp add: n_def [symmetric] Let_def prepend_prepend read_replacement del: read_chars.simps)
    next
      case 2
      have "json_chars (c # cs) = CHR 0x5C # ''u202'' @ [if last (take n (c # cs)) = CHR 0xA8 then CHR ''8'' else CHR ''9''] @
          json_chars (drop (n - 1) cs)"
        using 2 high by (simp add: n_def [symmetric] Let_def)
      then have "read_chars (json_chars (c # cs) @ t) = prepend (take n (c # cs)) (read_chars (json_chars (drop (n - 1) cs) @ t))"
        using read_separator [OF 2(2), of "json_chars (drop (n - 1) cs) @ t"] by (simp only: append.simps append_assoc)
      moreover have "to_valid (c # cs) = take n (c # cs) @ to_valid (drop (n - 1) cs)"
        using 2 high by (simp add: n_def [symmetric] Let_def)
      ultimately show ?thesis using IH(2) 2 by (simp only: prepend_prepend simp_thms)
    next
      case 3
      have "read_chars (take n (c # cs) @ u) = prepend (take n (c # cs)) (read_chars u)" for u
        unfolding n_def by (rule read_high [OF utf8_high])
      with 3 IH(3) high show ?thesis
        by (simp add: n_def [symmetric] Let_def prepend_prepend del: read_chars.simps take_Cons')
    qed
  qed
qed

lemma read_json_string: "read_chars (json_chars s @ CHR 0x22 # t) = Some (to_valid s, t)"
  by (simp add: read_json_chars prepend_def)

end
