(* ===== verification/Http_Json.thy ===== *)
theory Http_Json
  imports Http_Request Json_Read
begin

text \<open>
  What the server writes is JSON: every text the encoder prints belongs to the grammar of
  \<^verbatim>\<open>Json_Grammar\<close>, whatever strings it contains, so that the decoder of requests would read it back as
  one value.
\<close>

section \<open>Strings and numbers\<close>

lemma digit_char: "(n :: nat) < 10 \<Longrightarrow> is_digit (char_of (48 + n)) \<and> (char_of (48 + n) = CHR ''0'' \<longleftrightarrow> n = 0)"
proof -
  assume n: "n < 10"
  have "char_of (48 + n) = CHR ''0'' \<longleftrightarrow> (48 + n) mod 256 = 48"
    by (subst of_char_eq_iff [where 'a = nat, symmetric]) simp
  with n show ?thesis by (simp add: is_digit_def)
qed

lemma hex_digit_hex: "n < 16 \<Longrightarrow> json_hex (hex_digit n)"
proof -
  assume "n < 16"
  then consider "n < 10" | "n = 10" | "n = 11" | "n = 12" | "n = 13" | "n = 14" | "n = 15" by linarith
  then show ?thesis unfolding json_hex_def hex_digit_def
    by cases (use digit_char in \<open>simp_all add: char_of_def bit_0\<close>)
qed

lemma string_body_ascii: "is_ascii c \<Longrightarrow> string_body (json_ascii c)"
  using hex_digit_hex [of "of_char c div 16"] hex_digit_hex [of "of_char c mod 16"]
  by (auto simp: json_ascii_def Let_def is_ascii_def json_hex_def is_digit_def)

lemma string_body_high: "list_all (\<lambda>c. \<not> is_ascii c) r \<Longrightarrow> string_body r"
  by (induction r) (auto simp: is_ascii_def)

lemma string_body_chars: "string_body (json_chars s)"
proof (induction s rule: json_chars.induct)
  case (2 c cs)
  define n where "n = utf8_size (c # cs)"
  show ?case
  proof (cases "is_ascii c")
    case True
    with 2(1) show ?thesis by (simp add: string_body_append string_body_ascii)
  next
    case high: False
    note IH = 2(2,3,4) [OF high n_def refl refl]
    consider "n = 0" | "n \<noteq> 0" "line_separator (take n (c # cs))" | "n \<noteq> 0" "\<not> line_separator (take n (c # cs))" by blast
    then show ?thesis
    proof cases
      case 1
      with IH(1) high show ?thesis by (simp add: n_def [symmetric] Let_def json_hex_def is_digit_def)
    next
      case 2
      with IH(2) high show ?thesis by (simp add: n_def [symmetric] Let_def json_hex_def is_digit_def)
    next
      case 3
      have "string_body (take n (c # cs))" unfolding n_def by (rule string_body_high [OF utf8_high])
      with 3 IH(3) high show ?thesis by (simp add: n_def [symmetric] Let_def string_body_append)
    qed
  qed
qed simp

lemma json_string_text: "json_text d (json_string s)"
  using string_value [OF string_body_chars] by (simp add: json_string_def quoted_def)

lemma nat_digits_digits: "digits (nat_digits n) \<and> (0 < n \<longrightarrow> hd (nat_digits n) \<noteq> CHR ''0'')"
proof (induction n rule: nat_digits.induct)
  case (1 n)
  show ?case
  proof (cases "n < 10")
    case True
    then show ?thesis using digit_char [of n] by (subst (1 2) nat_digits.simps) (simp add: digits_def)
  next
    case False
    with 1 have "digits (nat_digits (n div 10))" "hd (nat_digits (n div 10)) \<noteq> CHR ''0''" by simp_all
    moreover from this have "nat_digits (n div 10) \<noteq> []" by (simp add: digits_def)
    ultimately show ?thesis using False digit_char [of "n mod 10"]
      by (subst (1 2) nat_digits.simps) (simp add: digits_def)
  qed
qed

lemma Itoa_number: "json_number (Itoa i)"
proof -
  have z: "nat_digits 0 = ''0''" by code_simp
  have "integer_part (nat_digits n)" for n
    using nat_digits_digits [of n] z by (cases "n = 0") (auto simp: integer_part_def)
  then show ?thesis unfolding json_number_def Itoa_def
    by (intro exI [of _ "if i < 0 then ''-'' else ''''"] exI [of _ "nat_digits (nat \<bar>i\<bar>)"] exI [of _ "''''"])
      (simp add: fraction_def exponent_def)
qed

section \<open>Arrays and objects\<close>

lemma json_text_deeper: "json_text d w \<Longrightarrow> d \<le> e \<Longrightarrow> json_text e w"
  and "json_elements d w \<Longrightarrow> d \<le> e \<Longrightarrow> json_elements e w"
  and "json_members d w \<Longrightarrow> d \<le> e \<Longrightarrow> json_members e w"
proof (induction arbitrary: e and e and e rule: json_text_json_elements_json_members.inducts)
  case (empty_array w d)
  then show ?case by (cases e) (auto intro: json_text_json_elements_json_members.intros)
next
  case (array d w)
  then show ?case by (cases e) (auto intro: json_text_json_elements_json_members.intros)
next
  case (empty_object w d)
  then show ?case by (cases e) (auto intro: json_text_json_elements_json_members.intros)
next
  case (object d w)
  then show ?case by (cases e) (auto intro: json_text_json_elements_json_members.intros)
qed (blast intro: json_text_json_elements_json_members.intros)+

lemma Join_elements: "ws \<noteq> [] \<Longrightarrow> \<forall>w \<in> set ws. json_text d w \<Longrightarrow> json_elements d (Join ws '','')"
proof (induction ws)
  case (Cons w ws)
  show ?case
  proof (cases ws)
    case Nil
    with Cons(3) show ?thesis using one_element [of "[]" d w "[]"] by simp
  next
    case (Cons v vs)
    with Cons.IH Cons.prems show ?thesis using more_elements [of "[]" d w "[]" "Join ws '',''"]
      by (simp add: Join_Cons)
  qed
qed simp

lemma Join_members:
  "kvs \<noteq> [] \<Longrightarrow> \<forall>(k, w) \<in> set kvs. json_text d w \<Longrightarrow>
   json_members d (Join (map (\<lambda>(k, w). json_string k @ CHR '':'' # w) kvs) '','')"
proof (induction kvs)
  case (Cons kw kvs)
  obtain k w where kw: "kw = (k, w)" by (cases kw)
  with Cons(3) have w: "json_text d w" by simp
  have k: "json_string k = quoted (json_chars k)" by (simp add: json_string_def quoted_def)
  show ?case
  proof (cases kvs)
    case Nil
    with w kw k show ?thesis using one_member [of "[]" "json_chars k" "[]" "[]" d w "[]"] string_body_chars by simp
  next
    case (Cons v vs)
    with Cons.IH Cons.prems w kw k show ?thesis
      using more_members [of "[]" "json_chars k" "[]" "[]" d w "[]"
          "Join (map (\<lambda>(k, w). json_string k @ CHR '':'' # w) kvs) '',''"] string_body_chars
      by (simp add: Join_Cons)
  qed
qed simp

lemma json_text_scalar:
  "json_text d (json_print (JBool b))" "json_text d (json_print (JInt i))" "json_text d (json_print (JString s))"
  using literal [of "''true''" d] literal [of "''false''" d] number [OF Itoa_number, of d i] json_string_text [of d s]
  by (simp_all add: json_literal_def)

lemma json_text_array:
  assumes "\<forall>v \<in> set vs. json_text d (json_print v)"
  shows "json_text (Suc d) (json_print (JArr vs))"
  using assms empty_array [of "[]" d] array [OF Join_elements [of "map json_print vs" d]]
  by (cases "vs = []") simp_all

lemma json_text_object:
  assumes "\<forall>(k, v) \<in> set kvs. json_text d (json_print v)"
  shows "json_text (Suc d) (json_print (JObj kvs))"
proof (cases "kvs = []")
  case False
  have "map (\<lambda>(k, v). json_string k @ CHR '':'' # json_print v) kvs =
    map (\<lambda>(k, w). json_string k @ CHR '':'' # w) (map (\<lambda>(k, v). (k, json_print v)) kvs)" by auto
  moreover have "json_members d (Join (map (\<lambda>(k, w). json_string k @ CHR '':'' # w) (map (\<lambda>(k, v). (k, json_print v)) kvs)) '','')"
    using False assms by (intro Join_members) auto
  ultimately have "json_members d (Join (map (\<lambda>(k, v). json_string k @ CHR '':'' # json_print v) kvs) '','')" by (simp only:)
  from object [OF this] show ?thesis by simp
qed (use empty_object [of "[]" d] in simp)

lemmas json_texts = json_text_scalar json_text_array json_text_object

section \<open>The envelopes\<close>

lemma ErrorResponse_text: "json_text 4 (json_print (ErrorResponse success st e))"
proof -
  have "json_text 1 (json_print (FieldError v))" for v
    using json_text_scalar unfolding FieldError_def One_nat_def
    by (intro json_text_object) (simp del: json_print.simps)
  then have "json_text 2 (json_print (JArr (map FieldError (ed_details e))))"
    using json_text_array [of "map FieldError (ed_details e)" 1] by (simp add: numeral_2_eq_2)
  then have "json_text 3 (json_print (JObj ([(''code'', JString (ed_code e))] @
              omitempty (ed_details e = []) ''details'' (JArr (map FieldError (ed_details e))) @
              [(''message'', JString (ed_message e))] @
              omitempty (ed_request_id e = []) ''request_id'' (JString (ed_request_id e)))))"
    using json_text_scalar unfolding numeral_3_eq_3 numeral_2_eq_2
    by (intro json_text_object) (auto simp: omitempty_def simp del: json_print.simps)
  moreover have "4 = Suc 3" by simp
  ultimately show ?thesis using json_text_scalar unfolding ErrorResponse_def
    by (simp only:) (intro json_text_object, simp del: json_print.simps)
qed

lemma SuccessResponse_text:
  assumes "SuccessResponse st message (Inr d) meta = Inr encoded" "json_text (Suc n) d"
  shows "json_text (Suc (Suc n)) encoded"
proof -
  have "json_text (Suc n) (json_print (PaginationMeta m))" for m
    using json_text_scalar unfolding PaginationMeta_def by (intro json_text_object) (simp del: json_print.simps)
  moreover have "json_text (Suc n) (json_print (JRaw d))" using assms(2) by simp
  ultimately show ?thesis using assms json_text_scalar unfolding SuccessResponse_def
    by (auto simp: omitempty_def simp del: json_print.simps split: option.splits if_splits intro!: json_text_object)
qed

lemma Decode_line: "json_text d v \<Longrightarrow> d \<le> max_nesting \<Longrightarrow> Decode_raw None (v @ [CHR 0x0A]) = Value v [CHR 0x0A]"
  using Decode_text [of d v "[]" "[CHR 0x0A]" None] space_delimiter [of "CHR 0x0A"] by (simp add: json_space_def)

section \<open>What the encoder prints reads as its value\<close>

fun value_of :: "json \<Rightarrow> jvalue" where
  "value_of (JBool b) = VBool b"
| "value_of (JInt i) = VNumber (Itoa i)"
| "value_of (JString s) = VString (to_valid s)"
| "value_of (JRaw s) = the (read_json s)"
| "value_of (JArr vs) = VArr (map value_of vs)"
| "value_of (JObj kvs) = VObj (map (\<lambda>(k, v). (to_valid k, value_of v)) kvs)"

fun readable :: "json \<Rightarrow> bool" where
  "readable (JRaw s) = (read_json s \<noteq> None)"
| "readable (JArr vs) = (\<forall>v \<in> set vs. readable v)"
| "readable (JObj kvs) = (\<forall>(k, v) \<in> set kvs. readable v)"
| "readable _ = True"

definition prints_as :: "json \<Rightarrow> bool" where
  "prints_as v \<longleftrightarrow>
     (\<forall>n t. delimited t \<longrightarrow> length (json_print v) < n \<longrightarrow> read_value n (json_print v @ t) = Some (value_of v, t))"

lemma prints_asD: "prints_as v \<Longrightarrow> delimited t \<Longrightarrow> length (json_print v) < n \<Longrightarrow> read_value n (json_print v @ t) = Some (value_of v, t)"
  by (simp add: prints_as_def)

lemma not_number [simp]:
  "\<not> number_char (CHR '','')" "\<not> number_char (CHR '']'')" "\<not> number_char (CHR ''}'')" "\<not> number_char (CHR 0x0A)"
  "\<not> number_char (CHR 0x22)" "\<not> number_char (CHR ''['')" "\<not> number_char (CHR ''{'')" "\<not> number_char (CHR ''t'')"
  "\<not> number_char (CHR ''f'')"
  by (simp_all add: number_char_def is_digit_def)

lemma skip_plain [simp]: "\<not> read_space c \<Longrightarrow> skip (c # cs) = c # cs"
  by (simp add: skip_def)

lemma not_space [simp]:
  "\<not> read_space (CHR '','')" "\<not> read_space (CHR '']'')" "\<not> read_space (CHR ''}'')" "\<not> read_space (CHR '':'')"
  "\<not> read_space (CHR 0x22)" "\<not> read_space (CHR ''['')" "\<not> read_space (CHR ''{'')" "\<not> read_space (CHR ''t'')"
  "\<not> read_space (CHR ''f'')"
  by (simp_all add: read_space_def)

lemma read_value_starts: "read_value n s = Some x \<Longrightarrow> \<exists>c cs. skip s = c # cs \<and> c \<noteq> CHR '']''"
  by (cases n; cases "skip s") (auto simp: number_char_def is_digit_def)

lemma prints_scalar: "prints_as (JBool b)" "prints_as (JString s)"
proof -
  show "prints_as (JBool b)" unfolding prints_as_def
  proof (intro allI impI)
    fix n t assume "length (json_print (JBool b)) < n"
    then obtain n' where "n = Suc n'" by (cases n) simp_all
    then show "read_value n (json_print (JBool b) @ t) = Some (value_of (JBool b), t)" by simp
  qed
  show "prints_as (JString s)" unfolding prints_as_def
  proof (intro allI impI)
    fix n t assume "length (json_print (JString s)) < n"
    then obtain n' where "n = Suc n'" by (cases n) simp_all
    then show "read_value n (json_print (JString s) @ t) = Some (value_of (JString s), t)"
      by (simp add: json_string_def read_json_string del: read_chars.simps)
  qed
qed

lemma Itoa_chars: "list_all number_char (Itoa i) \<and> Itoa i \<noteq> []"
proof -
  have "digits (nat_digits n)" for n using nat_digits_digits [of n] by simp
  then show ?thesis by (auto simp: Itoa_def digits_def number_char_def list_all_iff)
qed

lemma prints_int: "prints_as (JInt i)"
  unfolding prints_as_def
proof (intro allI impI)
  fix n t assume t: "delimited t" and n: "length (json_print (JInt i)) < n"
  from n obtain n' where n': "n = Suc n'" by (cases n) simp_all
  obtain c cs where i: "Itoa i = c # cs" using Itoa_chars [of i] by (cases "Itoa i") auto
  have c: "number_char c" "list_all number_char (c # cs)" using Itoa_chars [of i] i by simp_all
  then have "\<not> read_space c" "c \<noteq> CHR 0x22" "c \<noteq> CHR ''[''" "c \<noteq> CHR ''{''"
    by (auto simp: number_char_def read_space_def is_digit_def)
  moreover have "takeWhile number_char ((c # cs) @ t) = c # cs \<and> dropWhile number_char ((c # cs) @ t) = t"
    using number_more [OF t, of "c # cs"] c(2) takeWhile_eq_all_conv [of number_char "c # cs"] dropWhile_eq_Nil_conv [of number_char "c # cs"]
    by (simp add: list_all_iff)
  ultimately show "read_value n (json_print (JInt i) @ t) = Some (value_of (JInt i), t)"
    using c(1) i n' by simp
qed

lemma prints_raw: "read_json s \<noteq> None \<Longrightarrow> prints_as (JRaw s)"
proof -
  assume "read_json s \<noteq> None"
  then obtain v where v: "read_value (Suc (length s)) s = Some (v, [])" "read_json s = Some v"
    by (auto simp: read_json_def split: option.splits list.splits)
  then show ?thesis using read_more(1) [OF v(1)] by (auto simp: prints_as_def Suc_le_eq)
qed

lemma read_printed_elements:
  assumes "vs \<noteq> []" "\<forall>v \<in> set vs. prints_as v" "Suc (length (Join (map json_print vs) '','')) < n"
  shows "read_elements n (Join (map json_print vs) '','' @ CHR '']'' # t) = Some (map value_of vs, t)"
  using assms
proof (induction vs arbitrary: n)
  case (Cons v vs)
  then obtain n' where n: "n = Suc n'" by (cases n) simp_all
  have v: "prints_as v" using Cons.prems(2) by simp
  show ?case
  proof (cases vs)
    case Nil
    then show ?thesis using prints_asD [OF v, of "CHR '']'' # t" n'] Cons.prems(3) n by (simp add: delimited_def)
  next
    case (Cons w ws)
    let ?rest = "Join (map json_print vs) '',''"
    have j: "Join (map json_print (v # vs)) '','' = json_print v @ CHR '','' # ?rest" using Cons by (simp add: Join_Cons)
    have "read_elements n' (?rest @ CHR '']'' # t) = Some (map value_of vs, t)"
      using Cons.IH Cons.prems(2,3) Cons n j by auto
    then show ?thesis using prints_asD [OF v, of "CHR '','' # ?rest @ CHR '']'' # t" n'] Cons.prems(3) n j
      by (simp add: delimited_def)
  qed
qed simp

lemma prints_array: "\<forall>v \<in> set vs. prints_as v \<Longrightarrow> prints_as (JArr vs)"
  unfolding prints_as_def [of "JArr vs"]
proof (intro allI impI)
  fix n t assume vs: "\<forall>v \<in> set vs. prints_as v" and n: "length (json_print (JArr vs)) < n"
  from n obtain n' where n': "n = Suc n'" by (cases n) simp_all
  show "read_value n (json_print (JArr vs) @ t) = Some (value_of (JArr vs), t)"
  proof (cases "vs = []")
    case False
    have e: "read_elements n' (Join (map json_print vs) '','' @ CHR '']'' # t) = Some (map value_of vs, t)"
      using read_printed_elements [OF False vs] n n' by simp
    then obtain m x where "n' = Suc m" "read_value m (Join (map json_print vs) '','' @ CHR '']'' # t) = Some x"
      by (cases n') (auto split: option.splits)
    then obtain c cs where "skip (Join (map json_print vs) '','' @ CHR '']'' # t) = c # cs" "c \<noteq> CHR '']''"
      using read_value_starts by blast
    with e n' show ?thesis by simp
  qed (use n' in simp)
qed

lemma read_printed_members:
  assumes "kvs \<noteq> []" "\<forall>(k, v) \<in> set kvs. prints_as v"
    and "Suc (length (Join (map (\<lambda>(k, v). json_string k @ CHR '':'' # json_print v) kvs) '','')) < n"
  shows "read_members n (Join (map (\<lambda>(k, v). json_string k @ CHR '':'' # json_print v) kvs) '','' @ CHR ''}'' # t) =
    Some (map (\<lambda>(k, v). (to_valid k, value_of v)) kvs, t)"
  using assms
proof (induction kvs arbitrary: n)
  case (Cons kv kvs)
  obtain k v where kv: "kv = (k, v)" by (cases kv)
  from Cons.prems(3) obtain n' where n: "n = Suc n'" by (cases n) simp_all
  have v: "prints_as v" using Cons.prems(2) kv by simp
  show ?case
  proof (cases kvs)
    case Nil
    then show ?thesis using prints_asD [OF v, of "CHR ''}'' # t" n'] Cons.prems(3) n kv
      by (simp add: delimited_def json_string_def read_json_string del: read_chars.simps)
  next
    case (Cons w ws)
    let ?rest = "Join (map (\<lambda>(k, v). json_string k @ CHR '':'' # json_print v) kvs) '',''"
    have j: "Join (map (\<lambda>(k, v). json_string k @ CHR '':'' # json_print v) (kv # kvs)) '','' =
        json_string k @ CHR '':'' # json_print v @ CHR '','' # ?rest" using Cons kv by (simp add: Join_Cons)
    have "Suc (length ?rest) < n'" using Cons.prems(3) n unfolding j by simp
    then have "read_members n' (?rest @ CHR ''}'' # t) = Some (map (\<lambda>(k, v). (to_valid k, value_of v)) kvs, t)"
      using Cons.IH Cons.prems(2) Cons by auto
    moreover have "read_value n' (json_print v @ CHR '','' # ?rest @ CHR ''}'' # t) = Some (value_of v, CHR '','' # ?rest @ CHR ''}'' # t)"
      using prints_asD [OF v] Cons.prems(3) n unfolding j by (simp add: delimited_def)
    ultimately show ?thesis using n kv unfolding j
      by (simp add: json_string_def read_json_string del: read_chars.simps)
  qed
qed simp

lemma prints_object: "\<forall>(k, v) \<in> set kvs. prints_as v \<Longrightarrow> prints_as (JObj kvs)"
  unfolding prints_as_def [of "JObj kvs"]
proof (intro allI impI)
  fix n t assume vs: "\<forall>(k, v) \<in> set kvs. prints_as v" and n: "length (json_print (JObj kvs)) < n"
  from n obtain n' where n': "n = Suc n'" by (cases n) simp_all
  show "read_value n (json_print (JObj kvs) @ t) = Some (value_of (JObj kvs), t)"
  proof (cases kvs)
    case (Cons kv rest)
    let ?text = "Join (map (\<lambda>(k, v). json_string k @ CHR '':'' # json_print v) kvs) '',''"
    have "read_members n' (?text @ CHR ''}'' # t) = Some (map (\<lambda>(k, v). (to_valid k, value_of v)) kvs, t)"
      using read_printed_members [OF _ vs] n n' Cons by simp
    moreover have "\<exists>cs. ?text = CHR 0x22 # cs" using Cons
      by (cases rest) (auto simp: Join_Cons json_string_def split: prod.splits)
    ultimately show ?thesis using n' by auto
  qed (use n' in simp)
qed

lemma readable_prints: "readable v \<Longrightarrow> prints_as v"
  by (induction v rule: value_of.induct)
    (auto intro!: prints_scalar prints_int prints_raw prints_array prints_object)

lemma read_printed: "readable v \<Longrightarrow> read_json (json_print v) = Some (value_of v)"
  using prints_asD [OF readable_prints, of v "[]" "Suc (length (json_print v))"] by (simp add: read_json_def delimited_def)

text \<open>
  C12. A client reads the envelopes as they are meant. Whatever strings, codes, details and identifiers
  an error response holds, and whatever message and page an envelope of success holds around the
  encoding of a value, the line that is sent is one JSON value for the decoder of requests, with
  nothing but the line end after it; and a reader of JSON gets from it an object with exactly these
  members in this order: for an error, false for success, the status, and the error with its code,
  its details (field and message each, when there are any), its message and the request identifier
  (when there is one); for a success, true, the status, the message (when there is one), the value,
  and the page, limit and totals (when there are). The strings are those that were given, with bytes
  that are not valid UTF-8 replaced.
\<close>

theorem envelopes_decode:
  assumes "json_text (Suc n) d" and "Suc n < max_nesting" and "read_json d = Some data"
    and "SuccessResponse st message (Inr d) meta = Inr encoded"
  shows "Decode_raw (None :: gerror option) (encoded @ [CHR 0x0A]) = Value encoded [CHR 0x0A] \<and>
    Decode_raw (None :: gerror option) (json_print (ErrorResponse False st e) @ [CHR 0x0A]) =
      Value (json_print (ErrorResponse False st e)) [CHR 0x0A] \<and>
    read_json encoded = Some (VObj (
      [(''success'', VBool True), (''status'', VNumber (Itoa st))] @
      (if message = [] then [] else [(''message'', VString (to_valid message))]) @
      [(''data'', data)] @
      (case meta of None \<Rightarrow> []
       | Some m \<Rightarrow> [(''meta'', VObj [(''page'', VNumber (Itoa (pm_page m))), (''limit'', VNumber (Itoa (pm_limit m))),
           (''total_records'', VNumber (Itoa (pm_total m))), (''total_pages'', VNumber (Itoa (pm_pages m)))])]))) \<and>
    read_json (json_print (ErrorResponse False st e)) = Some (VObj
      [(''success'', VBool False), (''status'', VNumber (Itoa st)),
       (''error'', VObj (
          [(''code'', VString (to_valid (ed_code e)))] @
          (if ed_details e = [] then []
           else [(''details'', VArr (map (\<lambda>v. VObj [(''field'', VString (to_valid (Field v))),
                    (''message'', VString (to_valid (Message v)))]) (ed_details e)))]) @
          [(''message'', VString (to_valid (ed_message e)))] @
          (if ed_request_id e = [] then [] else [(''request_id'', VString (to_valid (ed_request_id e)))])))])"
proof (intro conjI)
  show "Decode_raw (None :: gerror option) (encoded @ [CHR 0x0A]) = Value encoded [CHR 0x0A]"
    using SuccessResponse_text [OF assms(4,1)] assms(2) by (intro Decode_line) auto
  show "Decode_raw (None :: gerror option) (json_print (ErrorResponse False st e) @ [CHR 0x0A]) =
      Value (json_print (ErrorResponse False st e)) [CHR 0x0A]"
    using ErrorResponse_text by (intro Decode_line) (auto simp: max_nesting_def)
  have names: "to_valid k = k" if "k \<in> {''success'', ''status'', ''message'', ''data'', ''meta'', ''page'', ''limit'',
      ''total_records'', ''total_pages'', ''error'', ''code'', ''details'', ''field'', ''request_id''}" for k
    using that by (intro to_valid_ascii) (auto simp: is_ascii_def)
  have "readable (ErrorResponse False st e)" by (auto simp: ErrorResponse_def FieldError_def omitempty_def)
  from read_printed [OF this] show "read_json (json_print (ErrorResponse False st e)) = Some (VObj
      [(''success'', VBool False), (''status'', VNumber (Itoa st)),
       (''error'', VObj (
          [(''code'', VString (to_valid (ed_code e)))] @
          (if ed_details e = [] then []
           else [(''details'', VArr (map (\<lambda>v. VObj [(''field'', VString (to_valid (Field v))),
                    (''message'', VString (to_valid (Message v)))]) (ed_details e)))]) @
          [(''message'', VString (to_valid (ed_message e)))] @
          (if ed_request_id e = [] then [] else [(''request_id'', VString (to_valid (ed_request_id e)))])))])"
    by (simp add: ErrorResponse_def FieldError_def omitempty_def names comp_def del: to_valid.simps json_print.simps)
  let ?v = "JObj ([(''success'', JBool True), (''status'', JInt st)] @
       omitempty (message = []) ''message'' (JString message) @ [(''data'', JRaw d)] @
       (case meta of None \<Rightarrow> [] | Some m \<Rightarrow> [(''meta'', PaginationMeta m)]))"
  have "readable ?v" using assms(3) by (auto simp: omitempty_def PaginationMeta_def split: option.split)
  moreover have "encoded = json_print ?v" using assms(4) by (simp add: SuccessResponse_def)
  ultimately show "read_json encoded = Some (VObj (
      [(''success'', VBool True), (''status'', VNumber (Itoa st))] @
      (if message = [] then [] else [(''message'', VString (to_valid message))]) @
      [(''data'', data)] @
      (case meta of None \<Rightarrow> []
       | Some m \<Rightarrow> [(''meta'', VObj [(''page'', VNumber (Itoa (pm_page m))), (''limit'', VNumber (Itoa (pm_limit m))),
           (''total_records'', VNumber (Itoa (pm_total m))), (''total_pages'', VNumber (Itoa (pm_pages m)))])])))"
    using read_printed [of ?v] assms(3)
    by (simp add: omitempty_def PaginationMeta_def names del: to_valid.simps json_print.simps split: option.split)
qed

theorem envelopes_decode_witness:
  "\<exists>encoded. SuccessResponse 200 [CHR 0x22, CHR 0xFF] (Inr ''[1, {} ]'') None = Inr encoded \<and>
     read_json encoded = Some (VObj [(''success'', VBool True), (''status'', VNumber ''200''),
       (''message'', VString [CHR 0x22, CHR 0xEF, CHR 0xBF, CHR 0xBD]), (''data'', VArr [VNumber ''1'', VObj []])])"
proof -
  obtain encoded where e: "SuccessResponse 200 [CHR 0x22, CHR 0xFF] (Inr ''[1, {} ]'') None = Inr encoded"
    by (simp add: SuccessResponse_def)
  have d: "read_json ''[1, {} ]'' = Some (VArr [VNumber ''1'', VObj []])" by code_simp
  have "Itoa 200 = ''200''" "to_valid [CHR 0x22, CHR 0xFF] = [CHR 0x22, CHR 0xEF, CHR 0xBF, CHR 0xBD]" by code_simp+
  with envelopes_decode [of 1 "''[1, {} ]''", OF _ _ d e] demo_text e show ?thesis
    by (auto simp: max_nesting_def numeral_2_eq_2)
qed

end
