(* ===== verification/Metrics_Protocol.thy ===== *)
theory Metrics_Protocol
  imports Http_Observe
begin

text \<open>
  The counters of \<^verbatim>\<open>src/internal/platform/httpserver/metrics.go\<close> under concurrent requests, as a step
  relation. A step is one atomic operation of one request, or one \<^verbatim>\<open>Load\<close> of a scrape; the steps of
  all requests interleave freely. The theory shows that the counters account for every request at
  every moment, and what a scrape that reads them one by one can report.
\<close>

section \<open>The atomic operations of a request\<close>

definition gauge_up :: "metrics \<Rightarrow> metrics" where
  "gauge_up m = m\<lparr>inflight := inflight m + 1\<rparr>"

definition gauge_down :: "metrics \<Rightarrow> metrics" where
  "gauge_down m = m\<lparr>inflight := inflight m - 1\<rparr>"

definition add_duration :: "64 word \<Rightarrow> metrics \<Rightarrow> metrics" where
  "add_duration d m = m\<lparr>durationNS := durationNS m + d\<rparr>"

text \<open>These and \<^const>\<open>count_request\<close> are what \<^const>\<open>Metrics_Wrap\<close> does to the counters, in this order.\<close>

lemma Metrics_Wrap_operations:
  "Metrics_Wrap next r =
     bind time_now (\<lambda>start.
     seq (update_metrics gauge_up)
     (bind (wrap (next r) metricWriter 0) (\<lambda>(res, tracked0).
       let c = status_class (if \<not> isl res \<and> tracked0 = 0 then 200 else tracked0)
       in seq (update_metrics gauge_down)
          (seq (update_metrics (count_request c))
          (bind time_now (\<lambda>now. seq (update_metrics (add_duration (word_of_int (time_sub now start)))) (resume res)))))))"
  by (simp add: Metrics_Wrap_def gauge_up_def [abs_def] gauge_down_def [abs_def] add_duration_def [abs_def] Let_def)

section \<open>Steps\<close>

text \<open>Where a request is between its operations; the class is known once the handler is done.\<close>

datatype phase = Arrived | InHandler | Answered nat | Counted nat | Finished_in nat "64 word"

record monitor =
  counters :: metrics
  phases :: "phase list"
  scraped :: "64 word list"

definition idle :: monitor where
  "idle = \<lparr>counters = \<lparr>requests = replicate 6 0, durationNS = 0, inflight = 0\<rparr>, phases = [], scraped = []\<rparr>"

inductive metrics_step :: "monitor \<Rightarrow> monitor \<Rightarrow> bool" where
  arrive: "metrics_step s (s\<lparr>phases := phases s @ [Arrived]\<rparr>)"
| enter: "i < length (phases s) \<Longrightarrow> phases s ! i = Arrived \<Longrightarrow>
    metrics_step s (s\<lparr>counters := gauge_up (counters s), phases := (phases s)[i := InHandler]\<rparr>)"
| leave: "i < length (phases s) \<Longrightarrow> phases s ! i = InHandler \<Longrightarrow>
    metrics_step s (s\<lparr>counters := gauge_down (counters s), phases := (phases s)[i := Answered (status_class st)]\<rparr>)"
| tally_class: "i < length (phases s) \<Longrightarrow> phases s ! i = Answered c \<Longrightarrow>
    metrics_step s (s\<lparr>counters := count_request c (counters s), phases := (phases s)[i := Counted c]\<rparr>)"
| tally_time: "i < length (phases s) \<Longrightarrow> phases s ! i = Counted c \<Longrightarrow>
    metrics_step s (s\<lparr>counters := add_duration d (counters s), phases := (phases s)[i := Finished_in c d]\<rparr>)"
| load: "length (scraped s) < 6 \<Longrightarrow>
    metrics_step s (s\<lparr>scraped := scraped s @ [requests (counters s) ! length (scraped s)]\<rparr>)"

inductive_cases metrics_stepE: "metrics_step s t"

section \<open>Accounts\<close>

fun counted_class :: "phase \<Rightarrow> nat option" where
  "counted_class (Counted c) = Some c"
| "counted_class (Finished_in c d) = Some c"
| "counted_class p = None"

fun known_class :: "phase \<Rightarrow> nat option" where
  "known_class (Answered c) = Some c"
| "known_class p = counted_class p"

fun time_spent :: "phase \<Rightarrow> 64 word" where
  "time_spent (Finished_in c d) = d"
| "time_spent p = 0"

definition tally :: "(phase \<Rightarrow> bool) \<Rightarrow> phase list \<Rightarrow> nat" where
  "tally P ps = length (filter P ps)"

lemma tally_simps [simp]: "tally P [] = 0" "tally P (ps @ [p]) = tally P ps + of_bool (P p)"
  "tally P (p # ps) = of_bool (P p) + tally P ps"
  by (simp_all add: tally_def)

lemma tally_update: "i < length ps \<Longrightarrow> tally P (ps[i := p]) + of_bool (P (ps ! i)) = tally P ps + of_bool (P p)"
proof (induction ps arbitrary: i)
  case (Cons q ps)
  from Cons.prems Cons.IH [of "i - 1"] show ?case by (cases i) simp_all
qed simp

lemma tally_keep: "i < length ps \<Longrightarrow> P (ps ! i) \<longleftrightarrow> P p \<Longrightarrow> tally P (ps[i := p]) = tally P ps"
  and tally_gain: "i < length ps \<Longrightarrow> \<not> P (ps ! i) \<Longrightarrow> P p \<Longrightarrow> tally P (ps[i := p]) = Suc (tally P ps)"
  and tally_lose: "i < length ps \<Longrightarrow> P (ps ! i) \<Longrightarrow> \<not> P p \<Longrightarrow> tally P ps = Suc (tally P (ps[i := p]))"
  using tally_update [of i ps P p] by simp_all

lemma tally_le: "tally P ps \<le> length ps"
  by (simp add: tally_def)

lemma spent_update: "i < length ps \<Longrightarrow> time_spent (ps ! i) = 0 \<Longrightarrow>
    sum_list (map time_spent (ps[i := p])) = sum_list (map time_spent ps) + time_spent p"
proof (induction ps arbitrary: i)
  case (Cons q ps)
  from Cons.prems Cons.IH [of "i - 1"] show ?case by (cases i) (simp_all add: algebra_simps)
qed simp

text \<open>The number of requests that have been counted, in one class and in all.\<close>

definition counted_in :: "monitor \<Rightarrow> nat \<Rightarrow> nat" where
  "counted_in s c = tally (\<lambda>p. counted_class p = Some c) (phases s)"

definition completed :: "monitor \<Rightarrow> nat" where
  "completed s = tally (\<lambda>p. counted_class p \<noteq> None) (phases s)"

definition in_handlers :: "monitor \<Rightarrow> nat" where
  "in_handlers s = tally (\<lambda>p. p = InHandler) (phases s)"

definition account :: "monitor \<Rightarrow> bool" where
  "account s \<longleftrightarrow>
     requests (counters s) = map (\<lambda>c. of_nat (counted_in s c)) [0..<6] \<and>
     inflight (counters s) = of_nat (in_handlers s) \<and>
     durationNS (counters s) = sum_list (map time_spent (phases s)) \<and>
     (\<forall>p \<in> set (phases s). \<forall>c. known_class p = Some c \<longrightarrow> c < 6)"

lemma account_idle: "account idle"
  by (simp add: account_def idle_def counted_in_def in_handlers_def map_replicate_const)

text \<open>What one phase change does to the accounts.\<close>

lemma counted_keep: "i < length (phases s) \<Longrightarrow> counted_class (phases s ! i) = counted_class p \<Longrightarrow>
    counted_in (s\<lparr>counters := m, phases := (phases s)[i := p]\<rparr>) c = counted_in s c"
  by (simp add: counted_in_def tally_keep)

lemma counted_gain: "i < length (phases s) \<Longrightarrow> counted_class (phases s ! i) = None \<Longrightarrow> counted_class p = Some d \<Longrightarrow>
    counted_in (s\<lparr>counters := m, phases := (phases s)[i := p]\<rparr>) c = counted_in s c + of_bool (c = d)"
  by (simp add: counted_in_def tally_keep tally_gain)

lemma handlers_keep: "i < length (phases s) \<Longrightarrow> phases s ! i = InHandler \<longleftrightarrow> p = InHandler \<Longrightarrow>
    in_handlers (s\<lparr>counters := m, phases := (phases s)[i := p]\<rparr>) = in_handlers s"
  by (simp add: in_handlers_def tally_keep)

lemma known_update: "\<forall>p \<in> set ps. \<forall>c. known_class p = Some c \<longrightarrow> c < (6 :: nat) \<Longrightarrow> (\<And>c. known_class p = Some c \<Longrightarrow> c < 6) \<Longrightarrow>
    \<forall>p \<in> set (ps[i := p]). \<forall>c. known_class p = Some c \<longrightarrow> c < 6"
  by (auto dest: set_update_subset_insert [THEN subsetD])

lemma requests_gain:
  assumes "requests m = map (\<lambda>c. of_nat (f c)) [0..<6]" "d < 6"
  shows "requests (count_request d m) = map (\<lambda>c. of_nat (f c + of_bool (c = d))) [0..<6]"
  using assms by (intro nth_equalityI) (auto simp: count_request_def nth_list_update)

lemma account_step: "metrics_step s t \<Longrightarrow> account s \<Longrightarrow> account t"
proof (induction rule: metrics_step.induct)
  case (arrive s)
  then show ?case by (simp add: account_def counted_in_def in_handlers_def)
next
  case (enter i s)
  let ?t = "s\<lparr>counters := gauge_up (counters s), phases := (phases s)[i := InHandler]\<rparr>"
  have "in_handlers ?t = Suc (in_handlers s)" using enter by (simp add: in_handlers_def tally_gain)
  moreover have "\<forall>p \<in> set (phases ?t). \<forall>c. known_class p = Some c \<longrightarrow> c < 6"
    using enter known_update [of "phases s" InHandler] by (simp add: account_def)
  ultimately show ?case using enter by (simp add: account_def gauge_up_def counted_keep spent_update)
next
  case (leave i s st)
  let ?t = "s\<lparr>counters := gauge_down (counters s), phases := (phases s)[i := Answered (status_class st)]\<rparr>"
  have "in_handlers s = Suc (in_handlers ?t)" using leave tally_lose [of i "phases s" "\<lambda>p. p = InHandler"] by (simp add: in_handlers_def)
  then have "of_nat (in_handlers ?t) = (of_nat (in_handlers s) - 1 :: 64 word)" by simp
  moreover have "\<forall>p \<in> set (phases ?t). \<forall>c. known_class p = Some c \<longrightarrow> c < 6"
    using leave known_update [of "phases s" "Answered (status_class st)"] status_class_bound by (auto simp: account_def)
  ultimately show ?case using leave by (simp add: account_def gauge_down_def counted_keep spent_update)
next
  case (tally_class i s c)
  let ?t = "s\<lparr>counters := count_request c (counters s), phases := (phases s)[i := Counted c]\<rparr>"
  have c: "c < 6" using tally_class by (metis account_def known_class.simps(1) nth_mem)
  have "\<forall>p \<in> set (phases ?t). \<forall>c. known_class p = Some c \<longrightarrow> c < 6"
    using tally_class c known_update [of "phases s" "Counted c"] by (auto simp: account_def)
  moreover have "requests (counters ?t) = map (\<lambda>e. of_nat (counted_in ?t e)) [0..<6]"
    using tally_class requests_gain [OF _ c, of "counters s" "counted_in s"] by (simp add: account_def counted_gain)
  moreover have "inflight (counters ?t) = inflight (counters s)" "durationNS (counters ?t) = durationNS (counters s)"
    by (simp_all add: count_request_def)
  ultimately show ?case using tally_class by (simp add: account_def handlers_keep spent_update)
next
  case (tally_time i s c d)
  let ?t = "s\<lparr>counters := add_duration d (counters s), phases := (phases s)[i := Finished_in c d]\<rparr>"
  have "c < 6" using tally_time by (metis account_def counted_class.simps(1) known_class.simps(4) nth_mem)
  then have "\<forall>p \<in> set (phases ?t). \<forall>c. known_class p = Some c \<longrightarrow> c < 6"
    using tally_time known_update [of "phases s" "Finished_in c d"] by (auto simp: account_def)
  then show ?case using tally_time by (simp add: account_def add_duration_def counted_keep handlers_keep spent_update)
next
  case (load s)
  then show ?case by (simp add: account_def counted_in_def in_handlers_def)
qed

lemma account_run: "metrics_step\<^sup>*\<^sup>* s t \<Longrightarrow> account s \<Longrightarrow> account t"
  by (induction rule: rtranclp_induct) (auto intro: account_step)

section \<open>Scrapes\<close>

text \<open>Nothing that has been counted is taken back.\<close>

lemma step_grows: "metrics_step s t \<Longrightarrow> account s \<Longrightarrow>
    counted_in s c \<le> counted_in t c \<and> length (phases s) \<le> length (phases t) \<and>
    (scraped t = scraped s \<or> length (scraped s) < 6 \<and> scraped t = scraped s @ [requests (counters s) ! length (scraped s)])"
  by (induction rule: metrics_step.induct)
    (simp_all add: counted_keep counted_gain, simp_all add: counted_in_def)

text \<open>
  The values loaded so far, each between the number counted at the start of the scrape and the number
  counted now.
\<close>

definition scrape_ok :: "monitor \<Rightarrow> monitor \<Rightarrow> bool" where
  "scrape_ok s t \<longleftrightarrow> length (scraped t) \<le> 6 \<and>
     (\<forall>i < length (scraped t). counted_in s i \<le> unat (scraped t ! i) \<and> unat (scraped t ! i) \<le> counted_in t i)"

lemma unat_exact: "n < 2 ^ 64 \<Longrightarrow> unat (of_nat n :: 64 word) = n"
  by (simp add: unat_of_nat)

lemma requests_unat: "account s \<Longrightarrow> length (phases s) < 2 ^ 64 \<Longrightarrow> c < 6 \<Longrightarrow> unat (requests (counters s) ! c) = counted_in s c"
  using tally_le [of "\<lambda>p. counted_class p = Some c" "phases s"]
  by (simp add: account_def counted_in_def unat_exact)

lemma scrape_run:
  assumes "metrics_step\<^sup>*\<^sup>* s t" "account s" "scraped s = []" "length (phases t) < 2 ^ 64"
  shows "scrape_ok s t \<and> (\<forall>c. counted_in s c \<le> counted_in t c)"
  using assms(1,4)
proof (induction rule: rtranclp_induct)
  case base
  then show ?case by (simp add: scrape_ok_def assms(3))
next
  case (step t u)
  have a: "account t" by (rule account_run [OF step(1) assms(2)])
  note g = step_grows [OF step(2) a]
  then have "length (phases t) < 2 ^ 64" using step.prems by (meson le_less_trans)
  with step.IH have ok: "scrape_ok s t" and le: "\<And>c. counted_in s c \<le> counted_in t c" by auto
  note now = requests_unat [OF a \<open>length (phases t) < 2 ^ 64\<close>]
  have grown: "x \<le> counted_in t c \<Longrightarrow> x \<le> counted_in u c" for x c using g [of c] by simp
  from g [of 0] consider "scraped u = scraped t"
    | "length (scraped t) < 6" "scraped u = scraped t @ [requests (counters t) ! length (scraped t)]" by blast
  then have "scrape_ok s u"
  proof cases
    case 1
    with ok show ?thesis by (auto simp: scrape_ok_def intro: grown)
  next
    case 2
    with ok le now show ?thesis by (auto simp: scrape_ok_def nth_append less_Suc_eq intro: grown)
  qed
  with le show ?case by (auto intro: grown)
qed

lemma completed_sum:
  assumes "account s" shows "completed s = (\<Sum>c < 6. counted_in s c)"
proof -
  have "tally (\<lambda>p. counted_class p \<noteq> None) ps = (\<Sum>c < 6. tally (\<lambda>p. counted_class p = Some c) ps)"
    if "\<forall>p \<in> set ps. \<forall>c. known_class p = Some c \<longrightarrow> c < 6" for ps
    using that
  proof (induction ps)
    case (Cons p ps)
    have "of_bool (counted_class p \<noteq> None) = (\<Sum>c < (6 :: nat). of_bool (counted_class p = Some c) :: nat)"
      using Cons.prems by (cases p) (auto simp: of_bool_def sum.delta)
    with Cons show ?case by (simp add: sum.distrib)
  qed simp
  then show ?thesis using assms by (simp add: account_def completed_def counted_in_def)
qed

lemma sum_list_word: "sum_list ws = (of_nat (\<Sum>i < length ws. unat (ws ! i)) :: 64 word)"
proof (induction ws)
  case (Cons w ws)
  then show ?case by (simp add: sum.lessThan_Suc_shift del: sum.lessThan_Suc)
qed simp

text \<open>
  C17. The metrics account for every request under concurrency. Take any interleaving of the atomic
  operations of requests, of which there are fewer than the 64-bit counters can hold, from the start of the process on. At
  every moment the gauge is the number of requests that are in their handlers, each class
  counter is the number of requests counted in it, and the duration is the sum of those of the
  finished requests. A scrape reads the six counters one after the other while requests go on; the
  total it prints is nevertheless at least what was complete when it began and at most what is
  complete when it ends.
\<close>

theorem metrics_account:
  assumes "metrics_step\<^sup>*\<^sup>* idle s" and "metrics_step\<^sup>*\<^sup>* s t" and "scraped s = []" and "length (phases t) < 2 ^ 64"
  shows "unat (inflight (counters t)) = in_handlers t \<and>
    length (requests (counters t)) = 6 \<and> (\<forall>c < 6. unat (requests (counters t) ! c) = counted_in t c) \<and>
    durationNS (counters t) = sum_list (map time_spent (phases t)) \<and>
    (length (scraped t) = 6 \<longrightarrow> completed s \<le> unat (sum_list (scraped t)) \<and> unat (sum_list (scraped t)) \<le> completed t)"
proof -
  have s: "account s" by (rule account_run [OF assms(1) account_idle])
  have t: "account t" by (rule account_run [OF assms(2) s])
  have "in_handlers t < 2 ^ 64" using tally_le assms(4) unfolding in_handlers_def by (rule le_less_trans)
  then have gauge: "unat (inflight (counters t)) = in_handlers t" using t by (simp add: account_def unat_exact)
  have "completed s \<le> unat (sum_list (scraped t)) \<and> unat (sum_list (scraped t)) \<le> completed t" if len: "length (scraped t) = 6"
  proof -
    let ?sum = "\<Sum>i < 6. unat (scraped t ! i)"
    from scrape_run [OF assms(2) s assms(3,4)] have "\<forall>i < 6. counted_in s i \<le> unat (scraped t ! i) \<and> unat (scraped t ! i) \<le> counted_in t i"
      by (simp add: scrape_ok_def len)
    then have b: "completed s \<le> ?sum" "?sum \<le> completed t"
      unfolding completed_sum [OF s] completed_sum [OF t] by (auto intro: sum_mono)
    have "completed t < 2 ^ 64" using tally_le assms(4) unfolding completed_def by (rule le_less_trans)
    with b(2) have "?sum < 2 ^ 64" by simp
    from unat_exact [OF this] have "unat (sum_list (scraped t)) = ?sum" unfolding sum_list_word len .
    with b show ?thesis by simp
  qed
  with gauge t requests_unat [OF t assms(4)] show ?thesis by (simp add: account_def)
qed

lemma loads:
  "length (scraped s) + n \<le> 6 \<Longrightarrow> metrics_step\<^sup>*\<^sup>* s
     (s\<lparr>scraped := scraped s @ map (\<lambda>i. requests (counters s) ! i) [length (scraped s)..<length (scraped s) + n]\<rparr>)"
proof (induction n)
  case (Suc n)
  let ?t = "s\<lparr>scraped := scraped s @ map (\<lambda>i. requests (counters s) ! i) [length (scraped s)..<length (scraped s) + n]\<rparr>"
  have "metrics_step ?t (?t\<lparr>scraped := scraped ?t @ [requests (counters ?t) ! length (scraped ?t)]\<rparr>)"
    using Suc.prems by (intro load) simp
  with Suc show ?case by (simp add: rtranclp.rtrancl_into_rtrancl)
qed simp

text \<open>One request was counted with status 200, another one is being served, and a scrape runs.\<close>

definition demo_monitor :: monitor where
  "demo_monitor = \<lparr>counters = \<lparr>requests = [0, 0, 1, 0, 0, 0], durationNS = 0, inflight = 1\<rparr>,
     phases = [Counted 2, InHandler], scraped = []\<rparr>"

lemma demo_reached: "metrics_step\<^sup>*\<^sup>* idle demo_monitor"
proof -
  let ?m = "\<lambda>rs n ps. \<lparr>counters = \<lparr>requests = rs, durationNS = 0, inflight = n\<rparr>, phases = ps, scraped = []\<rparr>"
  let ?z = "[0, 0, 0, 0, 0, 0]"
  have "metrics_step idle (?m ?z 0 [Arrived])" using arrive [of idle] by (simp add: idle_def numeral_eq_Suc)
  moreover have "metrics_step (?m ?z 0 [Arrived]) (?m ?z 1 [InHandler])"
    using enter [of 0 "?m ?z 0 [Arrived]"] by (simp add: gauge_up_def)
  moreover have "metrics_step (?m ?z 1 [InHandler]) (?m ?z 1 [InHandler, Arrived])"
    using arrive [of "?m ?z 1 [InHandler]"] by simp
  moreover have "metrics_step (?m ?z 1 [InHandler, Arrived]) (?m ?z 2 [InHandler, InHandler])"
    using enter [of 1 "?m ?z 1 [InHandler, Arrived]"] by (simp add: gauge_up_def)
  moreover have "metrics_step (?m ?z 2 [InHandler, InHandler]) (?m ?z 1 [Answered 2, InHandler])"
    using leave [of 0 "?m ?z 2 [InHandler, InHandler]" 200] by (simp add: gauge_down_def status_class_def quot_int_def)
  moreover have "metrics_step (?m ?z 1 [Answered 2, InHandler]) demo_monitor"
    using tally_class [of 0 "?m ?z 1 [Answered 2, InHandler]" 2] by (simp add: count_request_def demo_monitor_def)
  ultimately show ?thesis by (meson converse_rtranclp_into_rtranclp rtranclp.rtrancl_refl)
qed

theorem metrics_account_witness:
  "\<exists>t. metrics_step\<^sup>*\<^sup>* demo_monitor t \<and> length (scraped t) = 6 \<and> unat (sum_list (scraped t)) = 1 \<and> in_handlers t = 1"
proof -
  let ?t = "demo_monitor\<lparr>scraped := [0, 0, 1, 0, 0, 0]\<rparr>"
  have run: "metrics_step\<^sup>*\<^sup>* demo_monitor ?t" using loads [of demo_monitor 6] by (simp add: demo_monitor_def numeral_eq_Suc)
  have "completed demo_monitor = 1" "completed ?t = 1" by (simp_all add: completed_def demo_monitor_def)
  with metrics_account [OF demo_reached run] run show ?thesis
    by (intro exI [of _ ?t]) (simp add: demo_monitor_def in_handlers_def)
qed

end
