(* ===== verification/Spec2Isabelle.thy ===== *)
theory Spec2Isabelle
  imports Apperror Import_Claims Http_Timeout Depcheck_Claims Config_Claims Bootstrap_Claims Serve_Protocol
    Database_Claims Database_Normalize Logging Entry_Points Http_Json Metrics_Protocol
begin

text \<open>
  The Address Intelligence Platform (\<^verbatim>\<open>src/\<close>, Go), modelled and verified.

  \<^bold>\<open>The program.\<close> Three services (\<^verbatim>\<open>cmd/api\<close>, \<^verbatim>\<open>cmd/worker\<close>, \<^verbatim>\<open>cmd/indexer\<close>) and two commands
  (\<^verbatim>\<open>cmd/migrate\<close>, \<^verbatim>\<open>cmd/importdata\<close>) share a platform: \<^verbatim>\<open>config\<close> reads and validates the environment,
  \<^verbatim>\<open>logging\<close> and \<^verbatim>\<open>telemetry\<close> make the logger and the tracer, \<^verbatim>\<open>database\<close> opens a verified pool and
  migrates the schema, \<^verbatim>\<open>httpserver\<close> wraps a handler in a stack of middleware, and \<^verbatim>\<open>bootstrap\<close> composes
  them into a runtime that acquires resources, runs, and releases them. \<^verbatim>\<open>importjob\<close> loads the source
  snapshots of administrative units in one transaction. \<^verbatim>\<open>tools/dependencycheck\<close> enforces the layering
  of the packages. The domain packages hold documentation only.

  \<^bold>\<open>How the code is modelled.\<close> A pure function is a HOL function. A Go string is a list of bytes, an
  \<^verbatim>\<open>error\<close> a value of \<open>gerror\<close> with \<open>None\<close> for nil, a \<^verbatim>\<open>(T, error)\<close> result a sum, a struct a record. Integers
  are \<open>int\<close> with the wrap-around or the range check written out where the code can reach it (\<open>int64\<close>,
  \<open>ParseInt\<close>, \<open>time_sub\<close>), atomic counters are \<open>64 word\<close>, floating-point numbers are reals with the rounding
  \<open>fl\<close> of binary64 after every operation. State is passed explicitly: the response and the process state of an HTTP handler, the
  tables of the database, the history of what a runtime asked of its host. HTTP handlers are
  interaction trees, so that a theorem about middleware holds for every handler. Everything that is
  not under \<^verbatim>\<open>src/\<close> and not the standard library is an argument: the PostgreSQL server and its driver,
  goose, OpenTelemetry, the file system, signals, the clock and random numbers. What the program uses of the standard library is
  modelled.

  \<^bold>\<open>Theories and sources.\<close>
  \<^item> \<open>Go_Prelude\<close>: byte strings, \<^verbatim>\<open>strings\<close>, \<^verbatim>\<open>strconv\<close>, the sum monad. \<open>Go_Regex\<close>: \<^verbatim>\<open>regexp\<close>. \<open>Go_Url\<close>: \<^verbatim>\<open>net/url\<close>
    and addresses. \<open>Go_Duration\<close>: \<^verbatim>\<open>time.ParseDuration\<close>. \<open>Path_Match\<close>: \<^verbatim>\<open>path.Match\<close>. \<open>Json_Scan\<close>, \<open>Json_Grammar\<close>,
    \<open>Json_Sound\<close>: the scanner of \<^verbatim>\<open>encoding/json\<close>, the grammar, and that the scanner finds every text of it and
    nothing else.
  \<^item> \<open>Apperror\<close>: \<^verbatim>\<open>internal/platform/apperror\<close>, all error types of the program, \<^verbatim>\<open>errors.Is\<close>, \<^verbatim>\<open>As\<close> and \<^verbatim>\<open>Join\<close>.
  \<^item> \<open>Import_Parse\<close>, \<open>Import_Validate\<close>, \<open>Import_Tx\<close>: \<^verbatim>\<open>internal/importjob/infrastructure/postgres/import.go\<close>, from the lines of
    a snapshot to the statements of the transaction; \<open>Import_Correct\<close> and \<open>Import_Claims\<close> hold the proofs.
  \<^item> \<open>Http_Base\<close>: \<^verbatim>\<open>net/http\<close> as handlers see it. \<open>Http_Writers\<close>: the wrapping response writers. \<open>Http_Error\<close>:
    \<^verbatim>\<open>error.go\<close>, \<^verbatim>\<open>response.go\<close>, \<^verbatim>\<open>pagination.go\<close>. \<open>Ratelimit\<close>: \<^verbatim>\<open>ratelimit.go\<close>. \<open>Http_Middleware\<close>: \<^verbatim>\<open>middleware.go\<close>,
    \<^verbatim>\<open>metrics.go\<close>, \<^verbatim>\<open>cors.go\<close>, \<^verbatim>\<open>auth.go\<close>, \<^verbatim>\<open>timeout.go\<close>, \<^verbatim>\<open>router.go\<close>, \<^verbatim>\<open>stack.go\<close>, \<^verbatim>\<open>server.go\<close>, \<^verbatim>\<open>logging/http.go\<close> and
    \<^verbatim>\<open>telemetry/tracing.go\<close>. \<open>Http_Request\<close>: \<^verbatim>\<open>request.go\<close>, \<^verbatim>\<open>time.go\<close>. Proofs are in \<open>Http_Claims\<close>, \<open>Http_Observe\<close>,
    \<open>Http_Guard\<close>, \<open>Http_Timeout\<close> and \<open>Http_Json\<close>; \<open>Metrics_Protocol\<close> is the metrics under concurrent requests.
  \<^item> \<open>Logging\<close>: \<^verbatim>\<open>logging/logging.go\<close>.
  \<^item> \<open>Config\<close>, \<open>Config_Claims\<close>: \<^verbatim>\<open>internal/platform/config\<close>.
  \<^item> \<open>Schema_Version\<close>, \<open>Database\<close>, \<open>Database_Migrate\<close>: \<^verbatim>\<open>pool.go\<close>, \<^verbatim>\<open>errors.go\<close> and \<^verbatim>\<open>migrate.go\<close> of
    \<^verbatim>\<open>internal/platform/database\<close>; proofs in \<open>Database_Claims\<close> and \<open>Database_Normalize\<close>.
  \<^item> \<open>Bootstrap\<close>, \<open>Bootstrap_Claims\<close>, \<open>Serve_Protocol\<close>, \<open>Entry_Points\<close>: \<^verbatim>\<open>internal/bootstrap\<close> and \<^verbatim>\<open>cmd\<close>.
  \<^item> \<open>Depcheck\<close>, \<open>Depcheck_Scan\<close>, \<open>Depcheck_Claims\<close>: \<^verbatim>\<open>tools/dependencycheck\<close>.

  \<^bold>\<open>Interfaces.\<close> Four contracts are locales, each interpreted on the model of every part of the code
  that provides it. \<open>tracker\<close> (\<open>Http_Writers\<close>): a response writer that watches a response is invisible and
  knows at the end what was sent; the writers of recovery, access log, metrics and tracing provide
  it. \<open>observer\<close> (\<open>Http_Observe\<close>): a layer runs the handler once and passes on its response and its
  panic; \<open>Access\<close>, \<open>Metrics_Wrap\<close> and \<open>HTTPTracing\<close> provide it and the stack relies on it. \<open>slog_handler\<close>
  (\<open>Logging\<close>): the laws of attributes and groups; the JSON handler and \<open>contextHandler\<close>, which is
  written against a handler, provide them. \<open>settings_group\<close> (\<open>Config_Claims\<close>): a group of settings depends
  on its own variables only and fails with public texts; the six groups of \<open>LoadFor\<close> provide it.

  \<^bold>\<open>What is shown.\<close>
  \<^item> \<^emph>\<open>Import.\<close> A line is accepted exactly when it has the narrow \<^verbatim>\<open>INSERT\<close> form with a well-formed row;
    \<open>validate\<close> accepts exactly the inputs with distinct codes and valid parents, and then every unit is rooted in
    at most three rows. An import changes nothing or leaves exactly the complete import, a
    specification of the tables that does not mention the statements; when nothing obstructs it, it
    succeeds; a rerun changes nothing.
  \<^item> \<^emph>\<open>HTTP.\<close> Errors show their public class only; envelopes are JSON whatever they contain and are
    sent once, completely or with an abort; pages are accepted exactly when they fit; a value of a
    request reaches its destination exactly when the body is that one text of the JSON grammar
    within the limits. Recovery, deadlines, authentication, cross-origin
    checks and routing are characterised for every handler, and the assembled stack contains every
    panic. The token bucket stays within its bounds under rounding. The metrics account for
    every request under any interleaving.
  \<^item> \<^emph>\<open>Configuration.\<close> What loads satisfies the invariants that the runtimes rely on, errors repeat no value,
    a runtime ignores the settings of others, and split database settings survive as a URL.
  \<^item> \<^emph>\<open>Runtimes.\<close> Every outcome releases what was acquired, last first; every interleaving of a shutdown
    ends, keeps requests alive until they are done or the deadline passes, and computes what the
    sequential closer computes; a loaded configuration always gives a server.
  \<^item> \<^emph>\<open>Database and logs.\<close> A pool is published only when verified; a legacy schema is adopted only
    when it equals the baseline, whatever form its checks are printed in; migration errors carry no text of the
    driver; correlation and identity stay at the root of every record.
  \<^item> \<^emph>\<open>Layering.\<close> In a repository that passes the checker, imports between modules have no cycles
    across layers and the core imports only what is pure; the pattern matcher and the walk over
    syntax trees agree with their reference definitions.

  \<^bold>\<open>Bounds.\<close> Recursion is structural or on a measure, except in these places. \<open>replace_all\<close> takes the
  length of the text as bound: each match consumes at least one byte. \<open>resolveAttr\<close> takes the nesting of
  groups as fuel, because a logged object can unfold for ever; \<open>None\<close> says that the bound was
  reached, and the code does not return then. \<open>Resolve\<close> stops after \<open>maxLogValues\<close> = 100 calls and the
  JSON scanner at \<open>max_nesting\<close> = 10000, as the library does. A runtime that nothing ever stops has the
  outcome \<open>Blocked\<close>; the properties say when it does not occur.

  \<^bold>\<open>Not modelled.\<close> The decoding of a JSON value into the destination of a caller, which is reflection
  on its type, and the encoding of caller values (arguments). \<^verbatim>\<open>ServeMux\<close> patterns and the connections
  below a response writer. The SQL of the schema and of the catalogue query, which PostgreSQL executes; the statements of the
  import are modelled as functions on the tables. SDKs that are only called: \<^verbatim>\<open>pgx\<close>, goose,
  OpenTelemetry, the Go parser. The packages \<^verbatim>\<open>internal/place\<close>, \<^verbatim>\<open>geocoding\<close>, \<^verbatim>\<open>outbox\<close> and the other domain packages contain
  no code yet. Scripts, containers and documents.

  \<^bold>\<open>Departures of the code from its intent\<close>, each with a lemma: a handler that sends early hints and then
  panics under a deadline answers 200 (\<open>early_hints_panic_is_200\<close>); redirects under a deadline are
  relabelled as JSON (\<open>redirect_labelled_json\<close>); normalised check literals are joined without their
  quotes being protected (\<open>normalize_merges_literals\<close>); a second import of \<^verbatim>\<open>context\<close> under another name escapes
  the checker (\<open>second_name_unchecked\<close>); a panicking runtime is logged as stopped
  (\<open>panic_logged_as_stopped\<close>).
\<close>

end
